(* ===== verification/Prelude.thy ===== *)
theory Prelude
  imports Complex_Main "HOL-Library.AList" "HOL-Library.Char_ord" "HOL-Library.List_Lexorder"
begin

text \<open>
  Shared vocabulary of the development.

  \<^item> \<open>error\<close> and \<open>'a res\<close>: the exception classes of \<open>src/core/errors.ts\<close> and the result of a
    computation that may throw. Message texts are not modelled; the class of the error is.
  \<^item> \<open>rbind\<close>, \<open>rlist\<close>, \<open>reach\<close>: sequencing of throwing computations, a loop that collects results
    and a loop that only checks, each stopping at the first error as an exception does.
  \<^item> JavaScript \<open>Map\<close>s are insertion-ordered association lists: \<open>map_of\<close> is \<open>get\<close>,
    \<open>AList.update\<close> is \<open>set\<close> (in place for a known key, at the end otherwise), \<open>AList.delete\<close> is
    \<open>delete\<close>. The locale \<open>js_map\<close> states what the clients of a map rely on and is interpreted here.
  \<^item> decimal numerals: printing of integers, and recognition and reading of canonical decimals.

  Collections of simp rules: \<open>res_simps\<close> for results, \<open>map_simps\<close> for maps.
\<close>

named_theorems res_simps
named_theorems map_simps

section \<open>Errors and results\<close>

datatype error =
    ActiveTsError
  | ActiveTsConfigurationError
  | ActiveTsValidationError
  | ActiveTsNotFoundError
  | ActiveTsConflictError
  | RolledBackTransactionError
  | UnknownTransactionOutcomeError
  | CommittedWriteError
  | CommittedTransactionError
  | ExecutionAborted
  | DeadlineExceeded
  | DataCloneError
  | JsTypeError
  | AggregateErrorOf nat
  | ExternalError nat

type_synonym 'a res = "error + 'a"

fun rbind :: "'a res \<Rightarrow> ('a \<Rightarrow> 'b res) \<Rightarrow> 'b res" where
  "rbind (Inl e) f = Inl e"
| "rbind (Inr x) f = f x"

lemma rbind_cong [fundef_cong]:
  assumes "m = m'" and "\<And>x. m' = Inr x \<Longrightarrow> f x = f' x"
  shows "rbind m f = rbind m' f'"
  using assms by (cases m') auto

lemma rbind_Inr_iff [res_simps]:
  "rbind m f = Inr y \<longleftrightarrow> (\<exists>x. m = Inr x \<and> f x = Inr y)"
  by (cases m) auto

lemma rbind_Inl_iff [res_simps]:
  "rbind m f = Inl e \<longleftrightarrow> m = Inl e \<or> (\<exists>x. m = Inr x \<and> f x = Inl e)"
  by (cases m) auto

lemma rbind_Inr_right [simp]: "rbind m Inr = m"
  by (cases m) auto

lemma rbind_assoc: "rbind (rbind m f) g = rbind m (\<lambda>x. rbind (f x) g)"
  by (cases m) auto

fun rlist :: "('a \<Rightarrow> 'b res) \<Rightarrow> 'a list \<Rightarrow> 'b list res" where
  "rlist f [] = Inr []"
| "rlist f (x # xs) = rbind (f x) (\<lambda>y. rbind (rlist f xs) (\<lambda>ys. Inr (y # ys)))"

fun reach :: "('a \<Rightarrow> unit res) \<Rightarrow> 'a list \<Rightarrow> unit res" where
  "reach f [] = Inr ()"
| "reach f (x # xs) = rbind (f x) (\<lambda>_. reach f xs)"

lemma rlist_cong [fundef_cong]:
  assumes "xs = ys" and "\<And>x. x \<in> set ys \<Longrightarrow> f x = g x"
  shows "rlist f xs = rlist g ys"
proof -
  have "rlist f ys = rlist g ys" using assms(2) by (induction ys) auto
  with assms(1) show ?thesis by simp
qed

lemma reach_cong [fundef_cong]:
  assumes "xs = ys" and "\<And>x. x \<in> set ys \<Longrightarrow> f x = g x"
  shows "reach f xs = reach g ys"
proof -
  have "reach f ys = reach g ys" using assms(2) by (induction ys) auto
  with assms(1) show ?thesis by simp
qed

lemma reach_Inr_iff [res_simps]: "reach f xs = Inr u \<longleftrightarrow> (\<forall>x \<in> set xs. f x = Inr ())"
  by (induction xs) (auto simp: res_simps)

lemma rlist_Inr_iff [res_simps]:
  "rlist f xs = Inr ys \<longleftrightarrow> list_all2 (\<lambda>x y. f x = Inr y) xs ys"
  by (induction xs arbitrary: ys) (auto simp: res_simps list_all2_Cons1)

lemma rlist_member: "rlist f xs = Inr ys \<Longrightarrow> y \<in> set ys \<Longrightarrow> \<exists>x \<in> set xs. f x = Inr y"
  by (induction xs arbitrary: ys) (auto simp: rbind_Inr_iff)

lemma reachD: "reach f xs = Inr u \<Longrightarrow> x \<in> set xs \<Longrightarrow> f x = Inr ()"
  by (simp add: reach_Inr_iff)

lemma reach_keyD: "reach (\<lambda>(k, p). f k p) ps = Inr u \<Longrightarrow> (k, p) \<in> set ps \<Longrightarrow> f k p = Inr ()"
  by (auto dest: reachD)

lemma rlist_length: "rlist f xs = Inr ys \<Longrightarrow> length ys = length xs"
  by (auto simp: res_simps dest: list_all2_lengthD)

lemma rlist_map_Inr: "(\<And>x. x \<in> set xs \<Longrightarrow> f x = Inr (g x)) \<Longrightarrow> rlist f xs = Inr (map g xs)"
  by (induction xs) auto

lemma rlist_error: "rlist f xs = Inl e \<Longrightarrow> \<exists>x \<in> set xs. f x = Inl e"
  by (induction xs) (auto simp: res_simps)

section \<open>Maps\<close>

locale js_map =
  fixes get :: "'m \<Rightarrow> 'k \<Rightarrow> 'v option"
    and put :: "'k \<Rightarrow> 'v \<Rightarrow> 'm \<Rightarrow> 'm"
    and del :: "'k \<Rightarrow> 'm \<Rightarrow> 'm"
  assumes get_put: "get (put k v m) k' = (if k' = k then Some v else get m k')"
    and get_del: "get (del k m) k' = (if k' = k then None else get m k')"
begin

lemma get_put_same: "get (put k v m) k = Some v"
  by (simp add: get_put)

lemma get_put_other: "k' \<noteq> k \<Longrightarrow> get (put k v m) k' = get m k'"
  by (simp add: get_put)

lemma get_put_put: "get (put k v (put k w m)) = get (put k v m)"
  by (rule ext) (simp add: get_put)

lemma get_del_put: "get (del k (put k v m)) = get (del k m)"
  by (rule ext) (simp add: get_put get_del)

lemma get_fold_put_other:
  "k \<notin> fst ` set kvs \<Longrightarrow> get (fold (\<lambda>(k, v). put k v) kvs m) k = get m k"
  by (induction kvs arbitrary: m) (auto simp: get_put)

lemma get_fold_del:
  "get (fold del ks m) k = (if k \<in> set ks then None else get m k)"
  by (induction ks arbitrary: m) (auto simp: get_del)

end

interpretation alist: js_map map_of AList.update AList.delete
  by unfold_locales (auto simp: update_conv' delete_conv')

lemma map_of_update [map_simps]:
  "map_of (AList.update k v m) k' = (if k' = k then Some v else map_of m k')"
  by (rule alist.get_put)

lemma map_of_delete [map_simps]:
  "map_of (AList.delete k m) k' = (if k' = k then None else map_of m k')"
  by (rule alist.get_del)

definition mhas :: "('k \<times> 'v) list \<Rightarrow> 'k \<Rightarrow> bool" where
  "mhas m k = (map_of m k \<noteq> None)"

definition mget :: "('k \<times> 'v list) list \<Rightarrow> 'k \<Rightarrow> 'v list" where
  "mget m k = (case map_of m k of None \<Rightarrow> [] | Some x \<Rightarrow> x)"

lemma map_of_key: "map_of m k = Some v \<Longrightarrow> k \<in> fst ` set m"
  by (metis map_of_eq_None_iff option.distinct(1))

lemma mhas_iff: "mhas m k \<longleftrightarrow> k \<in> fst ` set m"
  by (simp add: mhas_def map_of_eq_None_iff)

lemma mget_update [map_simps]: "mget (AList.update k v m) k' = (if k' = k then v else mget m k')"
  by (simp add: mget_def map_simps)

lemma mget_delete [map_simps]: "mget (AList.delete k m) k' = (if k' = k then [] else mget m k')"
  by (simp add: mget_def map_simps)

lemma keys_update: "fst ` set (AList.update k v m) = insert k (fst ` set m)"
  by (simp add: dom_update)

lemma keys_delete: "fst ` set (AList.delete k m) = fst ` set m - {k}"
  by (auto simp: AList.delete_eq image_iff)

lemma distinct_keys_update [simp]:
  "distinct (map fst m) \<Longrightarrow> distinct (map fst (AList.update k v m))"
  by (rule distinct_update)

lemma distinct_keys_delete [simp]:
  "distinct (map fst m) \<Longrightarrow> distinct (map fst (AList.delete k m))"
  by (rule distinct_delete)

lemma map_of_Some_distinct:
  "distinct (map fst m) \<Longrightarrow> map_of m k = Some v \<longleftrightarrow> (k, v) \<in> set m"
  by (rule map_of_eq_Some_iff)

section \<open>Decimal numerals\<close>

text \<open>Code units of ASCII digits are 48 to 57.\<close>

definition digit_char :: "nat \<Rightarrow> char" where
  "digit_char d = char_of (48 + d)"

definition is_digit :: "char \<Rightarrow> bool" where
  "is_digit c = (48 \<le> (of_char c :: nat) \<and> (of_char c :: nat) \<le> 57)"

definition char_digit :: "char \<Rightarrow> nat" where
  "char_digit c = of_char c - 48"

fun show_nat :: "nat \<Rightarrow> string" where
  "show_nat n = (if n < 10 then [digit_char n] else show_nat (n div 10) @ [digit_char (n mod 10)])"

declare show_nat.simps [simp del]

definition read_nat :: "string \<Rightarrow> nat" where
  "read_nat s = foldl (\<lambda>n c. 10 * n + char_digit c) 0 s"

definition show_int :: "int \<Rightarrow> string" where
  "show_int i = (if i < 0 then ''-'' @ show_nat (nat (- i)) else show_nat (nat i))"

text \<open>The regular expression \<open>^(0|[1-9]\d*)$\<close>, and the same with an optional sign.\<close>

definition canonical_nat :: "string \<Rightarrow> bool" where
  "canonical_nat s = (s \<noteq> [] \<and> list_all is_digit s \<and> (s = ''0'' \<or> hd s \<noteq> CHR ''0''))"

definition canonical_int :: "string \<Rightarrow> bool" where
  "canonical_int s = (case s of
     [] \<Rightarrow> False
   | c # t \<Rightarrow> if c = CHR ''-'' then canonical_nat t else canonical_nat s)"

definition read_int :: "string \<Rightarrow> int" where
  "read_int s = (case s of
     [] \<Rightarrow> 0
   | c # t \<Rightarrow> if c = CHR ''-'' then - int (read_nat t) else int (read_nat s))"

lemma of_char_digit [simp]: "d < 10 \<Longrightarrow> (of_char (digit_char d) :: nat) = 48 + d"
  by (simp add: digit_char_def)

lemma char_digit_digit [simp]: "d < 10 \<Longrightarrow> char_digit (digit_char d) = d"
  by (simp add: char_digit_def)

lemma is_digit_digit [simp]: "d < 10 \<Longrightarrow> is_digit (digit_char d)"
  by (simp add: is_digit_def)

lemma digit_char_char_digit [simp]: "is_digit c \<Longrightarrow> digit_char (char_digit c) = c"
  by (simp add: is_digit_def digit_char_def char_digit_def)

lemma char_digit_less [simp]: "is_digit c \<Longrightarrow> char_digit c < 10"
  unfolding is_digit_def char_digit_def by linarith

lemma digit_char_0: "digit_char 0 = CHR ''0''"
  by code_simp

lemma digit_char_inj: "d < 10 \<Longrightarrow> e < 10 \<Longrightarrow> digit_char d = digit_char e \<Longrightarrow> d = e"
  by (metis char_digit_digit)

lemma is_digit_not_minus [simp]: "\<not> is_digit CHR ''-''"
  by code_simp

lemma digit_char_not_minus: "d < 10 \<Longrightarrow> digit_char d \<noteq> CHR ''-''"
  using is_digit_digit [of d] is_digit_not_minus by metis

lemma read_nat_snoc: "read_nat (s @ [c]) = 10 * read_nat s + char_digit c"
  by (simp add: read_nat_def)

lemma show_nat_nonempty [simp]: "show_nat n \<noteq> []"
  by (subst show_nat.simps) simp

lemma read_show_nat [simp]: "read_nat (show_nat n) = n"
proof (induction n rule: show_nat.induct)
  case (1 n)
  show ?case
  proof (cases "n < 10")
    case True
    then show ?thesis by (simp add: show_nat.simps [of n] read_nat_def)
  next
    case False
    with 1 have "read_nat (show_nat (n div 10)) = n div 10" by simp
    with False show ?thesis by (simp add: show_nat.simps [of n] read_nat_snoc)
  qed
qed

lemma show_nat_inj: "show_nat m = show_nat n \<Longrightarrow> m = n"
  by (metis read_show_nat)

lemma show_nat_digits: "list_all is_digit (show_nat n)"
proof (induction n rule: show_nat.induct)
  case (1 n)
  then show ?case by (cases "n < 10") (simp_all add: show_nat.simps [of n])
qed

lemma show_nat_head: "0 < n \<Longrightarrow> hd (show_nat n) \<noteq> CHR ''0''"
proof (induction n rule: show_nat.induct)
  case (1 n)
  show ?case
  proof (cases "n < 10")
    case True
    with 1 show ?thesis
      by (simp add: show_nat.simps [of n]) (metis digit_char_0 digit_char_inj less_numeral_extra(3)
          zero_less_numeral)
  next
    case False
    with 1 have "hd (show_nat (n div 10)) \<noteq> CHR ''0''" by simp
    with False show ?thesis by (simp add: show_nat.simps [of n])
  qed
qed

lemma show_nat_0: "show_nat 0 = ''0''"
  by (simp add: show_nat.simps digit_char_0)

lemma canonical_show_nat [simp]: "canonical_nat (show_nat n)"
  using show_nat_head [of n] show_nat_digits [of n] show_nat_0
  by (cases "n = 0") (auto simp: canonical_nat_def)

lemma read_nat_pos: "s \<noteq> [] \<Longrightarrow> list_all is_digit s \<Longrightarrow> hd s \<noteq> CHR ''0'' \<Longrightarrow> 0 < read_nat s"
proof (induction s rule: rev_induct)
  case Nil
  then show ?case by simp
next
  case (snoc c t)
  show ?case
  proof (cases "t = []")
    case True
    with snoc.prems have "is_digit c" and "c \<noteq> CHR ''0''" by simp_all
    then have "char_digit c \<noteq> 0" by (metis digit_char_0 digit_char_char_digit)
    with True show ?thesis by (simp add: read_nat_def)
  next
    case False
    with snoc have "0 < read_nat t" by simp
    then show ?thesis by (simp add: read_nat_snoc)
  qed
qed

lemma read_nat_0: "read_nat ''0'' = 0"
  using read_show_nat [of 0] by (simp add: show_nat_0)

lemma show_read_nat_aux:
  "s \<noteq> [] \<Longrightarrow> list_all is_digit s \<Longrightarrow> hd s \<noteq> CHR ''0'' \<Longrightarrow> show_nat (read_nat s) = s"
proof (induction s rule: rev_induct)
  case Nil
  then show ?case by simp
next
  case (snoc c t)
  show ?case
  proof (cases "t = []")
    case True
    with snoc.prems show ?thesis by (simp add: read_nat_def show_nat.simps)
  next
    case False
    with snoc have IH: "show_nat (read_nat t) = t" and pos: "0 < read_nat t"
      by (simp_all add: read_nat_pos)
    from snoc.prems have d: "is_digit c" by simp
    then have lt: "char_digit c < 10" by (rule char_digit_less)
    then have "(10 * read_nat t + char_digit c) div 10 = read_nat t"
      and "(10 * read_nat t + char_digit c) mod 10 = char_digit c" by simp_all
    with IH pos d lt show ?thesis
      by (simp add: read_nat_snoc show_nat.simps [of "10 * read_nat t + char_digit c"])
  qed
qed

lemma show_read_nat [simp]: "canonical_nat s \<Longrightarrow> show_nat (read_nat s) = s"
proof -
  assume c: "canonical_nat s"
  show ?thesis
  proof (cases "s = ''0''")
    case True
    then show ?thesis using read_nat_0 show_nat_0 by simp
  next
    case False
    with c show ?thesis by (auto simp: canonical_nat_def intro: show_read_nat_aux)
  qed
qed

lemma canonical_nat_no_minus: "canonical_nat s \<Longrightarrow> hd s \<noteq> CHR ''-''"
  by (cases s) (auto simp: canonical_nat_def)

lemma read_show_int [simp]: "read_int (show_int i) = i"
proof (cases "i < 0")
  case True
  then show ?thesis by (simp add: show_int_def read_int_def)
next
  case False
  obtain c t where ct: "show_nat (nat i) = c # t" by (cases "show_nat (nat i)") auto
  have "c \<noteq> CHR ''-''" using canonical_nat_no_minus [OF canonical_show_nat [of "nat i"]] ct by simp
  moreover have "read_nat (c # t) = nat i" using read_show_nat [of "nat i"] ct by simp
  ultimately show ?thesis using False ct by (simp add: show_int_def read_int_def)
qed

lemma show_int_inj: "show_int i = show_int j \<Longrightarrow> i = j"
  by (metis read_show_int)

lemma canonical_show_int [simp]: "canonical_int (show_int i)"
proof (cases "i < 0")
  case True
  then show ?thesis by (simp add: show_int_def canonical_int_def)
next
  case False
  obtain c t where ct: "show_nat (nat i) = c # t" by (cases "show_nat (nat i)") auto
  then have "c \<noteq> CHR ''-''" using canonical_nat_no_minus [OF canonical_show_nat [of "nat i"]] by simp
  moreover have "canonical_nat (c # t)" using canonical_show_nat [of "nat i"] ct by simp
  ultimately show ?thesis using False ct by (simp add: show_int_def canonical_int_def)
qed

lemma show_read_int [simp]:
  assumes "canonical_int s" and "s \<noteq> ''-0''"
  shows "show_int (read_int s) = s"
proof (cases s)
  case Nil
  with assms show ?thesis by (simp add: canonical_int_def)
next
  case (Cons c t)
  show ?thesis
  proof (cases "c = CHR ''-''")
    case True
    with assms Cons have t: "canonical_nat t" and t0: "t \<noteq> ''0''" by (auto simp: canonical_int_def)
    then have "0 < read_nat t" by (auto simp: canonical_nat_def intro: read_nat_pos)
    with t True Cons show ?thesis by (simp add: show_int_def read_int_def)
  next
    case False
    with assms Cons have "canonical_nat s" by (simp add: canonical_int_def)
    with Cons False show ?thesis by (simp add: show_int_def read_int_def)
  qed
qed

lemma show_int_not_minus_zero: "show_int i \<noteq> ''-0''"
proof
  assume a: "show_int i = ''-0''"
  then have "i = read_int ''-0''" using read_show_int [of i] by simp
  then have "i = 0" by (simp add: read_int_def read_nat_0)
  with a show False by (simp add: show_int_def show_nat_0)
qed

end
