(* ===== verification/Unicode.thy ===== *)
theory Unicode
  imports Prelude
begin

text \<open>
  \<open>src/core/unicode.ts\<close>: a JavaScript string is a sequence of UTF-16 code units, here a list of
  numbers below 65536. \<open>well_formed_from\<close> is the loop of \<open>assertWellFormedUnicode\<close> over the index;
  \<open>utf8_encode\<close> is what \<open>Buffer.from(s, 'utf8')\<close> makes of the units (an unpaired surrogate becomes
  the replacement character), so \<open>utf8_length\<close> is \<open>Buffer.byteLength(s, 'utf8')\<close>.
  The model's \<open>string\<close> holds the code units below 256; \<open>units\<close> reads it.
\<close>

definition units :: "string \<Rightarrow> nat list" where
  "units s = map of_char s"

fun well_formed_from :: "nat list \<Rightarrow> nat \<Rightarrow> nat \<Rightarrow> bool" where
  "well_formed_from value index 0 = True"
| "well_formed_from value index (Suc fuel) =
     (if \<not> index < length value then True
      else let u = value ! index in
        if u < 0xd800 \<or> 0xdfff < u then well_formed_from value (index + 1) fuel
        else if u \<le> 0xdbff \<and> index + 1 < length value
             \<and> 0xdc00 \<le> value ! (index + 1) \<and> value ! (index + 1) \<le> 0xdfff
          then well_formed_from value (index + 2) fuel
        else False)"

definition assertWellFormedUnicode :: "nat list \<Rightarrow> nat list res" where
  "assertWellFormedUnicode value =
     (if well_formed_from value 0 (length value) then Inr value else Inl ActiveTsValidationError)"

text \<open>The code points of a unit sequence; \<open>None\<close> for an unpaired surrogate.\<close>

fun code_points :: "nat list \<Rightarrow> nat option list" where
  "code_points [] = []"
| "code_points [u] = [if u < 0xd800 \<or> 0xdfff < u then Some u else None]"
| "code_points (u # v # us) =
     (if u < 0xd800 \<or> 0xdfff < u then Some u # code_points (v # us)
      else if u \<le> 0xdbff \<and> 0xdc00 \<le> v \<and> v \<le> 0xdfff
        then Some (0x10000 + (u - 0xd800) * 0x400 + (v - 0xdc00)) # code_points us
      else None # code_points (v # us))"

fun utf16_units :: "nat \<Rightarrow> nat list" where
  "utf16_units p =
     (if p < 0x10000 then [p]
      else [0xd800 + (p - 0x10000) div 0x400, 0xdc00 + (p - 0x10000) mod 0x400])"

definition utf8_size :: "nat option \<Rightarrow> nat" where
  "utf8_size p = (case p of
     None \<Rightarrow> 3
   | Some c \<Rightarrow> if c < 0x80 then 1 else if c < 0x800 then 2 else if c < 0x10000 then 3 else 4)"

definition utf8_length :: "nat list \<Rightarrow> nat" where
  "utf8_length us = sum_list (map utf8_size (code_points us))"

lemma well_formed_shift:
  "well_formed_from (x # us) (Suc i) f = well_formed_from us i f"
  by (induction f arbitrary: i) (simp_all add: Let_def)

lemma well_formed_code_points:
  "length us \<le> f \<Longrightarrow> well_formed_from us 0 f \<longleftrightarrow> None \<notin> set (code_points us)"
proof (induction us arbitrary: f rule: code_points.induct)
  case 1
  then show ?case by (cases f) simp_all
next
  case (2 u)
  then obtain g where f: "f = Suc g" by (cases f) auto
  show ?case by (cases g) (auto simp: f Let_def)
next
  case (3 u v us)
  then obtain g where f: "f = Suc g" and g: "length (v # us) \<le> g" by (cases f) auto
  have s1: "well_formed_from (u # v # us) (Suc 0) g = well_formed_from (v # us) 0 g"
    by (simp add: well_formed_shift)
  have s2: "well_formed_from (u # v # us) (Suc (Suc 0)) g = well_formed_from us 0 g"
    by (simp add: well_formed_shift)
  show ?case
  proof (cases "u < 0xd800 \<or> 0xdfff < u")
    case True
    then show ?thesis using "3.IH"(1) [OF True g] s1 by (auto simp: f Let_def)
  next
    case F: False
    show ?thesis
    proof (cases "u \<le> 0xdbff \<and> 0xdc00 \<le> v \<and> v \<le> 0xdfff")
      case True
      with F g have "well_formed_from us 0 g \<longleftrightarrow> None \<notin> set (code_points us)"
        by (intro "3.IH"(2)) auto
      with F True s2 show ?thesis by (auto simp: f Let_def)
    next
      case False
      with F show ?thesis by (auto simp: f Let_def)
    qed
  qed
qed

lemma low_surrogate_mod:
  fixes k v :: nat
  assumes "56320 \<le> v" and "v \<le> 57343"
  shows "56320 + (k * 1024 + v - 56320) mod 1024 = v"
proof -
  define w where "w = v - 56320"
  with assms have "v = 56320 + w" and "w < 1024" by linarith+
  then show ?thesis by simp
qed

lemma code_points_units:
  "list_all (\<lambda>u. u < 0x10000) us \<Longrightarrow> None \<notin> set (code_points us) \<Longrightarrow>
   concat (map (utf16_units \<circ> the) (code_points us)) = us"
proof (induction us rule: code_points.induct)
  case (2 u)
  then show ?case by (auto split: if_splits)
next
  case (3 u v us)
  then show ?case by (auto simp: low_surrogate_mod split: if_splits)
qed simp

text \<open>C1. \<open>assertWellFormedUnicode\<close> accepts a string exactly when every surrogate is paired (the
  string decodes to code points with no replacement character), and then encoding the code points
  again gives the same units: no two accepted strings collapse.\<close>

theorem well_formed_unicode_lossless:
  assumes "list_all (\<lambda>u. u < 0x10000) us"
  shows "(assertWellFormedUnicode us = Inr us \<longleftrightarrow> None \<notin> set (code_points us)) \<and>
         (assertWellFormedUnicode us = Inr us \<longrightarrow> concat (map (utf16_units \<circ> the) (code_points us)) = us)"
  using code_points_units [OF assms] well_formed_code_points [of us "length us"]
  by (simp add: assertWellFormedUnicode_def)

theorem well_formed_unicode_lossless_witness:
  "assertWellFormedUnicode [0x61, 0xd83d, 0xde00] = Inr [0x61, 0xd83d, 0xde00] \<and>
   assertWellFormedUnicode [0x61, 0xd83d] = Inl ActiveTsValidationError"
  using well_formed_unicode_lossless [of "[0x61, 0xd83d, 0xde00]"]
    well_formed_unicode_lossless [of "[0x61, 0xd83d]"]
  by (simp add: assertWellFormedUnicode_def)

end
