(* ===== verification/JsValue.thy ===== *)
theory JsValue
  imports Unicode
begin

text \<open>
  The JavaScript values the code inspects, as trees.

  \<^item> \<open>jsnum\<close>: the IEEE doubles; a finite double is its exact rational value, with \<open>-0\<close> apart.
  \<^item> \<open>jsprop\<close>: a property descriptor, with the value of a data property or of a getter call, and the
    enumerable and writable flags.
  \<^item> \<open>Obj\<close>: class (which stands for the prototype and the internal slots), own string-keyed
    properties in the order of \<open>Object.getOwnPropertyNames\<close>, own symbol-keyed properties.
  \<^item> \<open>Arr\<close>: the index slots (\<open>None\<close> is a hole), the other string-keyed properties (without
    \<open>length\<close>), the symbol-keyed ones.

  Values are trees: object identity and cycles are not represented. \<open>===\<close> between two objects is
  therefore read as false (\<open>strict_eq\<close>), which is exact wherever one side is a fresh clone.
\<close>

section \<open>Numbers\<close>

datatype jsnum = NaN | PosInf | NegInf | NegZero | Fin rat

definition MAX_SAFE_INTEGER :: int where
  "MAX_SAFE_INTEGER = 9007199254740991"

fun is_finite :: "jsnum \<Rightarrow> bool" where
  "is_finite (Fin q) = True"
| "is_finite NegZero = True"
| "is_finite _ = False"

fun num_value :: "jsnum \<Rightarrow> rat" where
  "num_value (Fin q) = q"
| "num_value _ = 0"

definition rat_integral :: "rat \<Rightarrow> bool" where
  "rat_integral q = (of_int \<lfloor>q\<rfloor> = q)"

definition is_safe_integer :: "jsnum \<Rightarrow> bool" where
  "is_safe_integer n = (is_finite n \<and> rat_integral (num_value n)
     \<and> \<bar>num_value n\<bar> \<le> of_int MAX_SAFE_INTEGER)"

definition num_of_int :: "int \<Rightarrow> jsnum" where
  "num_of_int i = Fin (of_int i)"

definition int_of_num :: "jsnum \<Rightarrow> int" where
  "int_of_num n = \<lfloor>num_value n\<rfloor>"

fun num_less :: "jsnum \<Rightarrow> jsnum \<Rightarrow> bool" where
  "num_less NaN _ = False"
| "num_less _ NaN = False"
| "num_less PosInf _ = False"
| "num_less _ NegInf = False"
| "num_less NegInf _ = True"
| "num_less _ PosInf = True"
| "num_less a b = (num_value a < num_value b)"

fun num_eq :: "jsnum \<Rightarrow> jsnum \<Rightarrow> bool" where
  "num_eq NaN _ = False"
| "num_eq _ NaN = False"
| "num_eq PosInf b = (b = PosInf)"
| "num_eq NegInf b = (b = NegInf)"
| "num_eq a PosInf = False"
| "num_eq a NegInf = False"
| "num_eq a b = (num_value a = num_value b)"

lemma rat_integral_of_int [simp]: "rat_integral (of_int i)"
  by (simp add: rat_integral_def)

lemma rat_integral_numeral [simp]:
  "rat_integral 0" "rat_integral 1" "rat_integral (numeral k)" "rat_integral (- numeral k)"
  "rat_integral (- 1)"
  by (simp_all add: rat_integral_def)

lemma is_safe_integer_of_int [simp]:
  "is_safe_integer (num_of_int i) \<longleftrightarrow> \<bar>i\<bar> \<le> MAX_SAFE_INTEGER"
  by (simp add: is_safe_integer_def num_of_int_def flip: of_int_abs)

lemma int_of_num_of_int [simp]: "int_of_num (num_of_int i) = i"
  by (simp add: int_of_num_def num_of_int_def)

lemma safe_integer_cases:
  assumes "is_safe_integer n"
  obtains "n = NegZero" | i where "n = num_of_int i" and "\<bar>i\<bar> \<le> MAX_SAFE_INTEGER"
proof (cases n)
  case (Fin q)
  with assms have "rat_integral q" by (simp add: is_safe_integer_def)
  then have q: "q = of_int \<lfloor>q\<rfloor>" unfolding rat_integral_def by (rule sym)
  have "n = num_of_int \<lfloor>q\<rfloor>" using q Fin by (simp add: num_of_int_def)
  moreover from this assms have "\<bar>\<lfloor>q\<rfloor>\<bar> \<le> MAX_SAFE_INTEGER" by simp
  ultimately show ?thesis by (rule that(2))
qed (use assms that in \<open>simp_all add: is_safe_integer_def\<close>)

section \<open>Values\<close>

datatype obj_class =
    CPlain
  | CNull
  | CDate "int option"
  | CBytes "nat list"
  | CRegExp
  | CMap
  | CSet
  | CInstance string

datatype sym_key = EntityKeySym | OtherSym nat

datatype jsval =
    Undef
  | Null
  | Bool bool
  | Num jsnum
  | Str string
  | BigInt int
  | SymV nat
  | Fn nat
  | Obj obj_class "(string \<times> jsprop) list" "(sym_key \<times> jsprop) list"
  | Arr "jsprop option list" "(string \<times> jsprop) list" "(sym_key \<times> jsprop) list"
and jsprop =
    DataP (prop_val: jsval) (enumerable: bool) (writable: bool)
  | AccP (prop_val: jsval) (enumerable: bool)

fun is_data :: "jsprop \<Rightarrow> bool" where
  "is_data (DataP _ _ _) = True"
| "is_data (AccP _ _) = False"

lemma size_prop_val [simp]: "size (prop_val p) < size p"
  by (cases p) simp_all

lemma size_member:
  "(k, p) \<in> set ps \<Longrightarrow> size (prop_val p) < size_list (size_prod (\<lambda>_. 0) size) ps"
proof (induction ps)
  case (Cons a ps)
  then show ?case using size_prop_val [of p] by (cases a) (auto simp del: size_prop_val)
qed simp

lemma size_slot:
  "Some p \<in> set es \<Longrightarrow> size (prop_val p) < size_list (size_option size) es"
proof (induction es)
  case (Cons a es)
  then show ?case using size_prop_val [of p] by (cases a) (auto simp del: size_prop_val)
qed simp

lemma size_member_left [termination_simp]:
  "(k, p) \<in> set ps \<Longrightarrow> size (prop_val p) < Suc (size_list (size_prod (\<lambda>_. 0) size) ps + m)"
  using size_member [of k p ps] by simp

lemma size_member_mid [termination_simp]:
  "(k, p) \<in> set ps \<Longrightarrow> size (prop_val p) < Suc (m + size_list (size_prod (\<lambda>_. 0) size) ps + l)"
  using size_member [of k p ps] by simp

lemma size_slot_left [termination_simp]:
  "Some p \<in> set es \<Longrightarrow> size (prop_val p) < Suc (size_list (size_option size) es + m + l)"
  using size_slot [of p es] by simp

section \<open>Strings\<close>

definition starts_with :: "string \<Rightarrow> string \<Rightarrow> bool" where
  "starts_with s t = (take (length t) s = t)"

fun str_includes :: "string \<Rightarrow> string \<Rightarrow> bool" where
  "str_includes [] t = (t = [])"
| "str_includes (c # s) t = (starts_with (c # s) t \<or> str_includes s t)"

fun split_on :: "char \<Rightarrow> string \<Rightarrow> string list" where
  "split_on c [] = [[]]"
| "split_on c (x # xs) =
     (if x = c then [] # split_on c xs
      else (case split_on c xs of [] \<Rightarrow> [[x]] | p # ps \<Rightarrow> (x # p) # ps))"

fun join_with :: "char \<Rightarrow> string list \<Rightarrow> string" where
  "join_with c [] = []"
| "join_with c [p] = p"
| "join_with c (p # ps) = p @ c # join_with c ps"

text \<open>\<open>String.prototype.toLowerCase\<close> on the code units below 256.\<close>

definition lower_char :: "char \<Rightarrow> char" where
  "lower_char c = (let u = (of_char c :: nat) in
     if (65 \<le> u \<and> u \<le> 90) \<or> (192 \<le> u \<and> u \<le> 222 \<and> u \<noteq> 215) then char_of (u + 32) else c)"

definition to_lower :: "string \<Rightarrow> string" where
  "to_lower s = map lower_char s"

lemma split_on_nonempty [simp]: "split_on c s \<noteq> []"
  by (induction s) (auto split: list.splits)

lemma join_split [simp]: "join_with c (split_on c s) = s"
proof (induction s)
  case (Cons x s)
  obtain p ps where "split_on c s = p # ps" by (cases "split_on c s") auto
  with Cons show ?case by (cases ps) auto
qed simp

lemma split_on_no_sep: "c \<notin> set s \<Longrightarrow> split_on c s = [s]"
  by (induction s) auto

lemma split_on_parts: "p \<in> set (split_on c s) \<Longrightarrow> c \<notin> set p"
proof (induction s arbitrary: p)
  case (Cons x s)
  obtain q qs where "split_on c s = q # qs" by (cases "split_on c s") auto
  with Cons show ?case by (auto split: if_splits)
qed simp

section \<open>Reading values\<close>

fun js_typeof :: "jsval \<Rightarrow> string" where
  "js_typeof Undef = ''undefined''"
| "js_typeof Null = ''object''"
| "js_typeof (Bool _) = ''boolean''"
| "js_typeof (Num _) = ''number''"
| "js_typeof (Str _) = ''string''"
| "js_typeof (BigInt _) = ''bigint''"
| "js_typeof (SymV _) = ''symbol''"
| "js_typeof (Fn _) = ''function''"
| "js_typeof (Obj _ _ _) = ''object''"
| "js_typeof (Arr _ _ _) = ''object''"

fun is_object :: "jsval \<Rightarrow> bool" where
  "is_object (Obj _ _ _) = True"
| "is_object (Arr _ _ _) = True"
| "is_object _ = False"

fun is_array :: "jsval \<Rightarrow> bool" where
  "is_array (Arr _ _ _) = True"
| "is_array _ = False"

fun is_date :: "jsval \<Rightarrow> bool" where
  "is_date (Obj (CDate _) _ _) = True"
| "is_date _ = False"

fun is_bytes :: "jsval \<Rightarrow> bool" where
  "is_bytes (Obj (CBytes _) _ _) = True"
| "is_bytes _ = False"

text \<open>Not an array, and the prototype is \<open>Object.prototype\<close> or null.\<close>

fun is_plain_object :: "jsval \<Rightarrow> bool" where
  "is_plain_object (Obj c _ _) = (c = CPlain \<or> c = CNull)"
| "is_plain_object _ = False"

fun own_symbols :: "jsval \<Rightarrow> (sym_key \<times> jsprop) list" where
  "own_symbols (Obj _ _ ss) = ss"
| "own_symbols (Arr _ _ ss) = ss"
| "own_symbols _ = []"

fun slots :: "jsval \<Rightarrow> jsprop option list" where
  "slots (Arr es _ _) = es"
| "slots _ = []"

fun extras :: "jsval \<Rightarrow> (string \<times> jsprop) list" where
  "extras (Obj _ ps _) = ps"
| "extras (Arr _ ps _) = ps"
| "extras _ = []"

text \<open>An array's length is below \<open>2 ^ 32\<close>, so an index below it is a safe integer and the test of
  the code for that is implied.\<close>

definition isArrayIndexProperty :: "string \<Rightarrow> nat \<Rightarrow> bool" where
  "isArrayIndexProperty p n = (canonical_nat p \<and> read_nat p < n)"

definition index_names :: "jsprop option list \<Rightarrow> string list" where
  "index_names es = map show_nat (filter (\<lambda>i. es ! i \<noteq> None) [0..<length es])"

fun own_names :: "jsval \<Rightarrow> string list" where
  "own_names (Obj (CBytes bs) ps _) = map show_nat [0..<length bs] @ map fst ps"
| "own_names (Obj _ ps _) = map fst ps"
| "own_names (Arr es ps _) = index_names es @ ''length'' # map fst ps"
| "own_names _ = []"

fun own_prop :: "jsval \<Rightarrow> string \<Rightarrow> jsprop option" where
  "own_prop (Obj (CBytes bs) ps _) k =
     (if canonical_nat k \<and> read_nat k < length bs
      then Some (DataP (Num (num_of_int (int (bs ! read_nat k)))) True True) else map_of ps k)"
| "own_prop (Obj _ ps _) k = map_of ps k"
| "own_prop (Arr es ps _) k =
     (if canonical_nat k \<and> read_nat k < length es then es ! read_nat k
      else if k = ''length'' then Some (DataP (Num (num_of_int (int (length es)))) False True)
      else map_of ps k)"
| "own_prop _ k = None"

definition has_own :: "jsval \<Rightarrow> string \<Rightarrow> bool" where
  "has_own v k = (own_prop v k \<noteq> None)"

text \<open>\<open>Object.entries\<close>: the enumerable own string-keyed properties with their values.\<close>

definition entries_of :: "jsval \<Rightarrow> (string \<times> jsval) list" where
  "entries_of v = List.map_filter
     (\<lambda>k. case own_prop v k of
        Some p \<Rightarrow> if enumerable p then Some (k, prop_val p) else None
      | None \<Rightarrow> None) (own_names v)"

fun truthy :: "jsval \<Rightarrow> bool" where
  "truthy Undef = False"
| "truthy Null = False"
| "truthy (Bool b) = b"
| "truthy (Num n) = (n \<noteq> NaN \<and> n \<noteq> NegZero \<and> n \<noteq> Fin 0)"
| "truthy (Str s) = (s \<noteq> [])"
| "truthy (BigInt i) = (i \<noteq> 0)"
| "truthy _ = True"

definition strict_eq :: "jsval \<Rightarrow> jsval \<Rightarrow> bool" where
  "strict_eq a b = (case a of
     Num x \<Rightarrow> (case b of Num y \<Rightarrow> num_eq x y | _ \<Rightarrow> False)
   | _ \<Rightarrow> \<not> is_object a \<and> a = b)"

definition object_is :: "jsval \<Rightarrow> jsval \<Rightarrow> bool" where
  "object_is a b = (\<not> is_object a \<and> a = b)"

section \<open>Building values\<close>

definition dataP :: "jsval \<Rightarrow> jsprop" where
  "dataP v = DataP v True True"

definition js_array :: "jsval list \<Rightarrow> jsval" where
  "js_array vs = Arr (map (\<lambda>v. Some (dataP v)) vs) [] []"

definition js_object :: "(string \<times> jsval) list \<Rightarrow> jsval" where
  "js_object kvs = Obj CPlain (map (\<lambda>(k, v). (k, dataP v)) kvs) []"

definition js_int :: "int \<Rightarrow> jsval" where
  "js_int i = Num (num_of_int i)"

text \<open>Defining a property keeps the order of \<open>getOwnPropertyNames\<close>: array-index names ascending
  first, then the other names in creation order.\<close>

definition index_name :: "string \<Rightarrow> bool" where
  "index_name k = (canonical_nat k \<and> read_nat k < 2 ^ 32 - 1)"

lemma index_name_code [code]: "index_name k = (if canonical_nat k then int (read_nat k) < 2 ^ 32 - 1 else False)"
  by (simp add: index_name_def)

definition put_new :: "string \<Rightarrow> jsprop \<Rightarrow> (string \<times> jsprop) list \<Rightarrow> (string \<times> jsprop) list" where
  "put_new k p ps =
     (if index_name k
      then takeWhile (\<lambda>(l, _). index_name l \<and> read_nat l < read_nat k) ps @ (k, p)
           # dropWhile (\<lambda>(l, _). index_name l \<and> read_nat l < read_nat k) ps
      else ps @ [(k, p)])"

definition put_prop :: "string \<Rightarrow> jsprop \<Rightarrow> (string \<times> jsprop) list \<Rightarrow> (string \<times> jsprop) list" where
  "put_prop k p ps = (if mhas ps k then AList.update k p ps else put_new k p ps)"

lemma map_of_put_new: "\<not> mhas ps k \<Longrightarrow> map_of (put_new k p ps) l = (if l = k then Some p else map_of ps l)"
proof -
  assume "\<not> mhas ps k"
  then have n: "map_of ps k = None" by (simp add: mhas_def)
  define t where "t = takeWhile (\<lambda>(l, _). index_name l \<and> read_nat l < read_nat k) ps"
  define d where "d = dropWhile (\<lambda>(l, _). index_name l \<and> read_nat l < read_nat k) ps"
  have td: "t @ d = ps" by (simp add: t_def d_def)
  have pn: "put_new k p ps = (if index_name k then t @ (k, p) # d else ps @ [(k, p)])"
    by (simp add: put_new_def t_def d_def)
  have look: "map_of ps m = (case map_of t m of None \<Rightarrow> map_of d m | Some v \<Rightarrow> Some v)" for m
    by (simp add: map_add_def flip: td)
  from look [of k] n have "map_of t k = None" by (auto split: option.splits)
  with look [of l] n pn show ?thesis
    by (auto simp: map_add_def split: option.splits)
qed

lemma map_of_put_prop [map_simps]:
  "map_of (put_prop k p ps) l = (if l = k then Some p else map_of ps l)"
  by (simp add: put_prop_def map_simps map_of_put_new)

section \<open>\<open>structuredClone\<close>\<close>

text \<open>
  Own enumerable string-keyed properties are copied as writable data properties of ordinary
  objects; symbol keys, prototypes and flags are lost; functions and symbols throw. An array has no
  entry beside its slots for an index name or for \<open>length\<close>, so such an entry of the tree is ignored.
\<close>

fun structured_clone :: "jsval \<Rightarrow> jsval res" where
  "structured_clone (SymV n) = Inl DataCloneError"
| "structured_clone (Fn n) = Inl DataCloneError"
| "structured_clone (Obj c ps ss) =
     (case c of
        CDate t \<Rightarrow> Inr (Obj c [] [])
      | CBytes bs \<Rightarrow> Inr (Obj c [] [])
      | CRegExp \<Rightarrow> Inr (Obj c [] [])
      | CMap \<Rightarrow> Inr (Obj c [] [])
      | CSet \<Rightarrow> Inr (Obj c [] [])
      | _ \<Rightarrow> rbind (rlist (\<lambda>(k, p). rbind (structured_clone (prop_val p)) (\<lambda>v. Inr (k, dataP v)))
                        (filter (\<lambda>(k, p). enumerable p) ps))
             (\<lambda>qs. Inr (Obj CPlain qs [])))"
| "structured_clone (Arr es ps ss) =
     rbind (rlist (\<lambda>e. case e of
               None \<Rightarrow> Inr None
             | Some p \<Rightarrow> if enumerable p
                 then rbind (structured_clone (prop_val p)) (\<lambda>v. Inr (Some (dataP v)))
                 else Inr None) es)
     (\<lambda>fs. rbind (rlist (\<lambda>(k, p). rbind (structured_clone (prop_val p)) (\<lambda>v. Inr (k, dataP v)))
                   (filter (\<lambda>(k, p). enumerable p \<and> k \<noteq> ''length'' \<and> \<not> isArrayIndexProperty k (length es)) ps))
     (\<lambda>qs. Inr (Arr fs qs [])))"
| "structured_clone v = Inr v"

end
