(* ===== verification/SafeKeys.thy ===== *)
theory SafeKeys
  imports JsValue
begin

text \<open>
  \<open>src/core/safe-keys.ts\<close>, \<open>src/core/array-input.ts\<close> and \<open>src/core/datastore-int64-id.ts\<close>: the
  checks that every name, id, limit, cache key and stored value passes, and the cloning of data.
  Each definition has the name of the function it models. A parameter typed \<open>unknown\<close> in the code
  is a \<open>jsval\<close>; the error context strings are dropped.
\<close>

section \<open>Names, limits and keys\<close>

definition RESERVED_FIELD_NAMES :: "string list" where
  "RESERVED_FIELD_NAMES = [''__proto__'', ''constructor'', ''prototype'']"

definition reserved_name :: "string \<Rightarrow> bool" where
  "reserved_name f = (starts_with f ''__'' \<or> f \<in> set RESERVED_FIELD_NAMES)"

fun isReservedFieldName :: "jsval \<Rightarrow> bool res" where
  "isReservedFieldName (Str f) = Inr (reserved_name f)"
| "isReservedFieldName _ = Inl ActiveTsValidationError"

definition nul :: char where
  "nul = CHR 0x00"

fun assertSafeFieldPath :: "jsval \<Rightarrow> string res" where
  "assertSafeFieldPath (Str field) =
     (if field = [] then Inl ActiveTsValidationError
      else if nul \<in> set field then Inl ActiveTsValidationError
      else rbind (reach (\<lambda>part.
             if part = [] then Inl ActiveTsValidationError
             else rbind (isReservedFieldName (Str part)) (\<lambda>r.
               if r then Inl ActiveTsValidationError else Inr ()))
             (split_on CHR ''.'' field))
           (\<lambda>_. Inr field))"
| "assertSafeFieldPath _ = Inl ActiveTsValidationError"

definition assertSafeTopLevelField :: "jsval \<Rightarrow> string res" where
  "assertSafeTopLevelField field =
     rbind (assertSafeFieldPath field) (\<lambda>safeField.
       if CHR ''.'' \<in> set safeField then Inl ActiveTsValidationError else Inr safeField)"

fun assertSafeLimit :: "jsval \<Rightarrow> jsnum option res" where
  "assertSafeLimit Undef = Inr None"
| "assertSafeLimit (Num n) =
     (if \<not> is_safe_integer n \<or> num_value n \<le> 0 then Inl ActiveTsValidationError else Inr (Some n))"
| "assertSafeLimit _ = Inl ActiveTsValidationError"

fun assertSafeOffset :: "jsval \<Rightarrow> jsnum option res" where
  "assertSafeOffset Undef = Inr None"
| "assertSafeOffset (Num n) =
     (if \<not> is_safe_integer n \<or> num_value n < 0 then Inl ActiveTsValidationError else Inr (Some n))"
| "assertSafeOffset _ = Inl ActiveTsValidationError"

definition assertCompatibleQueryPagination :: "'a option \<Rightarrow> 'b option \<Rightarrow> unit res" where
  "assertCompatibleQueryPagination offset cursor =
     (if offset \<noteq> None \<and> cursor \<noteq> None then Inl ActiveTsValidationError else Inr ())"

fun assertSafeResultCount :: "jsval \<Rightarrow> jsnum option res" where
  "assertSafeResultCount Undef = Inr None"
| "assertSafeResultCount (Num n) =
     (if \<not> is_safe_integer n \<or> num_value n < 0 then Inl ActiveTsValidationError else Inr (Some n))"
| "assertSafeResultCount _ = Inl ActiveTsValidationError"

fun assertSafeCursor :: "jsval \<Rightarrow> string option res" where
  "assertSafeCursor Undef = Inr None"
| "assertSafeCursor (Str cursor) =
     (if length cursor > 4096 then Inl ActiveTsValidationError
      else if nul \<in> set cursor then Inl ActiveTsValidationError
      else Inr (Some cursor))"
| "assertSafeCursor _ = Inl ActiveTsValidationError"

definition MAX_CACHE_KEY_BYTES :: nat where "MAX_CACHE_KEY_BYTES = 4096"
definition MAX_ENTITY_ID_BYTES :: nat where "MAX_ENTITY_ID_BYTES = 1024"
definition MAX_SCHEMA_IDENTIFIER_BYTES :: nat where "MAX_SCHEMA_IDENTIFIER_BYTES = 63"

fun assertSafeCacheKey :: "jsval \<Rightarrow> string res" where
  "assertSafeCacheKey (Str key) =
     (if key = [] then Inl ActiveTsValidationError
      else if utf8_length (units key) > MAX_CACHE_KEY_BYTES then Inl ActiveTsValidationError
      else if nul \<in> set key then Inl ActiveTsValidationError
      else Inr key)"
| "assertSafeCacheKey _ = Inl ActiveTsValidationError"

fun assertSafeTtl :: "jsval \<Rightarrow> jsnum option res" where
  "assertSafeTtl Undef = Inr None"
| "assertSafeTtl (Num n) =
     (if \<not> is_safe_integer n \<or> num_value n \<le> 0 then Inl ActiveTsValidationError else Inr (Some n))"
| "assertSafeTtl _ = Inl ActiveTsValidationError"

definition letter :: "char \<Rightarrow> bool" where
  "letter c = (let u = (of_char c :: nat) in (65 \<le> u \<and> u \<le> 90) \<or> (97 \<le> u \<and> u \<le> 122))"

text \<open>The regular expression \<open>^[A-Za-z][A-Za-z0-9_-]*$\<close>.\<close>

fun SAFE_SCHEMA_IDENTIFIER :: "string \<Rightarrow> bool" where
  "SAFE_SCHEMA_IDENTIFIER [] = False"
| "SAFE_SCHEMA_IDENTIFIER (c # s) =
     (letter c \<and> list_all (\<lambda>d. letter d \<or> is_digit d \<or> d = CHR ''_'' \<or> d = CHR ''-'') s)"

fun assertSafeSchemaIdentifier :: "jsval \<Rightarrow> string res" where
  "assertSafeSchemaIdentifier (Str name) =
     (if \<not> SAFE_SCHEMA_IDENTIFIER name \<or> reserved_name name
      then Inl ActiveTsValidationError else Inr name)"
| "assertSafeSchemaIdentifier _ = Inl ActiveTsValidationError"

definition assertSafePhysicalIdentifierLength :: "string \<Rightarrow> nat \<Rightarrow> string res" where
  "assertSafePhysicalIdentifierLength name maxBytes =
     (if utf8_length (units name) > maxBytes then Inl ActiveTsValidationError else Inr name)"

section \<open>Signed 64-bit Datastore ids\<close>

definition DATASTORE_INT64_ID_PREFIX :: string where
  "DATASTORE_INT64_ID_PREFIX = nul # ''active-ts:datastore-int64:''"

definition DATASTORE_INT64_MIN :: int where "DATASTORE_INT64_MIN = - (2 ^ 63)"
definition DATASTORE_INT64_MAX :: int where "DATASTORE_INT64_MAX = 2 ^ 63 - 1"

definition datastoreInt64Decimal :: "string \<Rightarrow> string option" where
  "datastoreInt64Decimal value =
     (if \<not> starts_with value DATASTORE_INT64_ID_PREFIX then None
      else let decimal = drop (length DATASTORE_INT64_ID_PREFIX) value in
        if \<not> canonical_int decimal \<or> decimal = ''-0'' then None
        else let parsed = read_int decimal in
          if parsed = 0 \<or> parsed < DATASTORE_INT64_MIN \<or> parsed > DATASTORE_INT64_MAX then None
          else if - MAX_SAFE_INTEGER \<le> parsed \<and> parsed \<le> MAX_SAFE_INTEGER then None
          else Some decimal)"

fun datastoreInt64Id :: "jsval \<Rightarrow> string res" where
  "datastoreInt64Id value =
     (case (case value of BigInt i \<Rightarrow> Some (show_int i) | Str s \<Rightarrow> Some s | _ \<Rightarrow> None) of
        None \<Rightarrow> Inl ActiveTsValidationError
      | Some decimal \<Rightarrow>
          if \<not> canonical_int decimal \<or> decimal = ''-0'' then Inl ActiveTsValidationError
          else let parsed = read_int decimal in
            if parsed = 0 then Inl ActiveTsValidationError
            else if parsed < DATASTORE_INT64_MIN \<or> parsed > DATASTORE_INT64_MAX
              then Inl ActiveTsValidationError
            else if - MAX_SAFE_INTEGER \<le> parsed \<and> parsed \<le> MAX_SAFE_INTEGER
              then Inl ActiveTsValidationError
            else Inr (DATASTORE_INT64_ID_PREFIX @ decimal))"

fun isDatastoreInt64Id :: "jsval \<Rightarrow> bool" where
  "isDatastoreInt64Id (Str s) = (datastoreInt64Decimal s \<noteq> None)"
| "isDatastoreInt64Id _ = False"

definition datastoreInt64IdValue :: "string \<Rightarrow> string res" where
  "datastoreInt64IdValue ident =
     (case datastoreInt64Decimal ident of
        None \<Rightarrow> Inl ActiveTsValidationError
      | Some decimal \<Rightarrow> Inr decimal)"

section \<open>Entity ids\<close>

fun assertSafeEntityId :: "jsval \<Rightarrow> unit res" where
  "assertSafeEntityId (Str s) =
     (if isDatastoreInt64Id (Str s) then Inr ()
      else if s = [] then Inl ActiveTsValidationError
      else if None \<in> set (code_points (units s)) then Inl ActiveTsValidationError
      else if utf8_length (units s) > MAX_ENTITY_ID_BYTES then Inl ActiveTsValidationError
      else if nul \<in> set s then Inl ActiveTsValidationError
      else Inr ())"
| "assertSafeEntityId (Num n) =
     (if n = NegZero then Inl ActiveTsValidationError
      else if \<not> is_safe_integer n then Inl ActiveTsValidationError
      else Inr ())"
| "assertSafeEntityId _ = Inl ActiveTsValidationError"

section \<open>Arrays\<close>

definition ARRAY_METHOD_SHADOW_FIELDS :: "string list" where
  "ARRAY_METHOD_SHADOW_FIELDS =
     [''at'', ''concat'', ''copyWithin'', ''fill'', ''find'', ''findIndex'', ''findLast'',
      ''findLastIndex'', ''lastIndexOf'', ''pop'', ''push'', ''reverse'', ''shift'', ''unshift'',
      ''slice'', ''sort'', ''splice'', ''includes'', ''indexOf'', ''join'', ''keys'', ''entries'',
      ''values'', ''forEach'', ''filter'', ''flat'', ''flatMap'', ''map'', ''every'', ''some'',
      ''reduce'', ''reduceRight'', ''toReversed'', ''toSorted'', ''toSpliced'',
      ''toLocaleString'', ''toString'', ''with'']"

definition assertDenseArrayItems :: "jsval \<Rightarrow> unit res" where
  "assertDenseArrayItems array =
     rbind (reach (\<lambda>property.
         if property = ''length'' then Inr ()
         else if \<not> isArrayIndexProperty property (length (slots array))
                 \<and> property \<notin> set ARRAY_METHOD_SHADOW_FIELDS then Inl ActiveTsValidationError
         else Inr ()) (own_names array))
     (\<lambda>_. reach (\<lambda>slot. case slot of
         None \<Rightarrow> Inl ActiveTsValidationError
       | Some p \<Rightarrow>
           if \<not> is_data p then Inl ActiveTsValidationError
           else if \<not> enumerable p then Inl ActiveTsValidationError
           else Inr ()) (slots array))"

definition snapshotArrayInput :: "jsval \<Rightarrow> jsval list res" where
  "snapshotArrayInput value =
     (if \<not> is_array value then Inl ActiveTsValidationError
      else if own_symbols value \<noteq> [] then Inl ActiveTsValidationError
      else rbind (assertDenseArrayItems value) (\<lambda>_.
        rlist (\<lambda>slot. case slot of
            None \<Rightarrow> Inl ActiveTsValidationError
          | Some p \<Rightarrow> if \<not> is_data p then Inl ActiveTsValidationError else Inr (prop_val p))
          (slots value)))"

definition assertSafeEntityIdArray :: "jsval \<Rightarrow> jsval list res" where
  "assertSafeEntityIdArray ids =
     (if \<not> is_array ids then Inl ActiveTsValidationError
      else if own_symbols ids \<noteq> [] then Inl ActiveTsValidationError
      else rbind (assertDenseArrayItems ids) (\<lambda>_.
        rlist (\<lambda>slot. case slot of
            None \<Rightarrow> Inl ActiveTsValidationError
          | Some p \<Rightarrow> if \<not> is_data p then Inl ActiveTsValidationError
              else rbind (assertSafeEntityId (prop_val p)) (\<lambda>_. Inr (prop_val p)))
          (slots ids)))"

text \<open>The body of the loop over the property names, and the function.\<close>

definition dense_own_name :: "jsval \<Rightarrow> string \<Rightarrow> unit res" where
  "dense_own_name array property =
     (if property = ''length'' then Inr ()
      else if \<not> isArrayIndexProperty property (length (slots array)) then Inl ActiveTsValidationError
      else case own_prop array property of
          None \<Rightarrow> Inl ActiveTsValidationError
        | Some p \<Rightarrow>
            if \<not> is_data p then Inl ActiveTsValidationError
            else if \<not> enumerable p then Inl ActiveTsValidationError
            else Inr ())"

definition assertDenseOwnArray :: "jsval \<Rightarrow> unit res" where
  "assertDenseOwnArray array =
     rbind (reach (dense_own_name array) (own_names array))
     (\<lambda>_. reach (\<lambda>slot. if slot = None then Inl ActiveTsValidationError else Inr ()) (slots array))"

section \<open>Facts about dense arrays\<close>

lemma dense_own_names:
  "assertDenseOwnArray array = Inr u \<Longrightarrow> k \<in> set (own_names array) \<Longrightarrow> dense_own_name array k = Inr ()"
  by (auto simp: assertDenseOwnArray_def rbind_Inr_iff dest: reachD)

lemma dense_own_slots:
  assumes "assertDenseOwnArray array = Inr u" and "e \<in> set (slots array)"
  shows "e \<noteq> None"
proof -
  from assms(1) have "reach (\<lambda>slot. if slot = None then Inl ActiveTsValidationError else Inr ()) (slots array) = Inr ()"
    by (simp add: assertDenseOwnArray_def rbind_Inr_iff)
  from reachD [OF this assms(2)] show ?thesis by (simp split: if_splits)
qed

lemma dense_own_extras:
  assumes "assertDenseOwnArray (Arr es ps ss) = Inr u" and "k \<in> fst ` set ps" and "k \<noteq> ''length''"
  shows "isArrayIndexProperty k (length es)"
proof -
  have "k \<in> set (own_names (Arr es ps ss))" using assms(2) by simp
  from dense_own_names [OF assms(1) this] assms(3) show ?thesis
    by (simp add: dense_own_name_def split: if_splits)
qed

lemma is_digit_l: "\<not> is_digit CHR ''l''"
  by code_simp

lemma show_nat_not_length: "show_nat i \<noteq> ''length''"
  using show_nat_digits [of i] is_digit_l by auto

lemma dense_own_index:
  assumes "assertDenseOwnArray (Arr es ps ss) = Inr u" and "i < length es"
  shows "\<exists>p. es ! i = Some p \<and> is_data p \<and> enumerable p"
proof -
  from assms have "es ! i \<noteq> None"
    using dense_own_slots [of "Arr es ps ss" u "es ! i"] by simp
  with assms(2) have "show_nat i \<in> set (own_names (Arr es ps ss))" by (auto simp: index_names_def)
  from dense_own_names [OF assms(1) this] assms(2)
  show "\<exists>p. es ! i = Some p \<and> is_data p \<and> enumerable p"
    by (auto simp: dense_own_name_def show_nat_not_length isArrayIndexProperty_def
        split: if_splits option.splits)
qed

lemma dense_own_member:
  assumes "assertDenseOwnArray (Arr es ps ss) = Inr u" and "Some p \<in> set es"
  shows "is_data p \<and> enumerable p"
  using assms dense_own_index by (metis in_set_conv_nth option.inject)

lemma dense_own_intro:
  assumes "\<And>e. e \<in> set es \<Longrightarrow> \<exists>p. e = Some p \<and> is_data p \<and> enumerable p"
  shows "assertDenseOwnArray (Arr es [] ss) = Inr ()"
proof -
  have "dense_own_name (Arr es [] ss) (show_nat i) = Inr ()" if "i < length es" for i
    using assms [OF nth_mem [OF that]] that
    by (auto simp: dense_own_name_def isArrayIndexProperty_def)
  moreover have "e \<noteq> None" if "e \<in> set es" for e using assms [OF that] by auto
  ultimately show ?thesis
    by (auto simp: assertDenseOwnArray_def rbind_Inr_iff reach_Inr_iff index_names_def dense_own_name_def)
qed

lemma snapshot_js_array [simp]: "snapshotArrayInput (js_array vs) = Inr vs"
proof -
  have names: "\<forall>k \<in> set (own_names (js_array vs)). k = ''length'' \<or> isArrayIndexProperty k (length vs)"
    by (auto simp: js_array_def index_names_def isArrayIndexProperty_def)
  have "rlist (\<lambda>slot. case slot of
            None \<Rightarrow> Inl ActiveTsValidationError
          | Some p \<Rightarrow> if \<not> is_data p then Inl ActiveTsValidationError else Inr (prop_val p))
          (map (\<lambda>v. Some (dataP v)) vs) = Inr vs"
    by (induction vs) (simp_all add: dataP_def)
  with names show ?thesis
    by (auto simp: snapshotArrayInput_def assertDenseArrayItems_def js_array_def reach_Inr_iff
        rbind_Inr_iff dataP_def)
qed

end
