(* ===== verification/SafeData.thy ===== *)
theory SafeData
  imports SafeKeys
begin

text \<open>
  The second half of \<open>src/core/safe-keys.ts\<close>: which values may be stored or cached, and how they are
  cloned. Values are trees, so the \<open>seen\<close> sets, which only detect cycles, do not occur. Every
  rejection is an \<open>ActiveTsValidationError\<close>.
\<close>

fun set_val :: "jsprop \<Rightarrow> jsval \<Rightarrow> jsprop" where
  "set_val (DataP _ e w) v = DataP v e w"
| "set_val (AccP _ e) v = AccP v e"

section \<open>Admissible data\<close>

definition assertNoRuntimeBuiltInCustomProperties :: "jsval \<Rightarrow> nat option \<Rightarrow> unit res" where
  "assertNoRuntimeBuiltInCustomProperties value allowedIndexLength =
     (if own_symbols value \<noteq> [] then Inl ActiveTsValidationError
      else reach (\<lambda>key. case allowedIndexLength of
          Some n \<Rightarrow> if isArrayIndexProperty key n then Inr () else Inl ActiveTsValidationError
        | None \<Rightarrow> Inl ActiveTsValidationError) (own_names value))"

definition check_data_symbols :: "(sym_key \<times> jsprop) list \<Rightarrow> unit res" where
  "check_data_symbols ss = reach (\<lambda>(symbol, p). case symbol of
       EntityKeySym \<Rightarrow>
         if \<not> is_data p then Inl ActiveTsValidationError
         else if enumerable p then Inl ActiveTsValidationError
         else Inr ()
     | OtherSym _ \<Rightarrow> Inl ActiveTsValidationError) ss"

fun assertSafeDataKeys :: "jsval \<Rightarrow> unit res" where
  "assertSafeDataKeys Undef = Inr ()"
| "assertSafeDataKeys (Num n) = (if \<not> is_finite n then Inl ActiveTsValidationError else Inr ())"
| "assertSafeDataKeys (Fn _) = Inl ActiveTsValidationError"
| "assertSafeDataKeys (SymV _) = Inl ActiveTsValidationError"
| "assertSafeDataKeys (BigInt _) = Inl ActiveTsValidationError"
| "assertSafeDataKeys Null = Inr ()"
| "assertSafeDataKeys (Bool _) = Inr ()"
| "assertSafeDataKeys (Str _) = Inr ()"
| "assertSafeDataKeys (Obj c ps ss) =
     (case c of
        CDate t \<Rightarrow>
          if t = None then Inl ActiveTsValidationError
          else assertNoRuntimeBuiltInCustomProperties (Obj c ps ss) None
      | CBytes bs \<Rightarrow> assertNoRuntimeBuiltInCustomProperties (Obj c ps ss) (Some (length bs))
      | CRegExp \<Rightarrow> Inl ActiveTsValidationError
      | CMap \<Rightarrow> Inl ActiveTsValidationError
      | CSet \<Rightarrow> Inl ActiveTsValidationError
      | _ \<Rightarrow> rbind (check_data_symbols ss) (\<lambda>_.
          if c \<noteq> CPlain \<and> c \<noteq> CNull then Inl ActiveTsValidationError
          else reach (\<lambda>(key, p).
            if \<not> is_data p then Inl ActiveTsValidationError
            else if \<not> enumerable p then Inl ActiveTsValidationError
            else if reserved_name key then Inl ActiveTsValidationError
            else assertSafeDataKeys (prop_val p)) ps))"
| "assertSafeDataKeys (Arr es ps ss) =
     rbind (check_data_symbols ss) (\<lambda>_.
     rbind (assertDenseOwnArray (Arr es ps ss)) (\<lambda>_.
     reach (\<lambda>slot. case slot of
         None \<Rightarrow> Inl ActiveTsValidationError
       | Some p \<Rightarrow>
           if \<not> is_data p then Inl ActiveTsValidationError
           else if prop_val p = Undef then Inl ActiveTsValidationError
           else assertSafeDataKeys (prop_val p)) es))"

definition assertPlainDataObject :: "jsval \<Rightarrow> unit res" where
  "assertPlainDataObject value =
     rbind (assertSafeDataKeys value) (\<lambda>_.
       if \<not> is_object value \<or> is_array value then Inl ActiveTsValidationError
       else if \<not> is_plain_object value then Inl ActiveTsValidationError
       else Inr ())"

definition assertDefinedCacheValue :: "jsval \<Rightarrow> unit res" where
  "assertDefinedCacheValue value = (if value = Undef then Inl ActiveTsValidationError else Inr ())"

fun assertCacheableValue :: "jsval \<Rightarrow> unit res" where
  "assertCacheableValue (Obj c ps ss) =
     rbind (assertSafeDataKeys (Obj c ps ss)) (\<lambda>_. case c of
        CDate _ \<Rightarrow> Inl ActiveTsValidationError
      | CBytes _ \<Rightarrow> Inl ActiveTsValidationError
      | _ \<Rightarrow> reach (\<lambda>(key, p).
            if prop_val p = Undef then Inl ActiveTsValidationError
            else assertCacheableValue (prop_val p)) (filter (\<lambda>(key, p). enumerable p) ps))"
| "assertCacheableValue (Arr es ps ss) =
     rbind (assertSafeDataKeys (Arr es ps ss)) (\<lambda>_.
       reach (\<lambda>slot. case slot of
           None \<Rightarrow> Inl ActiveTsValidationError
         | Some p \<Rightarrow>
             if \<not> is_data p then Inl ActiveTsValidationError
             else if prop_val p = Undef then Inl ActiveTsValidationError
             else assertCacheableValue (prop_val p)) es)"
| "assertCacheableValue v = rbind (assertDefinedCacheValue v) (\<lambda>_. assertSafeDataKeys v)"

fun assertPortableStoredData :: "jsval \<Rightarrow> unit res" where
  "assertPortableStoredData (Obj c ps ss) =
     rbind (assertSafeDataKeys (Obj c ps ss)) (\<lambda>_. case c of
        CDate _ \<Rightarrow> Inl ActiveTsValidationError
      | CBytes _ \<Rightarrow> Inl ActiveTsValidationError
      | _ \<Rightarrow> reach (\<lambda>(key, p). assertPortableStoredData (prop_val p))
               (filter (\<lambda>(key, p). enumerable p) ps))"
| "assertPortableStoredData (Arr es ps ss) =
     rbind (assertSafeDataKeys (Arr es ps ss)) (\<lambda>_.
       reach (\<lambda>slot. case slot of
           None \<Rightarrow> Inl ActiveTsValidationError
         | Some p \<Rightarrow>
             if \<not> is_data p then Inl ActiveTsValidationError
             else assertPortableStoredData (prop_val p)) es)"
| "assertPortableStoredData v = assertSafeDataKeys v"

section \<open>Cloning\<close>

fun pruneUndefinedObjectProperties :: "jsval \<Rightarrow> jsval" where
  "pruneUndefinedObjectProperties (Obj c ps ss) =
     (case c of
        CDate _ \<Rightarrow> Obj c ps ss
      | CBytes _ \<Rightarrow> Obj c ps ss
      | CRegExp \<Rightarrow> Obj c ps ss
      | CMap \<Rightarrow> Obj c ps ss
      | CSet \<Rightarrow> Obj c ps ss
      | _ \<Rightarrow> Obj c (concat (map (\<lambda>(key, p).
               if \<not> enumerable p then [(key, p)]
               else if prop_val p = Undef then []
               else [(key, set_val p (pruneUndefinedObjectProperties (prop_val p)))]) ps)) ss)"
| "pruneUndefinedObjectProperties (Arr es ps ss) =
     Arr (map (\<lambda>slot. case slot of
            None \<Rightarrow> None
          | Some p \<Rightarrow> if is_data p
              then Some (set_val p (pruneUndefinedObjectProperties (prop_val p))) else Some p) es) ps ss"
| "pruneUndefinedObjectProperties v = v"

definition cloneStructuredEntityKeyPrimitive :: "jsval \<Rightarrow> jsval res" where
  "cloneStructuredEntityKeyPrimitive value = (case value of
     Undef \<Rightarrow> Inr value
   | Null \<Rightarrow> Inr value
   | Str _ \<Rightarrow> Inr value
   | Bool _ \<Rightarrow> Inr value
   | Num n \<Rightarrow> if \<not> is_finite n then Inl ActiveTsValidationError else Inr value
   | _ \<Rightarrow> Inl ActiveTsValidationError)"

definition cloneStructuredEntityKeyObject :: "jsval \<Rightarrow> jsval res" where
  "cloneStructuredEntityKeyObject value =
     (case structured_clone value of Inl _ \<Rightarrow> Inl ActiveTsValidationError | Inr c \<Rightarrow> Inr c)"

fun cloneActiveEntityKeyValue :: "jsval \<Rightarrow> jsval res" where
  "cloneActiveEntityKeyValue (Arr es ps ss) =
     (if ss \<noteq> [] then Inl ActiveTsValidationError
      else rbind (assertDenseOwnArray (Arr es ps ss)) (\<lambda>_.
        rbind (rlist (\<lambda>slot. case slot of
            None \<Rightarrow> Inl ActiveTsValidationError
          | Some p \<Rightarrow> rbind (cloneActiveEntityKeyValue (prop_val p)) (\<lambda>v. Inr (Some (dataP v)))) es)
        (\<lambda>fs. Inr (Arr fs [] []))))"
| "cloneActiveEntityKeyValue (Obj c ps ss) =
     (if c \<noteq> CPlain \<and> c \<noteq> CNull then cloneStructuredEntityKeyObject (Obj c ps ss)
      else if ss \<noteq> [] then Inl ActiveTsValidationError
      else rbind (rlist (\<lambda>(key, p).
            if \<not> is_data p then Inl ActiveTsValidationError
            else if \<not> enumerable p then Inl ActiveTsValidationError
            else rbind (cloneActiveEntityKeyValue (prop_val p)) (\<lambda>v. Inr (key, dataP v))) ps)
        (\<lambda>qs. Inr (Obj c qs [])))"
| "cloneActiveEntityKeyValue v = cloneStructuredEntityKeyPrimitive v"

definition activeEntityKeyDescriptor :: "jsval \<Rightarrow> jsprop option" where
  "activeEntityKeyDescriptor value =
     (case map_of (own_symbols value) EntityKeySym of
        None \<Rightarrow> None
      | Some p \<Rightarrow> if \<not> is_data p \<or> enumerable p then None else Some p)"

fun define_symbol :: "sym_key \<Rightarrow> jsprop \<Rightarrow> jsval \<Rightarrow> jsval" where
  "define_symbol s p (Obj c ps ss) = Obj c ps (AList.update s p ss)"
| "define_symbol s p (Arr es ps ss) = Arr es ps (AList.update s p ss)"
| "define_symbol s p v = v"

fun with_slots :: "jsval \<Rightarrow> jsprop option list \<Rightarrow> jsval" where
  "with_slots (Arr _ ps ss) es = Arr es ps ss"
| "with_slots v es = v"

fun with_extras :: "jsval \<Rightarrow> (string \<times> jsprop) list \<Rightarrow> jsval" where
  "with_extras (Obj c _ ss) ps = Obj c ps ss"
| "with_extras (Arr es _ ss) ps = Arr es ps ss"
| "with_extras v ps = v"

definition attach_entity_key :: "jsval \<Rightarrow> jsval \<Rightarrow> jsval res" where
  "attach_entity_key source target =
     (case activeEntityKeyDescriptor source of
        None \<Rightarrow> Inr target
      | Some p \<Rightarrow> rbind (cloneActiveEntityKeyValue (prop_val p)) (\<lambda>v.
          Inr (define_symbol EntityKeySym (DataP v False (writable p)) target)))"

text \<open>The code walks the source's properties and mutates the clone below each; here the clone's own
  properties are walked, each with the source property of the same name.\<close>

function (sequential) restoreActiveEntityKeyDescriptors :: "jsval \<Rightarrow> jsval \<Rightarrow> jsval res" where
  "restoreActiveEntityKeyDescriptors (Obj c ps ss) target =
     (if \<not> is_object target then Inr target
      else case c of
        CDate _ \<Rightarrow> Inr target
      | CBytes _ \<Rightarrow> Inr target
      | CRegExp \<Rightarrow> Inr target
      | CMap \<Rightarrow> Inr target
      | CSet \<Rightarrow> Inr target
      | _ \<Rightarrow> rbind (attach_entity_key (Obj c ps ss) target) (\<lambda>t.
          rbind (rlist (\<lambda>(k, q). case map_of ps k of
              None \<Rightarrow> Inr (k, q)
            | Some p \<Rightarrow>
                if is_data p
                then rbind (restoreActiveEntityKeyDescriptors (prop_val p) (prop_val q))
                       (\<lambda>v. Inr (k, set_val q v))
                else Inr (k, q)) (extras t))
          (\<lambda>qs. Inr (with_extras t qs))))"
| "restoreActiveEntityKeyDescriptors (Arr es ps ss) target =
     (if \<not> is_object target then Inr target
      else rbind (attach_entity_key (Arr es ps ss) target) (\<lambda>t.
        rbind (rlist (\<lambda>(e, f). case e of
            None \<Rightarrow> Inr f
          | Some p \<Rightarrow> (case f of
              None \<Rightarrow> Inr f
            | Some q \<Rightarrow>
                if is_data p
                then rbind (restoreActiveEntityKeyDescriptors (prop_val p) (prop_val q))
                       (\<lambda>v. Inr (Some (set_val q v)))
                else Inr f)) (zip es (slots t)))
        (\<lambda>fs. Inr (with_slots t (fs @ drop (length es) (slots t))))))"
| "restoreActiveEntityKeyDescriptors v target = Inr target"
  by pat_completeness auto
termination
proof (relation "measure (size \<circ> fst)", goal_cases)
  case (2 c ps ss target t kq k q p)
  then show ?case using size_member_left [OF map_of_SomeD, of ps k p] by auto
next
  case 3
  then show ?case using size_member_left [OF map_of_SomeD] by auto
next
  case 4
  then show ?case using size_member_left [OF map_of_SomeD] by auto
next
  case 5
  then show ?case by (auto dest!: set_zip_leftD size_slot)
qed simp

definition cloneSafeData :: "jsval \<Rightarrow> jsval res" where
  "cloneSafeData value =
     rbind (assertSafeDataKeys value) (\<lambda>_.
     rbind (if value = Undef then Inr value else structured_clone value) (\<lambda>cloned.
     rbind (restoreActiveEntityKeyDescriptors value cloned) (\<lambda>restored.
     let pruned = pruneUndefinedObjectProperties restored in
     rbind (assertSafeDataKeys pruned) (\<lambda>_. Inr pruned))))"

definition cloneSafeDataWithoutActiveEntityKey :: "jsval \<Rightarrow> jsval res" where
  "cloneSafeDataWithoutActiveEntityKey value =
     rbind (assertSafeDataKeys value) (\<lambda>_.
     rbind (if value = Undef then Inr value else structured_clone value) (\<lambda>cloned.
     let pruned = pruneUndefinedObjectProperties cloned in
     rbind (assertSafeDataKeys pruned) (\<lambda>_. Inr pruned)))"

definition clonePortableData :: "jsval \<Rightarrow> jsval res" where
  "clonePortableData value =
     rbind (cloneSafeData value) (\<lambda>cloned.
     rbind (assertPortableStoredData cloned) (\<lambda>_. Inr cloned))"

definition cloneSafeDataObject :: "jsval \<Rightarrow> jsval res" where
  "cloneSafeDataObject value = rbind (assertPlainDataObject value) (\<lambda>_. cloneSafeData value)"

definition cloneSafeDataObjectWithoutActiveEntityKey :: "jsval \<Rightarrow> jsval res" where
  "cloneSafeDataObjectWithoutActiveEntityKey value =
     rbind (assertPlainDataObject value) (\<lambda>_. cloneSafeDataWithoutActiveEntityKey value)"

definition clonePortableDataObject :: "jsval \<Rightarrow> jsval res" where
  "clonePortableDataObject value = rbind (assertPlainDataObject value) (\<lambda>_. clonePortableData value)"

section \<open>What admissible data cannot hold\<close>

text \<open>\<open>subvalue v w\<close>: some chain of own string-keyed properties leads from \<open>v\<close> to \<open>w\<close>.\<close>

inductive subvalue :: "jsval \<Rightarrow> jsval \<Rightarrow> bool" where
  here: "subvalue v v"
| below: "own_prop v k = Some p \<Longrightarrow> subvalue (prop_val p) w \<Longrightarrow> subvalue v w"

lemma digit_not_reserved:
  assumes "canonical_nat k"
  shows "\<not> reserved_name k"
proof -
  obtain c t where k: "k = c # t" and "is_digit c"
    using assms by (cases k) (auto simp: canonical_nat_def)
  moreover have "\<not> is_digit CHR ''_''" "\<not> is_digit CHR ''c''" "\<not> is_digit CHR ''p''"
    by code_simp+
  ultimately show ?thesis by (auto simp: reserved_name_def starts_with_def RESERVED_FIELD_NAMES_def)
qed

lemma index_not_reserved: "isArrayIndexProperty k n \<Longrightarrow> \<not> reserved_name k"
  by (simp add: isArrayIndexProperty_def digit_not_reserved)

lemma length_not_reserved: "\<not> reserved_name ''length''"
  by code_simp

lemma no_custom_properties:
  "assertNoRuntimeBuiltInCustomProperties v a = Inr () \<Longrightarrow> k \<in> set (own_names v) \<Longrightarrow>
   \<exists>n. a = Some n \<and> isArrayIndexProperty k n"
  by (auto simp: assertNoRuntimeBuiltInCustomProperties_def res_simps split: if_splits option.splits)

lemma index_own_prop:
  "isArrayIndexProperty k (length es) \<Longrightarrow> own_prop (Arr es ps ss) k = es ! read_nat k"
  by (simp add: isArrayIndexProperty_def)

lemma safe_step:
  assumes safe: "assertSafeDataKeys v = Inr ()" and p: "own_prop v k = Some p"
  shows "assertSafeDataKeys (prop_val p) = Inr () \<and> is_data p \<and> \<not> reserved_name k"
proof (cases v)
  case (Obj c ps ss)
  show ?thesis
  proof (cases c)
    case (CBytes bs)
    show ?thesis
    proof (cases "canonical_nat k \<and> read_nat k < length bs")
      case True
      with p Obj CBytes show ?thesis by (auto simp: num_of_int_def digit_not_reserved)
    next
      case False
      with p Obj CBytes have "map_of ps k = Some p" by auto
      then have "k \<in> fst ` set ps" by (auto dest: map_of_key)
      then have "k \<in> set (own_names v)" using Obj CBytes by simp
      moreover from safe Obj CBytes have "assertNoRuntimeBuiltInCustomProperties v (Some (length bs)) = Inr ()"
        by simp
      ultimately have "isArrayIndexProperty k (length bs)" by (auto dest: no_custom_properties)
      with False show ?thesis by (simp add: isArrayIndexProperty_def)
    qed
  next
    case (CDate t)
    with p Obj have "k \<in> fst ` set ps" by (auto dest: map_of_key)
    with Obj CDate have "k \<in> set (own_names v)" by simp
    moreover from safe Obj CDate have "assertNoRuntimeBuiltInCustomProperties v None = Inr ()"
      by (simp split: if_splits)
    ultimately show ?thesis by (auto dest: no_custom_properties)
  qed (use safe p Obj in \<open>fastforce simp: res_simps dest: map_of_SomeD split: if_splits\<close>)+
next
  case (Arr es ps ss)
  show ?thesis
  proof (cases "canonical_nat k \<and> read_nat k < length es")
    case True
    with p Arr have "Some p \<in> set es" by (metis nth_mem own_prop.simps(9))
    with safe Arr True show ?thesis
      by (fastforce simp: res_simps digit_not_reserved split: if_splits)
  next
    case False
    show ?thesis
    proof (cases "k = ''length''")
      case True
      with False p Arr show ?thesis by (auto simp: num_of_int_def length_not_reserved)
    next
      case nl: False
      with False p Arr have "k \<in> fst ` set ps" by (auto dest: map_of_key)
      moreover from safe Arr have "assertDenseOwnArray (Arr es ps ss) = Inr ()" by (auto simp: res_simps)
      ultimately have "isArrayIndexProperty k (length es)" using nl by (blast intro: dense_own_extras)
      with False show ?thesis by (simp add: isArrayIndexProperty_def)
    qed
  qed
qed (use p in simp_all)

lemma safe_subvalue:
  "subvalue v w \<Longrightarrow> assertSafeDataKeys v = Inr () \<Longrightarrow> assertSafeDataKeys w = Inr ()"
  by (induction rule: subvalue.induct) (auto dest: safe_step)

section \<open>What a clone is\<close>

text \<open>The specification of cloning: ordinary objects and arrays with writable data properties, in the
  source's order, without the properties whose value is undefined.\<close>

fun normal_data :: "jsval \<Rightarrow> jsval" where
  "normal_data (Obj c ps ss) =
     (case c of
        CDate _ \<Rightarrow> Obj c [] []
      | CBytes _ \<Rightarrow> Obj c [] []
      | _ \<Rightarrow> Obj CPlain (concat (map (\<lambda>(k, p).
               if prop_val p = Undef then [] else [(k, dataP (normal_data (prop_val p)))]) ps)) [])"
| "normal_data (Arr es ps ss) =
     Arr (map (map_option (\<lambda>p. dataP (normal_data (prop_val p)))) es) [] []"
| "normal_data v = v"

lemma dataP_sel [simp]: "prop_val (dataP v) = v" "enumerable (dataP v)" "is_data (dataP v)"
  "set_val (dataP v) w = dataP w" "writable (dataP v)"
  by (simp_all add: dataP_def)

lemma structured_clone_Undef [simp]: "structured_clone v = Inr Undef \<longleftrightarrow> v = Undef"
  by (cases v) (auto simp: res_simps split: obj_class.splits)

lemma normal_data_Undef [simp]: "normal_data v = Undef \<longleftrightarrow> v = Undef"
  by (cases v) (auto split: obj_class.splits)

lemma safe_plain_members:
  assumes safe: "assertSafeDataKeys (Obj c ps ss) = Inr ()" and c: "c = CPlain \<or> c = CNull"
    and m: "(k, p) \<in> set ps"
  shows "is_data p" "enumerable p" "\<not> reserved_name k" "assertSafeDataKeys (prop_val p) = Inr ()"
proof -
  from safe c have "reach (\<lambda>(key, p).
            if \<not> is_data p then Inl ActiveTsValidationError
            else if \<not> enumerable p then Inl ActiveTsValidationError
            else if reserved_name key then Inl ActiveTsValidationError
            else assertSafeDataKeys (prop_val p)) ps = Inr ()"
    by (auto simp: rbind_Inr_iff)
  from reach_keyD [OF this m]
  show "is_data p" "enumerable p" "\<not> reserved_name k" "assertSafeDataKeys (prop_val p) = Inr ()"
    by (simp_all split: if_splits)
qed

lemma safe_array_parts:
  assumes "assertSafeDataKeys (Arr es ps ss) = Inr ()"
  shows "assertDenseOwnArray (Arr es ps ss) = Inr ()"
    and "reach (\<lambda>slot. case slot of
         None \<Rightarrow> Inl ActiveTsValidationError
       | Some p \<Rightarrow>
           if \<not> is_data p then Inl ActiveTsValidationError
           else if prop_val p = Undef then Inl ActiveTsValidationError
           else assertSafeDataKeys (prop_val p)) es = Inr ()"
  using assms by (simp_all add: rbind_Inr_iff)

lemma safe_array_members:
  assumes "assertSafeDataKeys (Arr es ps ss) = Inr ()" and "e \<in> set es"
  shows "\<exists>p. e = Some p \<and> is_data p \<and> prop_val p \<noteq> Undef \<and> assertSafeDataKeys (prop_val p) = Inr ()"
  using reachD [OF safe_array_parts(2) [OF assms(1)] assms(2)]
  by (cases e) (simp_all split: if_splits)

lemma clone_prune_normal:
  "assertSafeDataKeys v = Inr () \<Longrightarrow>
   \<exists>c. structured_clone v = Inr c \<and> pruneUndefinedObjectProperties c = normal_data v"
proof (induction v rule: normal_data.induct)
  case (1 c ps ss)
  show ?case
  proof (cases "c = CPlain \<or> c = CNull")
    case True
    note mem = safe_plain_members [OF "1.prems" True]
    define g where "g p = projr (structured_clone (prop_val p))" for p
    have IH: "structured_clone (prop_val p) = Inr (g p) \<and> pruneUndefinedObjectProperties (g p) = normal_data (prop_val p)"
      if "(k, p) \<in> set ps" for k p
    proof (cases "prop_val p = Undef")
      case False
      with 1 True mem(4) [OF that] that show ?thesis unfolding g_def by (cases c) fastforce+
    qed (simp add: g_def)
    have en: "filter (\<lambda>(k, p). enumerable p) ps = ps" using mem(2) by (auto intro: filter_True)
    have "rlist (\<lambda>(k, p). rbind (structured_clone (prop_val p)) (\<lambda>v. Inr (k, dataP v))) ps
        = Inr (map (\<lambda>(k, p). (k, dataP (g p))) ps)"
      using IH by (intro rlist_map_Inr) auto
    with True en have sc: "structured_clone (Obj c ps ss) = Inr (Obj CPlain (map (\<lambda>(k, p). (k, dataP (g p))) ps) [])"
      by auto
    have g_Undef: "g p = Undef \<longleftrightarrow> prop_val p = Undef" if "(k, p) \<in> set ps" for k p
      using IH [OF that] structured_clone_Undef [of "prop_val p"] by (auto simp del: structured_clone_Undef)
    have "pruneUndefinedObjectProperties (Obj CPlain (map (\<lambda>(k, p). (k, dataP (g p))) ps) [])
        = normal_data (Obj c ps ss)"
      using True IH g_Undef by (auto intro!: arg_cong [where f = concat] map_cong)
    with sc show ?thesis by blast
  next
    case False
    with "1.prems" show ?thesis
      by (cases c) (auto simp: rbind_Inr_iff split: if_splits)
  qed
next
  case (2 es ps ss)
  have ex: "filter (\<lambda>(k, p). enumerable p \<and> k \<noteq> ''length'' \<and> \<not> isArrayIndexProperty k (length es)) ps = []"
    using dense_own_extras [OF safe_array_parts(1) [OF "2.prems"]] by (force simp: filter_empty_conv)
  define g where "g p = projr (structured_clone (prop_val p))" for p
  have IH: "structured_clone (prop_val p) = Inr (g p) \<and> pruneUndefinedObjectProperties (g p) = normal_data (prop_val p)
      \<and> enumerable p" if "Some p \<in> set es" for p
    using 2 safe_array_members [OF "2.prems" that] that
      dense_own_member [OF safe_array_parts(1) [OF "2.prems"] that]
    unfolding g_def by fastforce
  have full: "e \<noteq> None" if "e \<in> set es" for e
    using safe_array_members [OF "2.prems" that] by auto
  have "rlist (\<lambda>e. case e of
               None \<Rightarrow> Inr None
             | Some p \<Rightarrow> if enumerable p
                 then rbind (structured_clone (prop_val p)) (\<lambda>v. Inr (Some (dataP v)))
                 else Inr None) es = Inr (map (map_option (\<lambda>p. dataP (g p))) es)"
    using IH full by (intro rlist_map_Inr) (auto split: option.splits)
  with ex have sc: "structured_clone (Arr es ps ss) = Inr (Arr (map (map_option (\<lambda>p. dataP (g p))) es) [] [])"
    by simp
  have "pruneUndefinedObjectProperties (Arr (map (map_option (\<lambda>p. dataP (g p))) es) [] [])
      = normal_data (Arr es ps ss)"
    using IH full by (auto split: option.splits)
  with sc show ?case by blast
qed (auto split: if_splits)

lemma bytes_clean:
  assumes "assertNoRuntimeBuiltInCustomProperties (Obj (CBytes bs) ps ss) (Some n) = Inr ()"
  shows "assertNoRuntimeBuiltInCustomProperties (Obj (CBytes bs) [] []) (Some n) = Inr ()"
proof -
  have "isArrayIndexProperty k n" if "k \<in> set (own_names (Obj (CBytes bs) [] []))" for k
    using no_custom_properties [OF assms, of k] that by auto
  then show ?thesis by (simp add: assertNoRuntimeBuiltInCustomProperties_def reach_Inr_iff)
qed

text \<open>A normal form is admissible data and is its own normal form.\<close>

lemma normal_safe:
  "assertSafeDataKeys v = Inr () \<Longrightarrow> assertSafeDataKeys (normal_data v) = Inr ()"
proof (induction v rule: normal_data.induct)
  case (1 c ps ss)
  show ?case
  proof (cases "c = CPlain \<or> c = CNull")
    case True
    note mem = safe_plain_members [OF "1.prems" True]
    have "assertSafeDataKeys (normal_data (prop_val p)) = Inr ()" if "(k, p) \<in> set ps" "prop_val p \<noteq> Undef" for k p
      using 1 True mem(4) [OF that(1)] that by (cases c) fastforce+
    with True mem(3) show ?thesis
      by (auto simp: check_data_symbols_def reach_Inr_iff split: if_splits)
  next
    case False
    show ?thesis
    proof (cases c)
      case (CBytes bs)
      with "1.prems" show ?thesis by (auto dest: bytes_clean)
    next
      case (CDate t)
      with "1.prems" show ?thesis
        by (auto simp: assertNoRuntimeBuiltInCustomProperties_def split: if_splits)
    qed (use False "1.prems" in \<open>auto simp: rbind_Inr_iff split: if_splits\<close>)
  qed
next
  case (2 es ps ss)
  have IH: "assertSafeDataKeys (normal_data (prop_val p)) = Inr () \<and> prop_val p \<noteq> Undef" if "Some p \<in> set es" for p
    using 2 safe_array_members [OF "2.prems" that] that by fastforce
  have full: "\<exists>p. e = Some p" if "e \<in> set es" for e
    using safe_array_members [OF "2.prems" that] by auto
  note d = safe_array_parts(1) [OF "2.prems"]
  have "assertDenseOwnArray (Arr (map (map_option (\<lambda>p. dataP (normal_data (prop_val p)))) es) [] []) = Inr ()"
    using full by (intro dense_own_intro) fastforce+
  with IH full show ?case
    by (fastforce simp: check_data_symbols_def reach_Inr_iff rbind_Inr_iff split: option.splits)
qed (auto split: if_splits)

lemma normal_idem:
  "assertSafeDataKeys v = Inr () \<Longrightarrow> normal_data (normal_data v) = normal_data v"
proof (induction v rule: normal_data.induct)
  case (1 c ps ss)
  show ?case
  proof (cases "c = CPlain \<or> c = CNull")
    case True
    note mem = safe_plain_members [OF "1.prems" True]
    have IH: "normal_data (normal_data (prop_val p)) = normal_data (prop_val p)" if "(k, p) \<in> set ps" "prop_val p \<noteq> Undef" for k p
      using 1 True mem(4) [OF that(1)] that by (cases c) fastforce+
    then have "concat (map (\<lambda>(k, p). if prop_val p = Undef then [] else [(k, dataP (normal_data (prop_val p)))])
          (concat (map (\<lambda>(k, p). if prop_val p = Undef then [] else [(k, dataP (normal_data (prop_val p)))]) ps)))
        = concat (map (\<lambda>(k, p). if prop_val p = Undef then [] else [(k, dataP (normal_data (prop_val p)))]) ps)"
      by (induction ps) fastforce+
    with True show ?thesis by auto
  next
    case False
    with "1.prems" show ?thesis
      by (cases c) (auto simp: rbind_Inr_iff split: if_splits)
  qed
next
  case (2 es ps ss)
  have "normal_data (normal_data (prop_val p)) = normal_data (prop_val p)" if "Some p \<in> set es" for p
    using 2 safe_array_members [OF "2.prems" that] that by fastforce
  then show ?case by (auto intro!: option.map_cong simp: option.map_comp o_def split: option.splits)
qed (auto split: if_splits)

lemma clone_without_key:
  "assertSafeDataKeys v = Inr () \<Longrightarrow> cloneSafeDataWithoutActiveEntityKey v = Inr (normal_data v)"
  using clone_prune_normal [of v] normal_safe [of v]
  by (auto simp: cloneSafeDataWithoutActiveEntityKey_def)

text \<open>Data without symbol-keyed properties; there \<open>cloneSafeData\<close> has no key to restore.\<close>

fun symbol_free :: "jsval \<Rightarrow> bool" where
  "symbol_free (Obj c ps ss) = (ss = [] \<and> list_all (\<lambda>(k, p). symbol_free (prop_val p)) ps)"
| "symbol_free (Arr es ps ss) =
     (ss = [] \<and> list_all (\<lambda>e. case e of None \<Rightarrow> True | Some p \<Rightarrow> symbol_free (prop_val p)) es)"
| "symbol_free v = True"

lemma attach_symbol_free: "own_symbols v = [] \<Longrightarrow> attach_entity_key v t = Inr t"
  by (simp add: attach_entity_key_def activeEntityKeyDescriptor_def)

lemma set_val_self [simp]: "set_val q (prop_val q) = q"
  by (cases q) simp_all

lemma with_extras_self [simp]: "with_extras t (extras t) = t"
  by (cases t) simp_all

lemma with_slots_self [simp]: "with_slots t (slots t) = t"
  by (cases t) simp_all

lemma rlist_self: "(\<And>x. x \<in> set xs \<Longrightarrow> f x = Inr x) \<Longrightarrow> rlist f xs = Inr xs"
  using rlist_map_Inr [of xs f id] by simp

lemma restore_symbol_free:
  "symbol_free v \<Longrightarrow> restoreActiveEntityKeyDescriptors v t = Inr t"
proof (induction v t rule: restoreActiveEntityKeyDescriptors.induct)
  case (1 c ps ss target)
  then have ss: "ss = []" by simp
  have sub: "symbol_free (prop_val p)" if "map_of ps k = Some p" for k p
    using "1.prems" map_of_SomeD [OF that] by (auto simp: list_all_iff)
  show ?case
  proof (cases "is_object target \<and> (c = CPlain \<or> c = CNull \<or> (\<exists>n. c = CInstance n))")
    case True
    let ?f = "\<lambda>(k, q). case map_of ps k of
              None \<Rightarrow> Inr (k, q)
            | Some p \<Rightarrow>
                if is_data p
                then rbind (restoreActiveEntityKeyDescriptors (prop_val p) (prop_val q))
                       (\<lambda>v. Inr (k, set_val q v))
                else Inr (k, q)"
    have "restoreActiveEntityKeyDescriptors (prop_val p) (prop_val q) = Inr (prop_val q)"
      if "(k, q) \<in> set (extras target)" "map_of ps k = Some p" "is_data p" for k q p
      using 1 True ss that sub [OF that(2)] by (auto simp: attach_symbol_free)
    then have "rlist ?f (extras target) = Inr (extras target)"
      by (intro rlist_self) (auto split: option.splits)
    with True ss show ?thesis by (auto simp: attach_symbol_free)
  next
    case False
    then show ?thesis by (cases c) auto
  qed
next
  case (2 es ps ss target)
  then have ss: "ss = []" by simp
  have sub: "symbol_free (prop_val p)" if "Some p \<in> set es" for p
    using "2.prems" that by (auto simp: list_all_iff)
  let ?f = "\<lambda>(e, f). case e of
            None \<Rightarrow> Inr f
          | Some p \<Rightarrow> (case f of
              None \<Rightarrow> Inr f
            | Some q \<Rightarrow>
                if is_data p
                then rbind (restoreActiveEntityKeyDescriptors (prop_val p) (prop_val q))
                       (\<lambda>v. Inr (Some (set_val q v)))
                else Inr f)"
  show ?case
  proof (cases "is_object target")
    case True
    have "restoreActiveEntityKeyDescriptors (prop_val p) (prop_val q) = Inr (prop_val q)"
      if "(Some p, Some q) \<in> set (zip es (slots target))" "is_data p" for q p
      using 2 True ss that sub [OF set_zip_leftD [OF that(1)]] by (auto simp: attach_symbol_free)
    then have "rlist ?f (zip es (slots target)) = Inr (map snd (zip es (slots target)))"
      by (intro rlist_map_Inr) (auto split: option.splits)
    moreover have "map snd (zip es (slots target)) @ drop (length es) (slots target) = slots target"
      by (cases "length es \<le> length (slots target)") (simp_all add: map_snd_zip_take min_def)
    ultimately show ?thesis using True ss by (simp add: attach_symbol_free)
  qed simp
qed simp_all

lemma clone_normal:
  "assertSafeDataKeys v = Inr () \<Longrightarrow> symbol_free v \<Longrightarrow> cloneSafeData v = Inr (normal_data v)"
  using clone_prune_normal [of v] normal_safe [of v]
  by (auto simp: cloneSafeData_def restore_symbol_free)

section \<open>Stored rows\<close>

text \<open>The shape of portable data after a clone: plain objects and dense arrays of writable, enumerable
  data properties over null, booleans, finite numbers and strings, without reserved names, undefined
  members or symbol-keyed properties.\<close>

definition plain_prop :: "jsprop \<Rightarrow> bool" where
  "plain_prop p = (is_data p \<and> enumerable p \<and> writable p)"

lemma plain_propD: "plain_prop p \<Longrightarrow> dataP (prop_val p) = p" "plain_prop p \<Longrightarrow> is_data p" "plain_prop p \<Longrightarrow> enumerable p"
  by (cases p, simp_all add: plain_prop_def dataP_def)

lemma plain_prop_dataP [simp]: "plain_prop (dataP v)"
  by (simp add: plain_prop_def)

fun row_value :: "jsval \<Rightarrow> bool" where
  "row_value (Obj c ps ss) = (c = CPlain \<and> ss = [] \<and>
     list_all (\<lambda>(k, p). plain_prop p \<and> \<not> reserved_name k \<and> prop_val p \<noteq> Undef \<and> row_value (prop_val p)) ps)"
| "row_value (Arr es ps ss) = (ps = [] \<and> ss = [] \<and>
     list_all (\<lambda>e. case e of None \<Rightarrow> False | Some p \<Rightarrow> plain_prop p \<and> prop_val p \<noteq> Undef \<and> row_value (prop_val p)) es)"
| "row_value Undef = False"
| "row_value Null = True"
| "row_value (Bool b) = True"
| "row_value (Num n) = is_finite n"
| "row_value (Str s) = True"
| "row_value (BigInt i) = False"
| "row_value (SymV n) = False"
| "row_value (Fn n) = False"

lemma row_object:
  assumes "row_value (Obj c ps ss)"
  shows "c = CPlain" "ss = []"
    "(k, p) \<in> set ps \<Longrightarrow> plain_prop p \<and> \<not> reserved_name k \<and> prop_val p \<noteq> Undef \<and> row_value (prop_val p)"
  using assms by (auto simp: list_all_iff)

lemma row_array:
  assumes "row_value (Arr es ps ss)"
  shows "ps = []" "ss = []"
    "e \<in> set es \<Longrightarrow> \<exists>p. e = Some p \<and> plain_prop p \<and> prop_val p \<noteq> Undef \<and> row_value (prop_val p)"
  using assms by (cases e; force simp: list_all_iff)+

lemma row_array_dense:
  assumes "row_value (Arr es ps ss)"
  shows "assertDenseOwnArray (Arr es ps ss) = Inr ()"
  unfolding row_array(1,2) [OF assms]
  using row_array(3) [OF assms] plain_propD by (intro dense_own_intro) fastforce+

lemma row_safe: "row_value v \<Longrightarrow> assertSafeDataKeys v = Inr () \<and> assertPortableStoredData v = Inr ()"
proof (induction v rule: row_value.induct)
  case (1 c ps ss)
  note r = row_object [OF "1.prems"]
  have "assertSafeDataKeys (prop_val p) = Inr () \<and> assertPortableStoredData (prop_val p) = Inr ()
      \<and> is_data p \<and> enumerable p \<and> \<not> reserved_name k" if "(k, p) \<in> set ps" for k p
    using "1.IH" [OF that refl] r(3) [OF that] plain_propD(2,3) by blast
  then have "reach (\<lambda>(key, p).
            if \<not> is_data p then Inl ActiveTsValidationError
            else if \<not> enumerable p then Inl ActiveTsValidationError
            else if reserved_name key then Inl ActiveTsValidationError
            else assertSafeDataKeys (prop_val p)) ps = Inr ()"
    and "reach (\<lambda>(key, p). assertPortableStoredData (prop_val p)) (filter (\<lambda>(key, p). enumerable p) ps) = Inr ()"
    by (force simp: reach_Inr_iff)+
  then show ?case unfolding r(1,2) by (simp add: check_data_symbols_def)
next
  case (2 es ps ss)
  note r = row_array [OF "2.prems"]
  note d = row_array_dense [OF "2.prems", unfolded r(1,2)]
  have "\<exists>p. e = Some p \<and> is_data p \<and> prop_val p \<noteq> Undef \<and> assertSafeDataKeys (prop_val p) = Inr ()
      \<and> assertPortableStoredData (prop_val p) = Inr ()" if "e \<in> set es" for e
    using r(3) [OF that] "2.IH" [OF that] plain_propD(2) by blast
  then have "reach (\<lambda>slot. case slot of
         None \<Rightarrow> Inl ActiveTsValidationError
       | Some p \<Rightarrow>
           if \<not> is_data p then Inl ActiveTsValidationError
           else if prop_val p = Undef then Inl ActiveTsValidationError
           else assertSafeDataKeys (prop_val p)) es = Inr ()"
    and "reach (\<lambda>slot. case slot of
             None \<Rightarrow> Inl ActiveTsValidationError
           | Some p \<Rightarrow>
               if \<not> is_data p then Inl ActiveTsValidationError
               else assertPortableStoredData (prop_val p)) es = Inr ()"
    by (fastforce simp: reach_Inr_iff)+
  with d show ?case unfolding r(1,2) by (simp add: check_data_symbols_def)
qed simp_all

lemma row_normal: "row_value v \<Longrightarrow> normal_data v = v \<and> symbol_free v"
proof (induction v rule: row_value.induct)
  case (1 c ps ss)
  note r = row_object [OF "1.prems"]
  have m: "normal_data (prop_val p) = prop_val p \<and> symbol_free (prop_val p) \<and> prop_val p \<noteq> Undef
      \<and> dataP (prop_val p) = p" if "(k, p) \<in> set ps" for k p
    using "1.IH" [OF that refl] r(3) [OF that] plain_propD(1) by blast
  then have "concat (map (\<lambda>(k, p). if prop_val p = Undef then [] else [(k, dataP (normal_data (prop_val p)))]) ps) = ps"
    by (induction ps) fastforce+
  with m show ?case unfolding r(1,2) by (auto simp: list_all_iff)
next
  case (2 es ps ss)
  note r = row_array [OF "2.prems"]
  have m: "\<exists>p. e = Some p \<and> normal_data (prop_val p) = prop_val p \<and> symbol_free (prop_val p)
      \<and> dataP (prop_val p) = p" if "e \<in> set es" for e
    using r(3) [OF that] "2.IH" [OF that] plain_propD(1) by blast
  then have "map (map_option (\<lambda>p. dataP (normal_data (prop_val p)))) es = es"
    by (intro map_idI) fastforce
  with m show ?case unfolding r(1,2) by (force simp: list_all_iff)
qed simp_all

lemma row_clone: "row_value v \<Longrightarrow> cloneSafeData v = Inr v"
  using row_safe row_normal clone_normal by metis

lemma row_clone_object:
  assumes "row_value v" and "is_plain_object v"
  shows "cloneSafeDataObject v = Inr v"
proof -
  from assms(2) have "is_object v \<and> \<not> is_array v" by (cases v) simp_all
  with assms row_safe [OF assms(1)] have "assertPlainDataObject v = Inr ()"
    unfolding assertPlainDataObject_def by simp
  with row_clone [OF assms(1)] show ?thesis by (simp add: cloneSafeDataObject_def)
qed

lemma portable_member:
  assumes "assertPortableStoredData (Obj CPlain ps ss) = Inr ()" and "(k, p) \<in> set ps" and "enumerable p"
  shows "assertPortableStoredData (prop_val p) = Inr ()"
proof -
  from assms(1) have "reach (\<lambda>(key, p). assertPortableStoredData (prop_val p)) (filter (\<lambda>(key, p). enumerable p) ps) = Inr ()"
    by (simp add: rbind_Inr_iff)
  from reach_keyD [OF this, of k p] assms(2,3) show ?thesis by simp
qed

lemma portable_slot:
  assumes "assertPortableStoredData (Arr es ps ss) = Inr ()" and "Some p \<in> set es"
  shows "assertPortableStoredData (prop_val p) = Inr ()"
proof -
  from assms(1) have "reach (\<lambda>slot. case slot of
             None \<Rightarrow> Inl ActiveTsValidationError
           | Some p \<Rightarrow>
               if \<not> is_data p then Inl ActiveTsValidationError
               else assertPortableStoredData (prop_val p)) es = Inr ()"
    by (simp add: rbind_Inr_iff)
  from reachD [OF this assms(2)] show ?thesis by (simp split: if_splits)
qed

lemma normal_row:
  "assertSafeDataKeys v = Inr () \<Longrightarrow> assertPortableStoredData (normal_data v) = Inr () \<Longrightarrow> v \<noteq> Undef \<Longrightarrow>
   row_value (normal_data v)"
proof (induction v rule: normal_data.induct)
  case (1 c ps ss)
  show ?case
  proof (cases "c = CPlain \<or> c = CNull")
    case True
    note mem = safe_plain_members [OF "1.prems"(1) True]
    have n: "normal_data (Obj c ps ss) = Obj CPlain (concat (map (\<lambda>(k, p).
               if prop_val p = Undef then [] else [(k, dataP (normal_data (prop_val p)))]) ps)) []"
      using True by auto
    have "row_value (normal_data (prop_val p))" if m: "(k, p) \<in> set ps" "prop_val p \<noteq> Undef" for k p
    proof -
      have "(k, dataP (normal_data (prop_val p))) \<in> set (concat (map (\<lambda>(k, p).
               if prop_val p = Undef then [] else [(k, dataP (normal_data (prop_val p)))]) ps))"
        using m by fastforce
      from portable_member [OF "1.prems"(2) [unfolded n] this]
      have "assertPortableStoredData (normal_data (prop_val p)) = Inr ()" by simp
      with "1.IH" m mem(4) [OF m(1)] True show ?thesis by (cases c) fastforce+
    qed
    with mem(3) show ?thesis unfolding n by (auto simp: list_all_iff split: if_splits)
  next
    case False
    with "1.prems" show ?thesis by (cases c) (auto simp: rbind_Inr_iff split: if_splits)
  qed
next
  case (2 es ps ss)
  note mem = safe_array_members [OF "2.prems"(1)]
  have "row_value (normal_data (prop_val p))" if p: "Some p \<in> set es" for p
  proof -
    have "Some (dataP (normal_data (prop_val p))) \<in> set (map (map_option (\<lambda>p. dataP (normal_data (prop_val p)))) es)"
      using p by force
    from portable_slot [OF "2.prems"(2) [unfolded normal_data.simps] this]
    have "assertPortableStoredData (normal_data (prop_val p)) = Inr ()" by simp
    with "2.IH" [OF p refl] mem [OF p] show ?thesis by auto
  qed
  with mem show ?case by (fastforce simp: list_all_iff split: option.splits)
qed (auto split: if_splits)

lemma stored_clone:
  assumes "clonePortableDataObject d = Inr c" and "symbol_free d"
  shows "row_value c \<and> is_plain_object c"
proof -
  from assms(1) have safe: "assertSafeDataKeys d = Inr ()" and plain: "is_plain_object d"
      and c: "clonePortableData d = Inr c"
    by (auto simp: clonePortableDataObject_def assertPlainDataObject_def rbind_Inr_iff split: if_splits)
  with clone_normal [OF safe assms(2)] have n: "c = normal_data d" "assertPortableStoredData c = Inr ()"
    by (auto simp: clonePortableData_def rbind_Inr_iff)
  from plain obtain cl ps ss where d: "d = Obj cl ps ss" "cl = CPlain \<or> cl = CNull" by (cases d) auto
  with normal_row [OF safe] n show ?thesis by auto
qed

section \<open>Properties\<close>

text \<open>C2. Whatever \<open>assertSafeDataKeys\<close> accepts holds, at any depth, no function, symbol, bigint or
  non-finite number, no accessor and no property with a reserved name: no chain of own properties of
  accepted data reaches \<open>__proto__\<close>, \<open>constructor\<close>, \<open>prototype\<close> or a name that starts with two
  underscores.\<close>

theorem safe_data_excludes:
  assumes "assertSafeDataKeys v = Inr ()" and "subvalue v w"
  shows "(\<forall>n. w \<noteq> Fn n \<and> w \<noteq> SymV n) \<and> (\<forall>i. w \<noteq> BigInt i) \<and> (\<forall>n. w = Num n \<longrightarrow> is_finite n)
       \<and> (\<forall>k p. own_prop w k = Some p \<longrightarrow> is_data p \<and> \<not> reserved_name k)"
proof -
  from assms(2,1) have w: "assertSafeDataKeys w = Inr ()" by (rule safe_subvalue)
  with safe_step [OF w] show ?thesis by (cases w) (auto split: if_splits)
qed

theorem safe_data_excludes_witness:
  "assertSafeDataKeys (js_object [(''a'', js_array [js_int 1])]) = Inr () \<and>
   subvalue (js_object [(''a'', js_array [js_int 1])]) (js_array [js_int 1]) \<and>
   js_array [js_int 1] \<noteq> Fn 0 \<and> js_array [js_int 1] \<noteq> BigInt 1"
proof -
  have a: "assertSafeDataKeys (js_object [(''a'', js_array [js_int 1])]) = Inr ()"
    by code_simp
  have s: "subvalue (js_object [(''a'', js_array [js_int 1])]) (js_array [js_int 1])"
    by (rule subvalue.below [where k = "''a''" and p = "dataP (js_array [js_int 1])"])
      (simp_all add: js_object_def subvalue.here)
  from safe_data_excludes [OF a s] a s show ?thesis by blast
qed

text \<open>C3. Cloning is normalisation: on all accepted data \<open>cloneSafeDataWithoutActiveEntityKey\<close> succeeds and returns
  the normal form (ordinary objects and arrays with writable data properties in the same order, undefined members and
  symbol metadata dropped); the normal form is accepted again, is its own normal form, and cloning it changes nothing.
  On accepted data without symbol metadata \<open>cloneSafeData\<close> returns the same normal form.\<close>

theorem clone_is_normal_form:
  assumes "assertSafeDataKeys v = Inr ()"
  shows "cloneSafeDataWithoutActiveEntityKey v = Inr (normal_data v) \<and> assertSafeDataKeys (normal_data v) = Inr ()
       \<and> normal_data (normal_data v) = normal_data v
       \<and> cloneSafeDataWithoutActiveEntityKey (normal_data v) = Inr (normal_data v)
       \<and> (symbol_free v \<longrightarrow> cloneSafeData v = Inr (normal_data v))"
  using clone_without_key [OF assms] normal_safe [OF assms] normal_idem [OF assms]
    clone_without_key [of "normal_data v"] clone_normal [OF assms] by simp

theorem clone_is_normal_form_witness:
  "cloneSafeDataWithoutActiveEntityKey (Obj CNull [(''a'', dataP Undef), (''b'', DataP (js_int 2) True False)]
       [(EntityKeySym, DataP (Str ''k'') False True)]) = Inr (js_object [(''b'', js_int 2)]) \<and>
   cloneSafeData (Obj CNull [(''a'', dataP Undef), (''b'', DataP (js_int 2) True False)] []) = Inr (js_object [(''b'', js_int 2)])"
proof -
  let ?v = "Obj CNull [(''a'', dataP Undef), (''b'', DataP (js_int 2) True False)] [(EntityKeySym, DataP (Str ''k'') False True)]"
    and ?w = "Obj CNull [(''a'', dataP Undef), (''b'', DataP (js_int 2) True False)] []"
  have a: "assertSafeDataKeys ?v = Inr ()" "assertSafeDataKeys ?w = Inr ()" "symbol_free ?w" by code_simp+
  have "normal_data ?v = js_object [(''b'', js_int 2)]" "normal_data ?w = js_object [(''b'', js_int 2)]"
    by (simp_all add: js_object_def js_int_def)
  then show ?thesis using clone_is_normal_form [OF a(1)] clone_is_normal_form [OF a(2)] a(3) by simp
qed

end
