(* ===== verification/EntityId.thy ===== *)
theory EntityId
  imports SafeData
begin

text \<open>
  Entity id keys: \<open>entityIdKey\<close>, \<open>entityIdFromKey\<close> and \<open>entityIdFromCanonicalKey\<close> of
  \<open>src/core/query-utils.ts\<close>. The stores, the batch loader and the caches index rows by this key, so
  what they rely on is stated as the locale \<open>id_codec\<close> and discharged for the code's functions.
  \<open>js_number\<close> is JavaScript's \<open>Number(string)\<close> with the value kept exact: the code only compares the
  result with canonical safe integers, where no rounding takes place.
\<close>

section \<open>\<open>Number\<close> of a string\<close>

definition js_space :: "char \<Rightarrow> bool" where
  "js_space c = ((of_char c :: nat) \<in> {9, 10, 11, 12, 13, 32, 160})"

definition js_trim :: "string \<Rightarrow> string" where
  "js_trim s = rev (dropWhile js_space (rev (dropWhile js_space s)))"

definition exponent_char :: "char \<Rightarrow> bool" where
  "exponent_char c = (c = CHR ''e'' \<or> c = CHR ''E'')"

definition signed_digits :: "string \<Rightarrow> int option" where
  "signed_digits s = (case s of
     [] \<Rightarrow> None
   | c # t \<Rightarrow>
       if c = CHR ''-'' \<and> t \<noteq> [] \<and> list_all is_digit t then Some (- int (read_nat t))
       else if c = CHR ''+'' \<and> t \<noteq> [] \<and> list_all is_digit t then Some (int (read_nat t))
       else if list_all is_digit s then Some (int (read_nat s))
       else None)"

definition mantissa :: "string \<Rightarrow> rat option" where
  "mantissa s = (let a = takeWhile (\<lambda>c. c \<noteq> CHR ''.'') s; b = drop (length a + 1) s in
     if a @ b \<noteq> [] \<and> list_all is_digit (a @ b)
     then Some (of_nat (read_nat (a @ b)) / 10 ^ length b) else None)"

definition unsigned_decimal :: "string \<Rightarrow> rat option" where
  "unsigned_decimal s = (let m = takeWhile (\<lambda>c. \<not> exponent_char c) s; e = drop (length m) s in
     case mantissa m of
       None \<Rightarrow> None
     | Some q \<Rightarrow> (case e of
         [] \<Rightarrow> Some q
       | _ # x \<Rightarrow> (case signed_digits x of
           None \<Rightarrow> None
         | Some k \<Rightarrow> Some (if k < 0 then q / 10 ^ nat (- k) else q * 10 ^ nat k))))"

definition hex_digit :: "char \<Rightarrow> nat option" where
  "hex_digit c = (let u = (of_char c :: nat) in
     if is_digit c then Some (u - 48)
     else if 65 \<le> u \<and> u \<le> 70 then Some (u - 55)
     else if 97 \<le> u \<and> u \<le> 102 then Some (u - 87)
     else None)"

fun radix_value :: "nat \<Rightarrow> nat \<Rightarrow> string \<Rightarrow> nat option" where
  "radix_value r acc [] = Some acc"
| "radix_value r acc (c # s) = (case hex_digit c of
     None \<Rightarrow> None
   | Some d \<Rightarrow> if d < r then radix_value r (r * acc + d) s else None)"

definition radix_prefix :: "string \<Rightarrow> nat option" where
  "radix_prefix s =
     (if take 2 s \<in> {''0x'', ''0X''} then Some 16
      else if take 2 s \<in> {''0o'', ''0O''} then Some 8
      else if take 2 s \<in> {''0b'', ''0B''} then Some 2
      else None)"

definition signed_number :: "bool \<Rightarrow> string \<Rightarrow> jsnum" where
  "signed_number neg s =
     (if s = ''Infinity'' then (if neg then NegInf else PosInf)
      else case unsigned_decimal s of
        None \<Rightarrow> NaN
      | Some q \<Rightarrow> if neg then (if q = 0 then NegZero else Fin (- q)) else Fin q)"

definition js_number :: "string \<Rightarrow> jsnum" where
  "js_number s = (let t = js_trim s in
     if t = [] then Fin 0
     else case radix_prefix t of
       Some r \<Rightarrow>
         if drop 2 t = [] then NaN
         else (case radix_value r 0 (drop 2 t) of None \<Rightarrow> NaN | Some n \<Rightarrow> Fin (of_nat n))
     | None \<Rightarrow>
         if hd t = CHR ''-'' then signed_number True (tl t)
         else if hd t = CHR ''+'' then signed_number False (tl t)
         else signed_number False t)"

definition plain_char :: "char \<Rightarrow> bool" where
  "plain_char c = (\<not> js_space c \<and> \<not> exponent_char c \<and> c \<noteq> CHR ''.'' \<and> c \<noteq> CHR ''x'' \<and> c \<noteq> CHR ''X''
     \<and> c \<noteq> CHR ''o'' \<and> c \<noteq> CHR ''O'' \<and> c \<noteq> CHR ''b'' \<and> c \<noteq> CHR ''B'' \<and> c \<noteq> CHR ''I'' \<and> c \<noteq> CHR ''+'')"

lemma digit_plain [simp]: "is_digit c \<Longrightarrow> plain_char c"
proof -
  assume d: "is_digit c"
  have "\<not> is_digit CHR ''e''" "\<not> is_digit CHR ''E''" "\<not> is_digit CHR ''.''" "\<not> is_digit CHR ''x''"
    "\<not> is_digit CHR ''X''" "\<not> is_digit CHR ''o''" "\<not> is_digit CHR ''O''" "\<not> is_digit CHR ''b''"
    "\<not> is_digit CHR ''B''" "\<not> is_digit CHR ''I''" "\<not> is_digit CHR ''+''"
    by code_simp+
  moreover from d have "\<not> js_space c" by (auto simp: is_digit_def js_space_def)
  ultimately show ?thesis using d by (auto simp: plain_char_def exponent_char_def)
qed

lemma minus_plain [simp]: "plain_char CHR ''-''"
  by code_simp

lemma js_trim_plain: "list_all plain_char s \<Longrightarrow> js_trim s = s"
proof -
  assume "list_all plain_char s"
  then have "\<forall>c \<in> set s. \<not> js_space c" by (auto simp: list_all_iff plain_char_def)
  then have "dropWhile js_space s = s" "dropWhile js_space (rev s) = rev s"
    by (metis dropWhile_eq_self_iff hd_in_set set_rev)+
  then show ?thesis by (simp add: js_trim_def)
qed

lemma radix_prefix_plain: "list_all plain_char s \<Longrightarrow> radix_prefix s = None"
  by (cases s rule: list.exhaust [case_names Nil Cons]; cases "tl s")
    (auto simp: radix_prefix_def plain_char_def)

lemma unsigned_digits: "s \<noteq> [] \<Longrightarrow> list_all is_digit s \<Longrightarrow> unsigned_decimal s = Some (of_nat (read_nat s))"
proof -
  assume s: "s \<noteq> []" "list_all is_digit s"
  then have p: "list_all plain_char s" by (auto simp: list_all_iff)
  have e: "takeWhile (\<lambda>c. \<not> exponent_char c) s = s"
    using p by (simp add: list_all_iff plain_char_def)
  have d: "takeWhile (\<lambda>c. c \<noteq> CHR ''.'') s = s"
    using p by (auto simp: list_all_iff plain_char_def)
  have "mantissa s = Some (of_nat (read_nat s))"
    unfolding mantissa_def Let_def d using s by simp
  then show ?thesis unfolding unsigned_decimal_def Let_def e by simp
qed

lemma signed_number_show:
  "signed_number neg (show_nat n) =
     (if neg then (if n = 0 then NegZero else Fin (- of_nat n)) else Fin (of_nat n))"
proof -
  have "show_nat n \<noteq> ''Infinity''"
  proof
    assume "show_nat n = ''Infinity''"
    with show_nat_digits [of n] have "is_digit CHR ''I''" by simp
    moreover have "\<not> is_digit CHR ''I''" by code_simp
    ultimately show False by simp
  qed
  then show ?thesis
    using unsigned_digits [OF show_nat_nonempty show_nat_digits, of n] by (simp add: signed_number_def)
qed

lemma js_number_show_int [simp]: "js_number (show_int i) = num_of_int i"
proof -
  have plain: "list_all plain_char (show_nat n)" for n
    using show_nat_digits [of n] by (auto simp: list_all_iff)
  have hd_digit: "is_digit (hd (show_nat n))" for n
    using show_nat_digits [of n] by (cases "show_nat n") auto
  have p: "list_all plain_char (show_int i)" using plain by (simp add: show_int_def)
  have ne: "show_int i \<noteq> []" by (simp add: show_int_def)
  show ?thesis
  proof (cases "i < 0")
    case True
    then show ?thesis using js_trim_plain [OF p] radix_prefix_plain [OF p]
      by (simp add: js_number_def show_int_def signed_number_show num_of_int_def of_nat_nat)
  next
    case False
    from hd_digit [of "nat i"] have "hd (show_nat (nat i)) \<noteq> CHR ''-''" "hd (show_nat (nat i)) \<noteq> CHR ''+''"
      by (auto dest: digit_plain simp: plain_char_def)
    then show ?thesis using False js_trim_plain [OF p] radix_prefix_plain [OF p] ne
      by (simp add: js_number_def show_int_def signed_number_show num_of_int_def of_nat_nat)
  qed
qed

section \<open>Keys\<close>

definition entityIdKey :: "jsval \<Rightarrow> string res" where
  "entityIdKey ident =
     rbind (assertSafeEntityId ident) (\<lambda>_. case ident of
         Str s \<Rightarrow>
           if isDatastoreInt64Id ident
           then rbind (datastoreInt64IdValue s) (\<lambda>d. Inr (''datastore-int64:'' @ d))
           else Inr (''string:'' @ s)
       | Num n \<Rightarrow> Inr (''number:'' @ show_int (int_of_num n))
       | _ \<Rightarrow> Inl ActiveTsValidationError)"

definition entityIdFromKey :: "string \<Rightarrow> jsval res" where
  "entityIdFromKey key =
     (if CHR '':'' \<notin> set key
      then rbind (assertSafeEntityId (Str key)) (\<lambda>_. Inr (Str key))
      else let kind = takeWhile (\<lambda>c. c \<noteq> CHR '':'') key; value = drop (length kind + 1) key in
        if kind = ''datastore-int64'' then
          rbind (datastoreInt64Id (Str value)) (\<lambda>ident.
          rbind (entityIdKey (Str ident)) (\<lambda>k.
            if k \<noteq> key then Inl ActiveTsValidationError else Inr (Str ident)))
        else if kind = ''number'' then
          let ident = Num (js_number value) in
          rbind (assertSafeEntityId ident) (\<lambda>_.
          rbind (entityIdKey ident) (\<lambda>k.
            if k \<noteq> key then Inl ActiveTsValidationError else Inr ident))
        else if kind = ''string'' then
          rbind (assertSafeEntityId (Str value)) (\<lambda>_. Inr (Str value))
        else rbind (assertSafeEntityId (Str key)) (\<lambda>_. Inr (Str key)))"

definition entityIdFromCanonicalKey :: "string \<Rightarrow> jsval res" where
  "entityIdFromCanonicalKey key =
     rbind (entityIdFromKey key) (\<lambda>ident.
     rbind (entityIdKey ident) (\<lambda>k.
       if k \<noteq> key then Inl ActiveTsValidationError else Inr ident))"

text \<open>The shape of an accepted id.\<close>

lemma int64_decimal:
  assumes "datastoreInt64Decimal s = Some d"
  shows "s = DATASTORE_INT64_ID_PREFIX @ d" "datastoreInt64Id (Str d) = Inr s"
proof -
  from assms have pre: "take (length DATASTORE_INT64_ID_PREFIX) s = DATASTORE_INT64_ID_PREFIX"
    and d: "d = drop (length DATASTORE_INT64_ID_PREFIX) s"
    by (auto simp: datastoreInt64Decimal_def Let_def starts_with_def split: if_splits)
  show sd: "s = DATASTORE_INT64_ID_PREFIX @ d"
    using append_take_drop_id [of "length DATASTORE_INT64_ID_PREFIX" s] unfolding pre d by simp
  from assms show "datastoreInt64Id (Str d) = Inr s"
    unfolding sd by (auto simp: datastoreInt64Decimal_def Let_def split: if_splits)
qed

lemma entity_id_cases:
  assumes "assertSafeEntityId v = Inr ()"
  obtains (int64) s d where "v = Str s" "datastoreInt64Decimal s = Some d"
    | (plain) s where "v = Str s" "datastoreInt64Decimal s = None"
    | (number) i where "v = js_int i" "\<bar>i\<bar> \<le> MAX_SAFE_INTEGER"
proof (cases v)
  case (Num n)
  with assms have "n \<noteq> NegZero" "is_safe_integer n" by (simp_all split: if_splits)
  then show ?thesis using number Num by (auto elim: safe_integer_cases simp: js_int_def)
next
  case (Str s)
  then show ?thesis using int64 plain by (cases "datastoreInt64Decimal s") auto
qed (use assms in simp_all)

lemma js_int_not_neg_zero [simp]: "num_of_int i \<noteq> NegZero"
  by (simp add: num_of_int_def)

lemma key_int64 [simp]:
  "datastoreInt64Decimal s = Some d \<Longrightarrow> entityIdKey (Str s) = Inr (''datastore-int64:'' @ d)"
  by (simp add: entityIdKey_def datastoreInt64IdValue_def)

lemma key_text:
  "assertSafeEntityId (Str s) = Inr () \<Longrightarrow> datastoreInt64Decimal s = None \<Longrightarrow>
   entityIdKey (Str s) = Inr (''string:'' @ s)"
  by (simp add: entityIdKey_def)

lemma key_number [simp]:
  "\<bar>i\<bar> \<le> MAX_SAFE_INTEGER \<Longrightarrow> entityIdKey (js_int i) = Inr (''number:'' @ show_int i)"
  by (simp add: entityIdKey_def js_int_def)

lemma entity_key_roundtrip:
  assumes "entityIdKey ident = Inr key"
  shows "entityIdFromKey key = Inr ident"
proof -
  from assms have safe: "assertSafeEntityId ident = Inr ()"
    by (auto simp: entityIdKey_def rbind_Inr_iff)
  then show ?thesis
  proof (cases rule: entity_id_cases)
    case (int64 s d)
    with assms have "key = ''datastore-int64:'' @ d" by simp
    then show ?thesis using int64 int64_decimal [OF int64(2)]
      by (simp add: entityIdFromKey_def del: datastoreInt64Id.simps)
  next
    case (plain s)
    with assms safe have "key = ''string:'' @ s" by (simp add: key_text del: assertSafeEntityId.simps)
    with plain safe show ?thesis by (simp add: entityIdFromKey_def del: assertSafeEntityId.simps)
  next
    case (number i)
    with assms have keyeq: "key = ''number:'' @ show_int i" by simp
    have key: "entityIdFromKey (''number:'' @ show_int i) =
        rbind (assertSafeEntityId (js_int i)) (\<lambda>_. rbind (entityIdKey (js_int i)) (\<lambda>k.
          if k \<noteq> ''number:'' @ show_int i then Inl ActiveTsValidationError else Inr (js_int i)))"
    proof -
      have kind: "takeWhile (\<lambda>c. c \<noteq> CHR '':'') (''number:'' @ show_int i) = ''number''" by simp
      have val: "drop (length ''number'' + 1) (''number:'' @ show_int i) = show_int i" by simp
      show ?thesis unfolding entityIdFromKey_def js_int_def Let_def kind val js_number_show_int by simp
    qed
    show ?thesis unfolding keyeq key using number safe by (simp del: assertSafeEntityId.simps)
  qed
qed

lemma canonical_key_inverse:
  "entityIdFromCanonicalKey key = Inr ident \<Longrightarrow> entityIdKey ident = Inr key"
  by (auto simp: entityIdFromCanonicalKey_def rbind_Inr_iff split: if_splits)

lemma canonical_key_roundtrip:
  "entityIdKey ident = Inr key \<Longrightarrow> entityIdFromCanonicalKey key = Inr ident"
  by (simp add: entityIdFromCanonicalKey_def entity_key_roundtrip)

section \<open>The contract of the clients\<close>

text \<open>What an index by id key relies on: the key determines the id.\<close>

locale id_codec =
  fixes encode :: "'i \<Rightarrow> 'e + 'k" and decode :: "'k \<Rightarrow> 'e + 'i"
  assumes decode_encode: "encode i = Inr k \<Longrightarrow> decode k = Inr i"
    and encode_decode: "decode k = Inr i \<Longrightarrow> encode i = Inr k"
begin

lemma encode_inject: "encode i = Inr k \<Longrightarrow> encode j = Inr k \<Longrightarrow> i = j"
  by (metis decode_encode sum.inject(2))

lemma encode_iff_decode: "encode i = Inr k \<longleftrightarrow> decode k = Inr i"
  using decode_encode encode_decode by blast

lemma encode_list_inject:
  "list_all2 (\<lambda>i k. encode i = Inr k) xs ks \<Longrightarrow> list_all2 (\<lambda>i k. encode i = Inr k) ys ks \<Longrightarrow> xs = ys"
  by (intro nth_equalityI) (auto simp: list_all2_conv_all_nth intro: encode_inject)

lemma encode_list_distinct:
  assumes "list_all2 (\<lambda>i k. encode i = Inr k) xs ks"
  shows "distinct ks \<longleftrightarrow> distinct xs"
proof -
  have l: "length xs = length ks" and e: "encode (xs ! i) = Inr (ks ! i)" if "i < length ks" for i
    using assms that by (simp_all add: list_all2_conv_all_nth)
  have "ks ! i = ks ! j \<longleftrightarrow> xs ! i = xs ! j" if "i < length ks" "j < length ks" for i j
    using e [OF that(1)] e [OF that(2)] by (metis encode_inject sum.inject(2))
  moreover have "length xs = length ks" using assms by (rule list_all2_lengthD)
  ultimately show ?thesis by (auto simp: distinct_conv_nth)
qed

end

interpretation entity: id_codec entityIdKey entityIdFromCanonicalKey
  by unfold_locales (fact canonical_key_roundtrip, fact canonical_key_inverse)

section \<open>Properties\<close>

text \<open>C4. Entity id keys round-trip: whatever key an accepted id (string, safe integer, or signed
  64-bit Datastore id) is given, both decoders return that id.\<close>

theorem entity_id_key_roundtrip:
  assumes "entityIdKey ident = Inr key"
  shows "entityIdFromKey key = Inr ident \<and> entityIdFromCanonicalKey key = Inr ident"
  by (intro conjI, rule entity_key_roundtrip [OF assms], rule entity.decode_encode [OF assms])

theorem entity_id_key_roundtrip_witness:
  "entityIdKey (js_int (-7)) = Inr ''number:-7'' \<and> entityIdFromKey ''number:-7'' = Inr (js_int (-7))"
proof -
  have k: "entityIdKey (js_int (-7)) = Inr ''number:-7''" by code_simp
  with entity_id_key_roundtrip [OF k] show ?thesis by simp
qed

text \<open>C5. The key determines the id: ids that share a key are the same id, so the string \<open>"1"\<close>, the
  number \<open>1\<close> and a 64-bit id never meet in a map indexed by key.\<close>

theorem entity_id_key_injective:
  assumes "entityIdKey a = Inr key" and "entityIdKey b = Inr key"
  shows "a = b"
  using assms by (rule entity.encode_inject)

theorem entity_id_key_injective_witness:
  "entityIdKey (js_int 1) = Inr ''number:1'' \<and> entityIdKey (js_int 2) = Inr ''number:2'' \<and>
   entityIdKey (js_int 2) \<noteq> entityIdKey (js_int 1) \<and> js_int 1 = js_int 1"
proof -
  have k: "entityIdKey (js_int 1) = Inr ''number:1''" by code_simp
  have l: "entityIdKey (js_int 2) = Inr ''number:2''" by code_simp
  from k l entity_id_key_injective [OF k k] show ?thesis by simp
qed

end
