(* ===== verification/IsoDate.thy ===== *)
theory IsoDate
  imports EntityId
begin

text \<open>
  \<open>src/core/date-intrinsics.ts\<close>: time values in milliseconds since 1970-01-01 (the internal slot of a
  \<open>Date\<close>, \<open>None\<close> for an invalid date) and their ISO text. The civil date is computed as ECMAScript
  defines it: the year is the last one that starts no later than the day, the month the last one that
  starts no later than the day of the year. Day 0 below is 0000-01-01.
\<close>

definition MS_PER_DAY :: int where "MS_PER_DAY = 86400000"
definition EPOCH_DAYS :: int where "EPOCH_DAYS = 719528"

fun dateTime :: "jsval \<Rightarrow> int option" where
  "dateTime (Obj (CDate t) _ _) = t"
| "dateTime _ = None"

text \<open>Four-digit UTC years: the range in which ISO text is ordered as time is.\<close>

definition portable_time :: "int \<Rightarrow> bool" where
  "portable_time t = (- 62167219200000 \<le> t \<and> t < 253402300800000)"

definition isPortableDate :: "jsval \<Rightarrow> bool" where
  "isPortableDate v = (case dateTime v of None \<Rightarrow> False | Some t \<Rightarrow> portable_time t)"

definition days_before_year :: "int \<Rightarrow> int" where
  "days_before_year y = 365 * y + (y + 3) div 4 - (y + 99) div 100 + (y + 399) div 400"

definition leap :: "int \<Rightarrow> bool" where
  "leap y = (y mod 4 = 0 \<and> (y mod 100 \<noteq> 0 \<or> y mod 400 = 0))"

lemma div_step:
  fixes y n :: int
  assumes "0 < n"
  shows "(y + n) div n = (y + n - 1) div n + (if y mod n = 0 then 1 else 0)"
proof -
  define q r where "q = y div n" and "r = y mod n"
  have y: "y = r + q * n" and r: "0 \<le> r" "r < n" using assms by (simp_all add: q_def r_def)
  have "(y + n) div n = q + 1" using assms by (simp add: q_def)
  moreover have "(y + n - 1) div n = (if r = 0 then q else q + 1)"
  proof (cases "r = 0")
    case True
    have "(y + n - 1) div n = (n - 1 + q * n) div n" by (simp add: y True algebra_simps)
    also have "\<dots> = q" using assms by (simp add: div_pos_pos_trivial)
    finally show ?thesis using True by simp
  next
    case False
    have "(y + n - 1) div n = (r - 1 + (q + 1) * n) div n" by (simp add: y algebra_simps)
    also have "\<dots> = (r - 1) div n + (q + 1)" using assms by (simp add: div_mult_self1)
    also have "\<dots> = q + 1" using False r by (simp add: div_pos_pos_trivial)
    finally show ?thesis using False by simp
  qed
  ultimately show ?thesis by (simp add: r_def)
qed

lemma num_dvd_400: "(100::int) dvd 400"
  by simp

lemma num_dvd_100: "(4::int) dvd 100"
  by simp

lemma leap_sum:
  fixes Y A B C :: int
  assumes "r \<Longrightarrow> q" and "q \<Longrightarrow> p"
  shows "Y + 365 + (A + (if p then 1 else 0)) - (B + (if q then 1 else 0)) + (C + (if r then 1 else 0))
       = Y + A - B + C + (if p \<and> (\<not> q \<or> r) then 366 else 365)"
  using assms by (cases p; cases q; cases r; simp)

lemma days_before_year_step: "days_before_year (y + 1) = days_before_year y + (if leap y then 366 else 365)"
proof -
  have e: "days_before_year (y + 1) = 365 * y + 365 + (y + 4) div 4 - (y + 100) div 100 + (y + 400) div 400"
    unfolding days_before_year_def by (simp add: add.assoc)
  have a: "(y + 4) div 4 = (y + 3) div 4 + (if y mod 4 = 0 then 1 else 0)"
    using div_step [of 4 y] by simp
  have b: "(y + 100) div 100 = (y + 99) div 100 + (if y mod 100 = 0 then 1 else 0)"
    using div_step [of 100 y] by simp
  have c: "(y + 400) div 400 = (y + 399) div 400 + (if y mod 400 = 0 then 1 else 0)"
    using div_step [of 400 y] by simp
  have m: "y mod 400 = 0 \<Longrightarrow> y mod 100 = 0" "y mod 100 = 0 \<Longrightarrow> y mod 4 = 0"
    using dvd_trans [OF num_dvd_400, of y] dvd_trans [OF num_dvd_100, of y]
    by (simp_all only: mod_eq_0_iff_dvd)
  show ?thesis unfolding e a b c unfolding days_before_year_def leap_def
    by (rule leap_sum [OF m])
qed

lemma days_before_year_less: "days_before_year y < days_before_year (y + 1)"
  by (simp add: days_before_year_step)

function year_from :: "int \<Rightarrow> int \<Rightarrow> int" where
  "year_from d y = (if days_before_year (y + 1) \<le> d then year_from d (y + 1) else y)"
  by pat_completeness auto
termination
proof (relation "measure (\<lambda>(d, y). nat (d + 1 - days_before_year y))")
  fix d y :: int
  assume "days_before_year (y + 1) \<le> d"
  with days_before_year_less [of y]
  show "((d, y + 1), (d, y)) \<in> measure (\<lambda>(d, y). nat (d + 1 - days_before_year y))"
    by (simp only: in_measure split_conv)
qed simp

declare year_from.simps [simp del]

text \<open>The search starts at a year that is certainly not too late.\<close>

definition year_of_day :: "int \<Rightarrow> int" where
  "year_of_day d = year_from d (if 0 \<le> d then d div 366 else d div 365 - 2)"

definition month_starts :: "bool \<Rightarrow> int list" where
  "month_starts l = (if l then [0, 31, 60, 91, 121, 152, 182, 213, 244, 274, 305, 335]
                     else [0, 31, 59, 90, 120, 151, 181, 212, 243, 273, 304, 334])"

definition month_of :: "bool \<Rightarrow> int \<Rightarrow> nat" where
  "month_of l n = length (filter (\<lambda>s. s \<le> n) (month_starts l))"

definition pad :: "nat \<Rightarrow> nat \<Rightarrow> string" where
  "pad w n = (let s = show_nat n in replicate (w - length s) CHR ''0'' @ s)"

definition iso_year :: "int \<Rightarrow> string" where
  "iso_year y = (if 0 \<le> y \<and> y \<le> 9999 then pad 4 (nat y)
     else if y < 0 then ''-'' @ pad 6 (nat (- y)) else ''+'' @ pad 6 (nat y))"

definition dateIsoString :: "int \<Rightarrow> string" where
  "dateIsoString t =
     (let d = t div MS_PER_DAY + EPOCH_DAYS; ms = t mod MS_PER_DAY;
          y = year_of_day d; n = d - days_before_year y; l = leap y; m = month_of l n;
          dom = nat (n - month_starts l ! (m - 1)) + 1
      in iso_year y @ ''-'' @ pad 2 m @ ''-'' @ pad 2 dom @ ''T''
         @ pad 2 (nat (ms div 3600000)) @ '':'' @ pad 2 (nat (ms div 60000 mod 60)) @ '':''
         @ pad 2 (nat (ms div 1000 mod 60)) @ ''.'' @ pad 3 (nat (ms mod 1000)) @ ''Z'')"

end
