(* ===== verification/QueryFilter.thy ===== *)
theory QueryFilter
  imports IsoDate
begin

text \<open>
  \<open>src/core/query-utils.ts\<close>: reading and writing field paths, the portable filter of rows, and the
  normalisation of where shapes. A filter plan arrives as an untrusted value; \<open>snapshotFilterPlan\<close>
  turns it into a \<open>plan\<close> or rejects it, \<open>matchesPlan\<close> evaluates the plan on a row and \<open>filterRows\<close>
  composes the two. Operands are fresh clones, so an object operand is never identical to a row value.
\<close>

section \<open>Field paths\<close>

definition ownFieldValue :: "jsval \<Rightarrow> string \<Rightarrow> jsval res" where
  "ownFieldValue record key = (case own_prop record key of
     None \<Rightarrow> Inl ActiveTsValidationError
   | Some p \<Rightarrow>
       if \<not> is_data p then Inl ActiveTsValidationError
       else if \<not> enumerable p then Inl ActiveTsValidationError
       else Inr (prop_val p))"

fun value_at :: "jsval \<Rightarrow> string list \<Rightarrow> jsval res" where
  "value_at current [] = Inr current"
| "value_at current (key # keys) =
     (if \<not> is_object current \<or> \<not> has_own current key then Inr Undef
      else rbind (ownFieldValue current key) (\<lambda>next. value_at next keys))"

definition valueFor :: "jsval \<Rightarrow> string \<Rightarrow> jsval res" where
  "valueFor data field =
     rbind (assertSafeFieldPath (Str field)) (\<lambda>_. value_at data (split_on CHR ''.'' field))"

definition put_own :: "string \<Rightarrow> jsprop \<Rightarrow> jsval \<Rightarrow> jsval" where
  "put_own k p v = with_extras v (put_prop k p (extras v))"

fun set_at :: "jsval \<Rightarrow> string list \<Rightarrow> jsval \<Rightarrow> jsval res" where
  "set_at current [] value = Inr current"
| "set_at current [leaf] value = (case own_prop current leaf of
     Some p \<Rightarrow>
       if \<not> is_data p then Inl ActiveTsValidationError
       else if \<not> enumerable p then Inl ActiveTsValidationError
       else if \<not> writable p then Inl ActiveTsValidationError
       else Inr (put_own leaf (set_val p value) current)
   | None \<Rightarrow> Inr (put_own leaf (dataP value) current))"
| "set_at current (part # p2 # parts) value = (case own_prop current part of
     Some p \<Rightarrow>
       if \<not> is_data p then Inl ActiveTsValidationError
       else if \<not> enumerable p then Inl ActiveTsValidationError
       else if prop_val p = Undef \<or> prop_val p = Null then
         rbind (set_at (Obj CPlain [] []) (p2 # parts) value)
           (\<lambda>v. Inr (put_own part (dataP v) current))
       else if \<not> is_plain_object (prop_val p) then Inl ActiveTsValidationError
       else rbind (set_at (prop_val p) (p2 # parts) value)
           (\<lambda>v. Inr (put_own part (set_val p v) current))
   | None \<Rightarrow> rbind (set_at (Obj CPlain [] []) (p2 # parts) value)
       (\<lambda>v. Inr (put_own part (dataP v) current)))"

definition setPath :: "jsval \<Rightarrow> string \<Rightarrow> jsval \<Rightarrow> jsval res" where
  "setPath target field value =
     rbind (assertSafeFieldPath (Str field)) (\<lambda>f. set_at target (split_on CHR ''.'' f) value)"

definition first_occurrences :: "string list \<Rightarrow> string list" where
  "first_occurrences fs = fold (\<lambda>f unique. if f \<in> set unique then unique else unique @ [f]) fs []"

definition withIdField :: "string list option \<Rightarrow> string \<Rightarrow> string list option" where
  "withIdField fields idField = (case fields of
     None \<Rightarrow> None
   | Some [] \<Rightarrow> Some [idField]
   | Some fs \<Rightarrow> Some (first_occurrences (idField # fs)))"

fun set_fields :: "jsval \<Rightarrow> jsval \<Rightarrow> string list \<Rightarrow> jsval res" where
  "set_fields data picked [] = Inr picked"
| "set_fields data picked (f # fs) =
     rbind (valueFor data f) (\<lambda>value.
     rbind (if value \<noteq> Undef then setPath picked f value else Inr picked) (\<lambda>picked'.
     set_fields data picked' fs))"

definition pickFields :: "jsval \<Rightarrow> string list \<Rightarrow> string \<Rightarrow> jsval res" where
  "pickFields data fields idField =
     rbind (valueFor data idField) (\<lambda>ident.
     rbind (setPath (Obj CPlain [] []) idField ident) (\<lambda>picked.
     set_fields data picked (case withIdField (Some fields) idField of None \<Rightarrow> [] | Some fs \<Rightarrow> fs)))"

definition limitWithLookahead :: "jsval \<Rightarrow> jsnum option res" where
  "limitWithLookahead limit =
     (if limit = Undef then Inr None
      else rbind (assertSafeLimit limit) (\<lambda>safe. case safe of
          None \<Rightarrow> Inr None
        | Some n \<Rightarrow> Inr (Some (if num_value n < of_int MAX_SAFE_INTEGER
                               then Fin (num_value n + 1) else n))))"

definition trimLookaheadRows :: "'a list \<Rightarrow> jsval \<Rightarrow> ('a list \<times> bool) res" where
  "trimLookaheadRows rows limit =
     (if limit = Undef then Inr (rows, False)
      else rbind (assertSafeLimit limit) (\<lambda>safe. case safe of
          None \<Rightarrow> Inr (rows, False)
        | Some n \<Rightarrow>
            if int (length rows) > int_of_num n
            then Inr (take (nat (int_of_num n)) rows, True) else Inr (rows, False)))"

definition assertNoOverlappingFieldPaths :: "jsval list \<Rightarrow> string list res" where
  "assertNoOverlappingFieldPaths fields =
     rbind (rlist assertSafeFieldPath fields) (\<lambda>safe.
     let unique = first_occurrences safe in
     if \<exists>parent \<in> set unique. \<exists>child \<in> set unique.
          parent \<noteq> child \<and> starts_with child (parent @ ''.'')
     then Inl ActiveTsValidationError else Inr unique)"

section \<open>Operands\<close>

definition QUERY_OPERATORS :: "string list" where
  "QUERY_OPERATORS = [''='', ''!='', ''>'', ''>='', ''<'', ''<='', ''in'', ''between'', ''isNull'',
     ''isNotNull'', ''contains'', ''arrayContains'', ''textContains'', ''jsonContains'', ''startsWith'']"

definition isOperator :: "string \<Rightarrow> bool" where
  "isOperator v = (v \<in> set QUERY_OPERATORS)"

definition assertPlainDateOperand :: "jsval \<Rightarrow> unit res" where
  "assertPlainDateOperand value =
     (if dateTime value = None then Inl ActiveTsValidationError
      else if \<not> isPortableDate value then Inl ActiveTsValidationError
      else if own_symbols value \<noteq> [] then Inl ActiveTsValidationError
      else if own_names value \<noteq> [] then Inl ActiveTsValidationError
      else Inr ())"

definition unsafe_number :: "jsnum \<Rightarrow> bool" where
  "unsafe_number n = (\<not> is_finite n \<or> \<bar>num_value n\<bar> > of_int MAX_SAFE_INTEGER)"

definition assertRangeOperand :: "jsval \<Rightarrow> unit res" where
  "assertRangeOperand value = (case value of
     Str _ \<Rightarrow> Inr ()
   | Num n \<Rightarrow> if unsafe_number n then Inl ActiveTsValidationError else Inr ()
   | _ \<Rightarrow> if is_date value then assertPlainDateOperand value else Inl ActiveTsValidationError)"

definition assertPortableScalar :: "jsval \<Rightarrow> unit res" where
  "assertPortableScalar value = (case value of
     Null \<Rightarrow> Inr ()
   | Str _ \<Rightarrow> Inr ()
   | Bool _ \<Rightarrow> Inr ()
   | Num n \<Rightarrow> if unsafe_number n then Inl ActiveTsValidationError else Inr ()
   | _ \<Rightarrow> if is_date value then assertPlainDateOperand value else Inl ActiveTsValidationError)"

definition comparableKind :: "jsval \<Rightarrow> string" where
  "comparableKind value = (if is_date value then ''date'' else js_typeof value)"

fun assertNoUndefinedJsonOperand :: "jsval \<Rightarrow> unit res" where
  "assertNoUndefinedJsonOperand Undef = Inl ActiveTsValidationError"
| "assertNoUndefinedJsonOperand (Obj c ps ss) =
     (case c of
        CDate _ \<Rightarrow> Inl ActiveTsValidationError
      | CBytes _ \<Rightarrow> Inl ActiveTsValidationError
      | _ \<Rightarrow> reach (\<lambda>(key, p).
            if \<not> is_data p then Inl ActiveTsValidationError
            else assertNoUndefinedJsonOperand (prop_val p)) (filter (\<lambda>(key, p). enumerable p) ps))"
| "assertNoUndefinedJsonOperand (Arr es ps ss) =
     reach (\<lambda>slot. case slot of
         None \<Rightarrow> Inl ActiveTsValidationError
       | Some p \<Rightarrow>
           if \<not> is_data p then Inl ActiveTsValidationError
           else assertNoUndefinedJsonOperand (prop_val p)) es"
| "assertNoUndefinedJsonOperand v = Inr ()"

text \<open>\<open>assertDenseArray\<close> of an operand; the loops are those of \<open>assertDenseOwnArray\<close>.\<close>

definition assertDenseArray :: "jsval \<Rightarrow> unit res" where
  "assertDenseArray array =
     (if own_symbols array \<noteq> [] then Inl ActiveTsValidationError
      else rbind (reach (dense_own_name array) (own_names array)) (\<lambda>_.
        reach (\<lambda>slot. if slot = None then Inl ActiveTsValidationError else Inr ()) (slots array)))"

definition ownArrayValue :: "jsval \<Rightarrow> nat \<Rightarrow> jsval res" where
  "ownArrayValue array index =
     (if \<not> index < length (slots array) \<or> slots array ! index = None then Inr Undef
      else let p = the (slots array ! index) in
        if \<not> is_data p then Inl ActiveTsValidationError
        else if \<not> enumerable p then Inl ActiveTsValidationError
        else Inr (prop_val p))"

definition assertValidWhereOperand :: "jsval \<Rightarrow> jsval \<Rightarrow> jsval \<Rightarrow> unit res" where
  "assertValidWhereOperand opv value value2 = (case opv of
     Str opn \<Rightarrow>
       if opn = ''contains'' then Inl ActiveTsConfigurationError
       else if \<not> isOperator opn then Inl ActiveTsValidationError
       else if opn = ''in'' then
         (if \<not> is_array value then Inl ActiveTsValidationError
          else if own_symbols value \<noteq> [] then Inl ActiveTsValidationError
          else rbind (assertDenseArray value) (\<lambda>_.
            if slots value = [] then Inl ActiveTsValidationError
            else if length (slots value) > 30 then Inl ActiveTsValidationError
            else reach (\<lambda>index. rbind (ownArrayValue value index) assertPortableScalar)
                   [0..<length (slots value)]))
       else if opn \<in> {''='', ''!='', ''arrayContains''} then assertPortableScalar value
       else if opn = ''between'' then
         (if value = Undef \<or> value2 = Undef then Inl ActiveTsValidationError
          else rbind (assertRangeOperand value) (\<lambda>_. rbind (assertRangeOperand value2) (\<lambda>_.
            if comparableKind value \<noteq> comparableKind value2 then Inl ActiveTsValidationError
            else Inr ())))
       else if opn \<in> {''>'', ''>='', ''<'', ''<=''} then
         (if value = Undef then Inl ActiveTsValidationError else assertRangeOperand value)
       else if opn \<in> {''isNull'', ''isNotNull''} then
         (if value \<noteq> Undef then Inl ActiveTsValidationError else Inr ())
       else if opn \<in> {''textContains'', ''startsWith''} then
         (if js_typeof value \<noteq> ''string'' then Inl ActiveTsValidationError else Inr ())
       else rbind (assertSafeDataKeys value) (\<lambda>_. assertNoUndefinedJsonOperand value)
   | _ \<Rightarrow> Inl ActiveTsValidationError)"

definition assertWhereArrayArity :: "nat \<Rightarrow> string \<Rightarrow> unit res" where
  "assertWhereArrayArity len opn =
     (if len > (if opn = ''between'' then 3 else if opn = ''isNull'' \<or> opn = ''isNotNull'' then 1 else 2)
      then Inl ActiveTsValidationError else Inr ())"

section \<open>Comparing a row with an operand\<close>

record where_entry =
  w_field :: string
  w_op :: string
  w_value :: jsval
  w_value2 :: jsval

datatype comparable_key = KeyText string | KeyNumber rat

definition rangeComparable :: "jsval \<Rightarrow> jsval \<Rightarrow> comparable_key option" where
  "rangeComparable value expected =
     (if is_date expected then
        (if is_date value then map_option (\<lambda>t. KeyText (dateIsoString t)) (dateTime value) else None)
      else case expected of
        Num _ \<Rightarrow> (case value of
            Num n \<Rightarrow> if is_finite n then Some (KeyNumber (num_value n)) else None
          | _ \<Rightarrow> None)
      | Str _ \<Rightarrow> (case value of Str s \<Rightarrow> Some (KeyText s) | _ \<Rightarrow> None)
      | _ \<Rightarrow> None)"

text \<open>\<open>None\<close> is the NaN with which every comparison is false.\<close>

definition compareRangeValues :: "jsval \<Rightarrow> jsval \<Rightarrow> int option" where
  "compareRangeValues value expected =
     (case (rangeComparable value expected, rangeComparable expected expected) of
        (Some (KeyText a), Some (KeyText b)) \<Rightarrow> Some (if a = b then 0 else if b < a then 1 else -1)
      | (Some (KeyNumber a), Some (KeyNumber b)) \<Rightarrow> Some (if a = b then 0 else if b < a then 1 else -1)
      | _ \<Rightarrow> None)"

definition holds_cmp :: "(int \<Rightarrow> bool) \<Rightarrow> int option \<Rightarrow> bool" where
  "holds_cmp P c = (case c of None \<Rightarrow> False | Some i \<Rightarrow> P i)"

definition safeArrayValues :: "jsval \<Rightarrow> jsval list res" where
  "safeArrayValues array =
     (if own_symbols array \<noteq> [] then Inl ActiveTsValidationError
      else rbind (reach (dense_own_name array) (own_names array)) (\<lambda>_.
        rlist (\<lambda>slot. case slot of
            None \<Rightarrow> Inl ActiveTsValidationError
          | Some p \<Rightarrow>
              if \<not> is_data p then Inl ActiveTsValidationError
              else if \<not> enumerable p then Inl ActiveTsValidationError
              else Inr (prop_val p)) (slots array)))"

definition textContainsValue :: "jsval \<Rightarrow> string \<Rightarrow> bool res" where
  "textContainsValue value expected = (let query = to_lower expected in
     case value of
       Str s \<Rightarrow> Inr (str_includes (to_lower s) query)
     | Arr _ _ _ \<Rightarrow> rbind (safeArrayValues value) (\<lambda>items.
         Inr (\<exists>item \<in> set items. case item of
                Str s \<Rightarrow> str_includes (to_lower s) query | _ \<Rightarrow> False))
     | _ \<Rightarrow> Inr False)"

definition arrayIncludesValue :: "jsval \<Rightarrow> jsval \<Rightarrow> bool res" where
  "arrayIncludesValue array expected =
     (if \<not> is_array array then Inr False
      else rbind (safeArrayValues array) (\<lambda>items.
        Inr (\<exists>item \<in> set items. object_is item expected \<or> strict_eq item expected)))"

text \<open>Loops that stop at the first success, or at the first failure.\<close>

fun rany :: "('a \<Rightarrow> bool res) \<Rightarrow> 'a list \<Rightarrow> bool res" where
  "rany f [] = Inr False"
| "rany f (x # xs) = rbind (f x) (\<lambda>b. if b then Inr True else rany f xs)"

fun rall :: "('a \<Rightarrow> bool res) \<Rightarrow> 'a list \<Rightarrow> bool res" where
  "rall f [] = Inr True"
| "rall f (x # xs) = rbind (f x) (\<lambda>b. if b then rall f xs else Inr False)"

lemma rany_cong [fundef_cong]:
  assumes "xs = ys" and "\<And>x. x \<in> set ys \<Longrightarrow> f x = g x"
  shows "rany f xs = rany g ys"
proof -
  have "rany f ys = rany g ys" using assms(2) by (induction ys) (auto cong: if_cong)
  with assms(1) show ?thesis by simp
qed

lemma rall_cong [fundef_cong]:
  assumes "xs = ys" and "\<And>x. x \<in> set ys \<Longrightarrow> f x = g x"
  shows "rall f xs = rall g ys"
proof -
  have "rall f ys = rall g ys" using assms(2) by (induction ys) (auto cong: if_cong)
  with assms(1) show ?thesis by simp
qed

lemma rany_total: "(\<And>x. x \<in> set xs \<Longrightarrow> f x = Inr (P x)) \<Longrightarrow> rany f xs = Inr (\<exists>x \<in> set xs. P x)"
  by (induction xs) auto

lemma rall_total: "(\<And>x. x \<in> set xs \<Longrightarrow> f x = Inr (P x)) \<Longrightarrow> rall f xs = Inr (\<forall>x \<in> set xs. P x)"
  by (induction xs) auto

lemma own_prop_size: "own_prop v k = Some p \<Longrightarrow> size (prop_val p) < size v"
proof (cases v)
  case (Obj c ps ss)
  assume k: "own_prop v k = Some p"
  show ?thesis
  proof (cases "map_of ps k = Some p")
    case True
    from size_member [OF map_of_SomeD [OF True]] Obj show ?thesis by simp
  next
    case False
    with k Obj show ?thesis by (cases c) (auto split: if_splits)
  qed
next
  case (Arr es ps ss)
  assume k: "own_prop v k = Some p"
  consider "map_of ps k = Some p" | "Some p \<in> set es" | "size (prop_val p) = 0"
    using k Arr by (auto split: if_splits) (metis nth_mem)
  then show ?thesis
  proof cases
    case 1
    from size_member [OF map_of_SomeD [OF 1]] Arr show ?thesis by simp
  next
    case 2
    from size_slot [OF 2] Arr show ?thesis by simp
  qed (use Arr in simp)
qed simp_all

lemma safeArrayValues_slots:
  assumes "safeArrayValues v = Inr items" and "x \<in> set items"
  shows "\<exists>p. Some p \<in> set (slots v) \<and> x = prop_val p"
proof -
  from assms(1) have "list_all2 (\<lambda>slot y. (case slot of
            None \<Rightarrow> Inl ActiveTsValidationError
          | Some p \<Rightarrow>
              if \<not> is_data p then Inl ActiveTsValidationError
              else if \<not> enumerable p then Inl ActiveTsValidationError
              else Inr (prop_val p)) = Inr y) (slots v) items"
    by (auto simp: safeArrayValues_def rbind_Inr_iff rlist_Inr_iff split: if_splits)
  with assms(2) obtain i where i: "i < length (slots v)" "x = items ! i"
      and "(case slots v ! i of
            None \<Rightarrow> Inl ActiveTsValidationError
          | Some p \<Rightarrow>
              if \<not> is_data p then Inl ActiveTsValidationError
              else if \<not> enumerable p then Inl ActiveTsValidationError
              else Inr (prop_val p)) = Inr (items ! i)"
    by (auto simp: list_all2_conv_all_nth in_set_conv_nth)
  then have "\<exists>p. slots v ! i = Some p \<and> x = prop_val p" by (auto split: option.splits if_splits)
  with i(1) show ?thesis by (metis nth_mem)
qed

lemma safeArrayValues_size: "safeArrayValues v = Inr items \<Longrightarrow> x \<in> set items \<Longrightarrow> size x < size v"
  using safeArrayValues_slots [of v items x] by (cases v) (auto dest!: size_slot)

definition assertJsonContainsExpected :: "jsval \<Rightarrow> unit res" where
  "assertJsonContainsExpected expected =
     (if \<not> is_object expected \<or> is_array expected then Inr ()
      else if \<not> is_plain_object expected then Inl ActiveTsValidationError
      else Inr ())"

function jsonContains :: "jsval \<Rightarrow> jsval \<Rightarrow> bool res" where
  "jsonContains value expected =
     rbind (assertJsonContainsExpected expected) (\<lambda>_.
     if object_is value expected then Inr True
     else if is_array value then
       rbind (safeArrayValues value) (\<lambda>items.
         if is_array expected then
           rbind (safeArrayValues expected) (\<lambda>expectedItems.
             rall (\<lambda>expectedItem. rany (\<lambda>item. jsonContains item expectedItem) items) expectedItems)
         else rany (\<lambda>item. jsonContains item expected) items)
     else if is_object value \<and> \<not> is_plain_object value then Inl ActiveTsValidationError
     else if \<not> is_object value \<or> \<not> is_object expected then Inr False
     else if is_array expected then Inr False
     else if own_symbols expected \<noteq> [] then Inl ActiveTsValidationError
     else rall (\<lambda>key. case own_prop expected key of
           None \<Rightarrow> Inl ActiveTsValidationError
         | Some e \<Rightarrow>
             if \<not> is_data e then Inl ActiveTsValidationError
             else if \<not> enumerable e then Inl ActiveTsValidationError
             else case own_prop value key of
                 None \<Rightarrow> Inr False
               | Some p \<Rightarrow>
                   if \<not> is_data p then Inl ActiveTsValidationError
                   else if \<not> enumerable p then Inl ActiveTsValidationError
                   else jsonContains (prop_val p) (prop_val e)) (own_names expected))"
  by pat_completeness auto
termination
  by (relation "measure (size \<circ> fst)") (auto dest: safeArrayValues_size own_prop_size)

declare jsonContains.simps [simp del]

text \<open>\<open>String(value)\<close> of the code is only reached with a string operand: the plan snapshot rejects
  any other (\<open>snapshot_string_operand\<close> below).\<close>

definition compareWhere :: "jsval \<Rightarrow> where_entry \<Rightarrow> bool res" where
  "compareWhere data w =
     rbind (valueFor data (w_field w)) (\<lambda>value.
     let opn = w_op w; expected = w_value w in
     if opn = ''='' then Inr (strict_eq value expected)
     else if opn = ''!='' then Inr (value \<noteq> Undef \<and> \<not> strict_eq value expected)
     else if opn = ''>'' then Inr (holds_cmp (\<lambda>i. i > 0) (compareRangeValues value expected))
     else if opn = ''>='' then Inr (holds_cmp (\<lambda>i. i \<ge> 0) (compareRangeValues value expected))
     else if opn = ''<'' then Inr (holds_cmp (\<lambda>i. i < 0) (compareRangeValues value expected))
     else if opn = ''<='' then Inr (holds_cmp (\<lambda>i. i \<le> 0) (compareRangeValues value expected))
     else if opn = ''in'' then arrayIncludesValue expected value
     else if opn = ''between'' then
       Inr (holds_cmp (\<lambda>i. i \<ge> 0) (compareRangeValues value expected)
            \<and> holds_cmp (\<lambda>i. i \<le> 0) (compareRangeValues value (w_value2 w)))
     else if opn = ''isNull'' then Inr (value = Null \<or> value = Undef)
     else if opn = ''isNotNull'' then Inr (value \<noteq> Null \<and> value \<noteq> Undef)
     else if opn = ''contains'' then Inl ActiveTsConfigurationError
     else if opn = ''arrayContains'' then arrayIncludesValue value expected
     else if opn = ''textContains'' then
       (case expected of Str q \<Rightarrow> textContainsValue value q | _ \<Rightarrow> Inl JsTypeError)
     else if opn = ''jsonContains'' then jsonContains value expected
     else if opn = ''startsWith'' then
       (case expected of
          Str q \<Rightarrow> Inr (case value of Str s \<Rightarrow> starts_with s q | _ \<Rightarrow> False)
        | _ \<Rightarrow> Inl JsTypeError)
     else Inr False)"

section \<open>Plans\<close>

datatype plan = Plan (p_where: "where_entry list") (p_or: "plan list")

fun matchesPlan :: "jsval \<Rightarrow> plan \<Rightarrow> bool res" where
  "matchesPlan data (Plan ws os) =
     rbind (rall (compareWhere data) ws) (\<lambda>baseMatches.
     if os = [] then Inr baseMatches
     else if ws \<noteq> [] \<and> baseMatches then Inr True
     else rany (matchesPlan data) os)"

definition ownFilterEntryValue :: "jsval \<Rightarrow> string \<Rightarrow> jsval res" where
  "ownFilterEntryValue record key =
     (if \<not> has_own record key then Inr Undef else ownFieldValue record key)"

definition ownFilterPlanValue :: "jsval \<Rightarrow> string \<Rightarrow> jsval res" where
  "ownFilterPlanValue record key = ownFieldValue record key"

definition FILTER_WHERE_ENTRY_KEYS :: "string list" where
  "FILTER_WHERE_ENTRY_KEYS = [''field'', ''op'', ''value'', ''value2'']"

definition cloneQueryOperand :: "jsval \<Rightarrow> jsval res" where
  "cloneQueryOperand value = structured_clone value"

definition snapshotFilterWhereEntry :: "jsval \<Rightarrow> where_entry res" where
  "snapshotFilterWhereEntry entry =
     (if \<not> is_object entry \<or> is_array entry then Inl ActiveTsValidationError
      else if \<not> is_plain_object entry then Inl ActiveTsValidationError
      else if own_symbols entry \<noteq> [] then Inl ActiveTsValidationError
      else rbind (reach (\<lambda>property.
             if property \<notin> set FILTER_WHERE_ENTRY_KEYS then Inl ActiveTsValidationError
             else rbind (ownFieldValue entry property) (\<lambda>_. Inr ())) (own_names entry)) (\<lambda>_.
        rbind (rbind (ownFilterEntryValue entry ''field'') assertSafeFieldPath) (\<lambda>field.
        rbind (ownFilterEntryValue entry ''op'') (\<lambda>opv.
        rbind (case opv of
                 Str o' \<Rightarrow> if isOperator o' then Inr o' else Inl ActiveTsValidationError
               | _ \<Rightarrow> Inl ActiveTsValidationError) (\<lambda>opn.
        rbind (ownFilterEntryValue entry ''value'') (\<lambda>value.
        rbind (ownFilterEntryValue entry ''value2'') (\<lambda>value2.
        rbind (assertValidWhereOperand opv value value2) (\<lambda>_.
        if opn \<noteq> ''between'' \<and> has_own entry ''value2'' then Inl ActiveTsValidationError
        else rbind (cloneQueryOperand value) (\<lambda>v1.
          rbind (if value2 = Undef then Inr Undef else cloneQueryOperand value2) (\<lambda>v2.
          Inr \<lparr>w_field = field, w_op = opn, w_value = v1, w_value2 = v2\<rparr>))))))))))"

text \<open>The recursion goes into the elements of the \<open>or\<close> array, which are smaller values.\<close>

lemma ownFieldValue_size: "ownFieldValue v k = Inr x \<Longrightarrow> size x < size v"
  by (auto simp: ownFieldValue_def dest: own_prop_size split: option.splits if_splits)

lemma snapshotArrayInput_slots:
  assumes "snapshotArrayInput v = Inr items" and "x \<in> set items"
  shows "\<exists>p. Some p \<in> set (slots v) \<and> x = prop_val p"
proof -
  from assms(1) have "list_all2 (\<lambda>slot y. (case slot of
            None \<Rightarrow> Inl ActiveTsValidationError
          | Some p \<Rightarrow> if \<not> is_data p then Inl ActiveTsValidationError else Inr (prop_val p)) = Inr y)
       (slots v) items"
    by (auto simp: snapshotArrayInput_def rbind_Inr_iff rlist_Inr_iff split: if_splits)
  with assms(2) obtain i where i: "i < length (slots v)" "x = items ! i"
      and "(case slots v ! i of
            None \<Rightarrow> Inl ActiveTsValidationError
          | Some p \<Rightarrow> if \<not> is_data p then Inl ActiveTsValidationError else Inr (prop_val p)) = Inr (items ! i)"
    by (auto simp: list_all2_conv_all_nth in_set_conv_nth)
  then have "\<exists>p. slots v ! i = Some p \<and> x = prop_val p" by (auto split: option.splits if_splits)
  with i(1) show ?thesis by (metis nth_mem)
qed

lemma snapshotArrayInput_size: "snapshotArrayInput v = Inr items \<Longrightarrow> x \<in> set items \<Longrightarrow> size x < size v"
  using snapshotArrayInput_slots [of v items x] by (cases v) (auto dest!: size_slot)

function snapshotFilterPlan :: "jsval \<Rightarrow> plan res" where
  "snapshotFilterPlan p =
     (if \<not> is_object p \<or> is_array p then Inl ActiveTsValidationError
      else if \<not> is_plain_object p then Inl ActiveTsValidationError
      else if own_symbols p \<noteq> [] then Inl ActiveTsValidationError
      else rbind (rbind (ownFilterPlanValue p ''where'') snapshotArrayInput) (\<lambda>rawWhere.
        rbind (rlist snapshotFilterWhereEntry rawWhere) (\<lambda>ws.
        rbind (ownFilterPlanValue p ''or'') (\<lambda>orv.
        rbind (snapshotArrayInput orv) (\<lambda>rawOr.
        rbind (rlist snapshotFilterPlan rawOr) (\<lambda>os.
        Inr (Plan ws os)))))))"
  by pat_completeness auto
termination
proof (relation "measure size")
  fix p rawWhere ws orv rawOr z
  assume "ownFilterPlanValue p ''or'' = Inr orv" and "snapshotArrayInput orv = Inr rawOr" and "z \<in> set rawOr"
  then have "size orv < size p" and "size z < size orv"
    by (simp_all add: ownFilterPlanValue_def ownFieldValue_size snapshotArrayInput_size)
  then show "(z, p) \<in> measure size" by simp
qed simp

declare snapshotFilterPlan.simps [simp del]

definition filterRows :: "jsval \<Rightarrow> jsval \<Rightarrow> jsval list res" where
  "filterRows rows p =
     rbind (snapshotArrayInput rows) (\<lambda>safeRows.
     rbind (snapshotFilterPlan p) (\<lambda>safePlan.
     rbind (rlist (\<lambda>item. rbind (matchesPlan item safePlan) (\<lambda>m. Inr (item, m))) safeRows) (\<lambda>marked.
     Inr (map fst (filter snd marked)))))"

lemma snapshot_string_operand:
  assumes "snapshotFilterWhereEntry entry = Inr w"
    and "w_op w = ''textContains'' \<or> w_op w = ''startsWith''"
  shows "\<exists>q. w_value w = Str q"
proof -
  from assms(1) obtain opn operand operand2 v1
    where valid: "assertValidWhereOperand (Str opn) operand operand2 = Inr ()"
      and clone: "cloneQueryOperand operand = Inr v1" and w: "w_op w = opn" "w_value w = v1"
    by (auto simp: snapshotFilterWhereEntry_def rbind_Inr_iff split: if_splits jsval.splits)
  from valid assms(2) w(1) have "js_typeof operand = ''string''"
    by (auto simp: assertValidWhereOperand_def isOperator_def split: if_splits)
  then obtain q where "operand = Str q"
    by (cases operand) (auto split: obj_class.splits if_splits)
  with clone have "v1 = Str q" by (simp add: cloneQueryOperand_def)
  with w(2) show ?thesis by blast
qed

section \<open>Where shapes\<close>

definition assertPlainWhereShape :: "jsval \<Rightarrow> jsval res" where
  "assertPlainWhereShape w =
     (if w = Undef then Inr Undef
      else if \<not> is_object w \<or> is_array w then Inl ActiveTsValidationError
      else if \<not> is_plain_object w then Inl ActiveTsValidationError
      else if own_symbols w \<noteq> [] then Inl ActiveTsValidationError
      else rbind (reach (\<lambda>property. rbind (ownFieldValue w property) (\<lambda>_. Inr ())) (own_names w))
        (\<lambda>_. Inr w))"

definition whereShapeEntries :: "jsval \<Rightarrow> (string \<times> jsval) list res" where
  "whereShapeEntries w =
     rbind (assertPlainWhereShape w) (\<lambda>v.
       if v = Undef then Inr []
       else rlist (\<lambda>(field, p). if \<not> is_data p then Inl ActiveTsValidationError
              else Inr (field, prop_val p)) (filter (\<lambda>(k, p). enumerable p) (extras v)))"

definition whereShapeEntry :: "string \<times> jsval \<Rightarrow> where_entry res" where
  "whereShapeEntry = (\<lambda>(field, raw).
     rbind (assertSafeFieldPath (Str field)) (\<lambda>safeField.
     if raw = Undef then Inl ActiveTsValidationError
     else if is_array raw then
       rbind (assertDenseArray raw) (\<lambda>_.
       rbind (ownArrayValue raw 0) (\<lambda>operator.
       if operator = Str ''between'' then
         rbind (ownArrayValue raw 1) (\<lambda>lower.
         rbind (ownArrayValue raw 2) (\<lambda>upper.
         rbind (assertValidWhereOperand (Str ''between'') lower upper) (\<lambda>_.
         rbind (assertWhereArrayArity (length (slots raw)) ''between'') (\<lambda>_.
         rbind (cloneQueryOperand lower) (\<lambda>v1.
         rbind (cloneQueryOperand upper) (\<lambda>v2.
         Inr \<lparr>w_field = safeField, w_op = ''between'', w_value = v1, w_value2 = v2\<rparr>))))))
       else case operator of
         Str opn \<Rightarrow>
           if isOperator opn then
             rbind (ownArrayValue raw 1) (\<lambda>operand.
             rbind (assertValidWhereOperand operator operand Undef) (\<lambda>_.
             rbind (assertWhereArrayArity (length (slots raw)) opn) (\<lambda>_.
             rbind (cloneQueryOperand operand) (\<lambda>v.
             Inr \<lparr>w_field = safeField, w_op = opn, w_value = v, w_value2 = Undef\<rparr>))))
           else
             rbind (assertValidWhereOperand (Str ''in'') raw Undef) (\<lambda>_.
             rbind (cloneQueryOperand raw) (\<lambda>v.
             Inr \<lparr>w_field = safeField, w_op = ''in'', w_value = v, w_value2 = Undef\<rparr>))
       | _ \<Rightarrow>
           rbind (assertValidWhereOperand (Str ''in'') raw Undef) (\<lambda>_.
           rbind (cloneQueryOperand raw) (\<lambda>v.
           Inr \<lparr>w_field = safeField, w_op = ''in'', w_value = v, w_value2 = Undef\<rparr>))))
     else
       rbind (assertValidWhereOperand (Str ''='') raw Undef) (\<lambda>_.
       rbind (cloneQueryOperand raw) (\<lambda>v.
       Inr \<lparr>w_field = safeField, w_op = ''='', w_value = v, w_value2 = Undef\<rparr>))))"

definition whereShapeToPlan :: "jsval \<Rightarrow> plan res" where
  "whereShapeToPlan w =
     rbind (whereShapeEntries w) (\<lambda>es.
     rbind (rlist whereShapeEntry es) (\<lambda>ws. Inr (Plan ws [])))"

section \<open>What the filter means\<close>

text \<open>The reading of a plan: without alternatives every entry holds; with alternatives either there
  are entries and all hold, or one of the alternatives holds.\<close>

fun plan_sat :: "jsval \<Rightarrow> plan \<Rightarrow> bool" where
  "plan_sat data (Plan ws os) =
     (if os = [] then \<forall>w \<in> set ws. compareWhere data w = Inr True
      else (ws \<noteq> [] \<and> (\<forall>w \<in> set ws. compareWhere data w = Inr True)) \<or> (\<exists>p \<in> set os. plan_sat data p))"

lemma rall_result: "rall f xs = Inr b \<Longrightarrow> b \<longleftrightarrow> (\<forall>x \<in> set xs. f x = Inr True)"
  by (induction xs) (auto simp: rbind_Inr_iff split: if_splits)

lemma rany_result:
  "rany f xs = Inr b \<Longrightarrow> (\<And>x c. x \<in> set xs \<Longrightarrow> f x = Inr c \<Longrightarrow> c = P x) \<Longrightarrow>
   (b \<longleftrightarrow> (\<exists>x \<in> set xs. P x))"
proof (induction xs)
  case (Cons x xs)
  from Cons.prems(1) obtain c where c: "f x = Inr c" by (auto simp: rbind_Inr_iff)
  have px: "c = P x" using Cons.prems(2) [OF _ c] by simp
  have "rany f xs = Inr b \<Longrightarrow> b \<longleftrightarrow> (\<exists>x \<in> set xs. P x)"
    by (rule Cons.IH) (simp, rule Cons.prems(2), simp_all)
  with c px Cons.prems(1) show ?case by (cases c) auto
qed simp

lemma matchesPlan_sat: "matchesPlan data p = Inr b \<Longrightarrow> b = plan_sat data p"
proof (induction data p arbitrary: b rule: matchesPlan.induct)
  case (1 data ws os)
  then obtain base where base: "rall (compareWhere data) ws = Inr base"
    by (auto simp: rbind_Inr_iff)
  note b = rall_result [OF base]
  show ?case
  proof (cases "os = [] \<or> ws \<noteq> [] \<and> base")
    case True
    with 1(2) base b show ?thesis by (auto simp: rbind_Inr_iff split: if_splits)
  next
    case False
    with 1(2) base have any: "rany (matchesPlan data) os = Inr b" by auto
    have "x \<in> set os \<Longrightarrow> matchesPlan data x = Inr c \<Longrightarrow> c = plan_sat data x" for x c
      using 1(1) [OF base] False by auto
    then have "b \<longleftrightarrow> (\<exists>x \<in> set os. plan_sat data x)"
      by (rule rany_result [OF any, of "plan_sat data"])
    with False b show ?thesis by auto
  qed
qed

lemma filter_marked:
  "rlist (\<lambda>item. rbind (f item) (\<lambda>m. Inr (item, m))) xs = Inr marked \<Longrightarrow>
   map fst (filter snd marked) = filter (\<lambda>x. f x = Inr True) xs \<and> (\<forall>x \<in> set xs. \<exists>b. f x = Inr b)"
  by (induction xs arbitrary: marked) (auto simp: rbind_Inr_iff)

text \<open>C6. The portable filter: when \<open>filterRows\<close> returns, the result is exactly the subsequence of the
  rows that satisfy the normalised plan, in the original order, and no row's evaluation was skipped
  by an error.\<close>

theorem filter_rows_spec:
  assumes "filterRows (js_array rows) p = Inr result"
  shows "\<exists>pl. snapshotFilterPlan p = Inr pl \<and> result = filter (\<lambda>row. plan_sat row pl) rows
       \<and> (\<forall>row \<in> set rows. matchesPlan row pl = Inr (plan_sat row pl))"
proof -
  from assms obtain pl marked where pl: "snapshotFilterPlan p = Inr pl"
      and m: "rlist (\<lambda>item. rbind (matchesPlan item pl) (\<lambda>m. Inr (item, m))) rows = Inr marked"
      and r: "result = map fst (filter snd marked)"
    by (auto simp: filterRows_def rbind_Inr_iff)
  from filter_marked [OF m] have all: "\<forall>x \<in> set rows. matchesPlan x pl = Inr (plan_sat x pl)"
    using matchesPlan_sat by metis
  then have "filter (\<lambda>x. matchesPlan x pl = Inr True) rows = filter (\<lambda>row. plan_sat row pl) rows"
    by (auto intro: filter_cong)
  with filter_marked [OF m] pl r all show ?thesis by auto
qed

theorem filter_rows_spec_witness:
  "filterRows (js_array [js_object [(''n'', js_int 1)], js_object [(''n'', js_int 5)]])
     (js_object [(''where'', js_array [js_object [(''field'', Str ''n''), (''op'', Str ''>''), (''value'', js_int 2)]]),
                 (''or'', js_array [])]) = Inr [js_object [(''n'', js_int 5)]] \<and>
   (\<exists>pl. [js_object [(''n'', js_int 5)]]
      = filter (\<lambda>row. plan_sat row pl) [js_object [(''n'', js_int 1)], js_object [(''n'', js_int 5)]])"
proof -
  have f: "filterRows (js_array [js_object [(''n'', js_int 1)], js_object [(''n'', js_int 5)]])
     (js_object [(''where'', js_array [js_object [(''field'', Str ''n''), (''op'', Str ''>''), (''value'', js_int 2)]]),
                 (''or'', js_array [])]) = Inr [js_object [(''n'', js_int 5)]]"
    by code_simp
  from f filter_rows_spec [OF f] show ?thesis by blast
qed

end
