(* ===== verification/RowSort.thy ===== *)
theory RowSort
  imports QueryFilter "HOL-Library.Multiset"
begin

text \<open>
  \<open>src/core/cursor.ts\<close> and the sort of \<open>src/adapters/store/memory.ts\<close>: the keys by which rows are
  ordered, the comparison of keys, keyset cursors, and the bottom-up merge sort of the memory store. The
  locale \<open>row_order\<close> is what the merge sort needs of a comparison; it is interpreted on the comparison
  of row keys. The text form of a cursor (base64url of JSON) is not modelled: a cursor is the payload.
\<close>

section \<open>Comparable values\<close>

datatype Comparable = KNull | KBool bool | KNum rat | KText string

definition cursorDateComparable :: "jsval \<Rightarrow> Comparable res" where
  "cursorDateComparable value = (case dateTime value of
     None \<Rightarrow> Inl ActiveTsConfigurationError
   | Some t \<Rightarrow>
       if \<not> isPortableDate value then Inl ActiveTsConfigurationError
       else if own_symbols value \<noteq> [] then Inl ActiveTsConfigurationError
       else if own_names value \<noteq> [] then Inl ActiveTsConfigurationError
       else Inr (KText (dateIsoString t)))"

definition comparable :: "jsval \<Rightarrow> Comparable res" where
  "comparable value =
     (if is_date value then cursorDateComparable value
      else case value of
        Undef \<Rightarrow> Inr KNull
      | Null \<Rightarrow> Inr KNull
      | Str s \<Rightarrow> Inr (KText s)
      | Bool b \<Rightarrow> Inr (KBool b)
      | Num n \<Rightarrow> if \<not> is_finite n then Inl ActiveTsConfigurationError else Inr (KNum (num_value n))
      | _ \<Rightarrow> Inl ActiveTsConfigurationError)"

definition comparableTypeRank :: "Comparable \<Rightarrow> int" where
  "comparableTypeRank value = (case value of KBool _ \<Rightarrow> 1 | KNum _ \<Rightarrow> 2 | _ \<Rightarrow> 3)"

definition compareValues :: "Comparable \<Rightarrow> Comparable \<Rightarrow> int" where
  "compareValues a b =
     (if a = b then 0
      else if a = KNull then -1
      else if b = KNull then 1
      else if comparableTypeRank a \<noteq> comparableTypeRank b
      then comparableTypeRank a - comparableTypeRank b
      else case (a, b) of
        (KBool x, KBool y) \<Rightarrow> of_bool x - of_bool y
      | (KNum x, KNum y) \<Rightarrow> if x > y then 1 else -1
      | (KText x, KText y) \<Rightarrow> if x > y then 1 else -1
      | _ \<Rightarrow> -1)"

lemma compareValues_antisym: "compareValues b a = - compareValues a b"
  by (cases a; cases b) (auto simp: compareValues_def comparableTypeRank_def)

lemma compareValues_refl [simp]: "compareValues a a = 0"
  by (simp add: compareValues_def)

lemma compareValues_eq [simp]: "compareValues a b = 0 \<longleftrightarrow> a = b"
  by (cases a; cases b) (auto simp: compareValues_def comparableTypeRank_def)

lemma compareValues_trans:
  "compareValues a b \<le> 0 \<Longrightarrow> compareValues b c \<le> 0 \<Longrightarrow> compareValues a c \<le> 0"
  by (cases a; cases b; cases c) (auto simp: compareValues_def comparableTypeRank_def split: if_splits)

section \<open>Sort lists\<close>

datatype SortDirection = Asc | Desc

record CursorSort =
  sort_field :: string
  sort_direction :: SortDirection

definition ownCursorValue :: "jsval \<Rightarrow> string \<Rightarrow> jsval res" where
  "ownCursorValue record key = (case own_prop record key of
     None \<Rightarrow> Inr Undef
   | Some p \<Rightarrow>
       if \<not> is_data p then Inl ActiveTsConfigurationError
       else if \<not> enumerable p then Inl ActiveTsConfigurationError
       else Inr (prop_val p))"

definition assertNoCursorAccessorFields :: "jsval \<Rightarrow> unit res" where
  "assertNoCursorAccessorFields record =
     (if own_symbols record \<noteq> [] then Inl ActiveTsConfigurationError
      else reach (\<lambda>property. case own_prop record property of
          None \<Rightarrow> Inl ActiveTsConfigurationError
        | Some p \<Rightarrow>
            if \<not> is_data p then Inl ActiveTsConfigurationError
            else if \<not> enumerable p then Inl ActiveTsConfigurationError
            else Inr ()) (own_names record))"

definition cursorArrayValues :: "jsval \<Rightarrow> jsval list res" where
  "cursorArrayValues value =
     (if \<not> is_array value then Inl ActiveTsConfigurationError
      else if own_symbols value \<noteq> [] then Inl ActiveTsConfigurationError
      else rbind (assertDenseArrayItems value) (\<lambda>_.
        rlist (\<lambda>slot. case slot of
            None \<Rightarrow> Inl ActiveTsConfigurationError
          | Some p \<Rightarrow> if \<not> is_data p then Inl ActiveTsConfigurationError else Inr (prop_val p))
          (slots value)))"

definition cursor_direction :: "jsval \<Rightarrow> SortDirection res" where
  "cursor_direction direction =
     (if direction = Str ''asc'' then Inr Asc
      else if direction = Str ''desc'' then Inr Desc
      else Inl ActiveTsConfigurationError)"

definition cursor_sort_entry :: "jsval \<Rightarrow> CursorSort res" where
  "cursor_sort_entry entry =
     (if \<not> is_object entry \<or> is_array entry then Inl ActiveTsConfigurationError
      else rbind (assertNoCursorAccessorFields entry) (\<lambda>_.
        rbind (rbind (ownCursorValue entry ''field'') assertSafeFieldPath) (\<lambda>field.
        rbind (rbind (ownCursorValue entry ''direction'') cursor_direction) (\<lambda>direction.
        Inr \<lparr>sort_field = field, sort_direction = direction\<rparr>))))"

definition sanitizeCursorSortList :: "jsval \<Rightarrow> CursorSort list res" where
  "sanitizeCursorSortList sortList =
     rbind (cursorArrayValues sortList) (rlist cursor_sort_entry)"

definition cursorPlanSort :: "jsval \<Rightarrow> jsval res" where
  "cursorPlanSort plan =
     (if \<not> is_object plan \<or> is_array plan then Inr Undef
      else ownCursorValue plan ''sort'')"

definition sortWithStableId :: "jsval \<Rightarrow> jsval \<Rightarrow> CursorSort list res" where
  "sortWithStableId plan idField =
     rbind (assertSafeFieldPath idField) (\<lambda>safeIdField.
     rbind (rbind (cursorPlanSort plan) sanitizeCursorSortList) (\<lambda>sortList.
     Inr (if \<exists>e \<in> set sortList. sort_field e = safeIdField then sortList
          else sortList @ [\<lparr>sort_field = safeIdField, sort_direction = Asc\<rparr>])))"

text \<open>The sort list as the array value the functions below receive.\<close>

definition direction_text :: "SortDirection \<Rightarrow> string" where
  "direction_text d = (case d of Asc \<Rightarrow> ''asc'' | Desc \<Rightarrow> ''desc'')"

definition sort_entry_value :: "CursorSort \<Rightarrow> jsval" where
  "sort_entry_value e =
     js_object [(''field'', Str (sort_field e)), (''direction'', Str (direction_text (sort_direction e)))]"

definition sort_value :: "CursorSort list \<Rightarrow> jsval" where
  "sort_value sortList = js_array (map sort_entry_value sortList)"

section \<open>Row keys\<close>

definition keyFor :: "CursorSort list \<Rightarrow> jsval \<Rightarrow> Comparable list res" where
  "keyFor safeSort row = rlist (\<lambda>e. rbind (valueFor row (sort_field e)) comparable) safeSort"

definition directed :: "CursorSort \<Rightarrow> int \<Rightarrow> int" where
  "directed e order = (if sort_direction e = Asc then order else - order)"

fun compareKeys :: "CursorSort list \<Rightarrow> Comparable list \<Rightarrow> Comparable list \<Rightarrow> int" where
  "compareKeys (e # safeSort) (l # left) (r # right) =
     (let order = compareValues l r in
      if order \<noteq> 0 then directed e order else compareKeys safeSort left right)"
| "compareKeys _ _ _ = 0"

definition prepareRowSort ::
    "jsval \<Rightarrow> ((jsval \<Rightarrow> Comparable list res) \<times> (Comparable list \<Rightarrow> Comparable list \<Rightarrow> int)) res" where
  "prepareRowSort sortList =
     rbind (sanitizeCursorSortList sortList) (\<lambda>safeSort. Inr (keyFor safeSort, compareKeys safeSort))"

definition cursorValues :: "jsval \<Rightarrow> jsval \<Rightarrow> Comparable list res" where
  "cursorValues row sortList = rbind (sanitizeCursorSortList sortList) (\<lambda>safeSort. keyFor safeSort row)"

definition compareRowsBySort :: "jsval \<Rightarrow> jsval \<Rightarrow> jsval \<Rightarrow> int res" where
  "compareRowsBySort a b sortList = rbind (sanitizeCursorSortList sortList) (\<lambda>safeSort.
     fold (\<lambda>e acc. rbind acc (\<lambda>found. if found \<noteq> 0 then Inr found else
       rbind (rbind (valueFor a (sort_field e)) comparable) (\<lambda>x.
       rbind (rbind (valueFor b (sort_field e)) comparable) (\<lambda>y.
       Inr (directed e (compareValues x y)))))) safeSort (Inr 0))"

section \<open>Keyset cursors\<close>

record KeysetCursor =
  cursor_sort :: "CursorSort list"
  cursor_values :: "jsval list"

definition assertSafeCursorValue :: "jsval \<Rightarrow> unit res" where
  "assertSafeCursorValue value = (case value of
     Null \<Rightarrow> Inr ()
   | Str _ \<Rightarrow> Inr ()
   | Bool _ \<Rightarrow> Inr ()
   | Num n \<Rightarrow> if is_finite n then Inr () else Inl ActiveTsConfigurationError
   | _ \<Rightarrow> Inl ActiveTsConfigurationError)"

definition sanitizeKeysetCursor :: "jsval \<Rightarrow> KeysetCursor res" where
  "sanitizeKeysetCursor cursor =
     (if \<not> is_object cursor \<or> is_array cursor then Inl ActiveTsConfigurationError
      else rbind (assertNoCursorAccessorFields cursor) (\<lambda>_.
        rbind (ownCursorValue cursor ''v'') (\<lambda>v.
        rbind (if \<not> strict_eq v (js_int 1) then Inl ActiveTsConfigurationError
               else rbind (ownCursorValue cursor ''kind'') (\<lambda>kind.
                 if kind \<noteq> Str ''keyset'' then Inl ActiveTsConfigurationError else Inr ())) (\<lambda>_.
        rbind (rbind (ownCursorValue cursor ''sort'') sanitizeCursorSortList) (\<lambda>sortList.
        rbind (rbind (ownCursorValue cursor ''values'') cursorArrayValues) (\<lambda>safeValues.
        if length sortList \<noteq> length safeValues then Inl ActiveTsConfigurationError
        else rbind (reach assertSafeCursorValue safeValues) (\<lambda>_.
          Inr \<lparr>cursor_sort = sortList, cursor_values = safeValues\<rparr>)))))))"

definition keysetCursorJson :: "KeysetCursor \<Rightarrow> jsval" where
  "keysetCursorJson cursor = js_object
     [(''v'', js_int 1), (''kind'', Str ''keyset''),
      (''sort'', sort_value (cursor_sort cursor)), (''values'', js_array (cursor_values cursor))]"

fun cursorSortsEqual :: "CursorSort list \<Rightarrow> CursorSort list \<Rightarrow> bool" where
  "cursorSortsEqual [] [] = True"
| "cursorSortsEqual (l # left) (r # right) =
     (if sort_field l \<noteq> sort_field r \<or> sort_direction l \<noteq> sort_direction r then False
      else cursorSortsEqual left right)"
| "cursorSortsEqual _ _ = False"

definition assertCursorMatchesSort :: "jsval \<Rightarrow> jsval \<Rightarrow> unit res" where
  "assertCursorMatchesSort cursor sortList =
     rbind (sanitizeKeysetCursor cursor) (\<lambda>safeCursor.
     rbind (sanitizeCursorSortList sortList) (\<lambda>safeSort.
     if \<not> cursorSortsEqual (cursor_sort safeCursor) safeSort then Inl ActiveTsConfigurationError
     else Inr ()))"

fun compare_to_values :: "jsval \<Rightarrow> CursorSort list \<Rightarrow> jsval list \<Rightarrow> int res" where
  "compare_to_values row (entry # sortList) (v # values) =
     rbind (rbind (valueFor row (sort_field entry)) comparable) (\<lambda>x.
     rbind (comparable v) (\<lambda>y.
     let order = compareValues x y in
     if order \<noteq> 0 then Inr (directed entry order) else compare_to_values row sortList values))"
| "compare_to_values row _ _ = Inr 0"

definition compareRowToCursor :: "jsval \<Rightarrow> jsval \<Rightarrow> int res" where
  "compareRowToCursor row cursor =
     rbind (sanitizeKeysetCursor cursor) (\<lambda>safeCursor.
       compare_to_values row (cursor_sort safeCursor) (cursor_values safeCursor))"

text \<open>The value that a key component is in a cursor payload.\<close>

definition comparable_value :: "Comparable \<Rightarrow> jsval" where
  "comparable_value c = (case c of KNull \<Rightarrow> Null | KBool b \<Rightarrow> Bool b | KNum q \<Rightarrow> Num (Fin q) | KText s \<Rightarrow> Str s)"

section \<open>The merge sort\<close>

text \<open>\<open>merge_run\<close> is the inner loop: \<open>n\<close> outputs are left, \<open>left\<close> and \<open>right\<close> are the two indices.
  \<open>merge_pass\<close> is the loop over \<open>start\<close> and \<open>merge_widths\<close> the loop over \<open>width\<close>, which starts at 1.\<close>

fun merge_run :: "('e \<Rightarrow> 'e \<Rightarrow> int) \<Rightarrow> 'e list \<Rightarrow> nat \<Rightarrow> nat \<Rightarrow> nat \<Rightarrow> nat \<Rightarrow> nat \<Rightarrow> 'e list" where
  "merge_run cmp source middle fin 0 left right = []"
| "merge_run cmp source middle fin (Suc n) left right =
     (if left < middle \<and> (right \<ge> fin \<or> cmp (source ! left) (source ! right) \<le> 0)
      then source ! left # merge_run cmp source middle fin n (left + 1) right
      else source ! right # merge_run cmp source middle fin n left (right + 1))"

function merge_pass :: "('e \<Rightarrow> 'e \<Rightarrow> int) \<Rightarrow> 'e list \<Rightarrow> nat \<Rightarrow> nat \<Rightarrow> 'e list" where
  "merge_pass cmp source width start =
     (if width = 0 \<or> \<not> start < length source then []
      else let middle = min (start + width) (length source);
               fin = min (start + width * 2) (length source)
        in merge_run cmp source middle fin (fin - start) start middle
           @ merge_pass cmp source width (start + width * 2))"
  by pat_completeness auto
termination by (relation "measure (\<lambda>(cmp, source, width, start). length source - start)") auto

declare merge_pass.simps [simp del]

lemma length_merge_run [simp]: "length (merge_run cmp source middle fin n left right) = n"
  by (induction n arbitrary: left right) auto

lemma length_merge_pass: "width \<noteq> 0 \<Longrightarrow> length (merge_pass cmp source width start) = length source - start"
  by (induction cmp source width start rule: merge_pass.induct)
    (subst merge_pass.simps, auto simp: Let_def)

function merge_widths :: "('e \<Rightarrow> 'e \<Rightarrow> int) \<Rightarrow> 'e list \<Rightarrow> nat \<Rightarrow> 'e list" where
  "merge_widths cmp source width =
     (if width = 0 \<or> \<not> width < length source then source
      else merge_widths cmp (merge_pass cmp source width 0) (width * 2))"
  by pat_completeness auto
termination
  by (relation "measure (\<lambda>(cmp, source, width). length source - width)") (auto simp: length_merge_pass)

declare merge_widths.simps [simp del]

definition sortMemoryRows :: "jsval list \<Rightarrow> CursorSort list \<Rightarrow> jsval list res" where
  "sortMemoryRows rows sortList =
     rbind (prepareRowSort (sort_value sortList)) (\<lambda>(keyOf, compare).
     rbind (rlist (\<lambda>row. rbind (keyOf row) (\<lambda>key. Inr (row, key))) rows) (\<lambda>source.
     Inr (map fst (merge_widths (\<lambda>a b. compare (snd a) (snd b)) source 1))))"

definition copyRows :: "'a list \<Rightarrow> nat \<Rightarrow> nat \<Rightarrow> 'a list" where
  "copyRows rows start fin = map (\<lambda>index. rows ! index) [start..<min fin (length rows)]"

section \<open>What the merge sort needs of a comparison\<close>

fun merge_lists :: "('e \<Rightarrow> 'e \<Rightarrow> int) \<Rightarrow> 'e list \<Rightarrow> 'e list \<Rightarrow> 'e list" where
  "merge_lists cmp [] ys = ys"
| "merge_lists cmp xs [] = xs"
| "merge_lists cmp (x # xs) (y # ys) =
     (if cmp x y \<le> 0 then x # merge_lists cmp xs (y # ys) else y # merge_lists cmp (x # xs) ys)"

lemma merge_lists_Nil [simp]: "merge_lists cmp xs [] = xs"
  by (cases xs) simp_all

lemma set_merge_lists [simp]: "set (merge_lists cmp xs ys) = set xs \<union> set ys"
  by (induction cmp xs ys rule: merge_lists.induct) auto

lemma mset_merge_lists [simp]: "mset (merge_lists cmp xs ys) = mset xs + mset ys"
  by (induction cmp xs ys rule: merge_lists.induct) auto

lemma merge_run_lists:
  "left \<le> middle \<Longrightarrow> middle \<le> fin \<Longrightarrow> right \<le> fin \<Longrightarrow> fin \<le> length source \<Longrightarrow>
   n = (middle - left) + (fin - right) \<Longrightarrow>
   merge_run cmp source middle fin n left right
     = merge_lists cmp (take (middle - left) (drop left source)) (take (fin - right) (drop right source))"
proof (induction n arbitrary: left right)
  case (Suc n)
  have l: "take (middle - left) (drop left source) = source ! left # take (middle - (left + 1)) (drop (left + 1) source)"
    if "left < middle"
    using that Suc.prems by (simp add: Cons_nth_drop_Suc [symmetric] take_Cons' Suc_diff_Suc [symmetric])
  have r: "take (fin - right) (drop right source) = source ! right # take (fin - (right + 1)) (drop (right + 1) source)"
    if "right < fin"
    using that Suc.prems by (simp add: Cons_nth_drop_Suc [symmetric] take_Cons' Suc_diff_Suc [symmetric])
  show ?case
  proof (cases "left < middle \<and> (right \<ge> fin \<or> cmp (source ! left) (source ! right) \<le> 0)")
    case True
    with Suc.prems have "merge_run cmp source middle fin n (left + 1) right
        = merge_lists cmp (take (middle - (left + 1)) (drop (left + 1) source)) (take (fin - right) (drop right source))"
      by (intro Suc.IH) auto
    with True l r show ?thesis by (cases "right < fin") auto
  next
    case False
    with Suc.prems have rf: "right < fin" by auto
    with False Suc.prems have "merge_run cmp source middle fin n left (right + 1)
        = merge_lists cmp (take (middle - left) (drop left source)) (take (fin - (right + 1)) (drop (right + 1) source))"
      by (intro Suc.IH) auto
    with False l r [OF rf] rf show ?thesis by (cases "left < middle") auto
  qed
qed auto

function merge_blocks :: "('e \<Rightarrow> 'e \<Rightarrow> int) \<Rightarrow> nat \<Rightarrow> 'e list \<Rightarrow> 'e list" where
  "merge_blocks cmp w xs = (if w = 0 \<or> xs = [] then []
     else merge_lists cmp (take w xs) (take w (drop w xs)) @ merge_blocks cmp w (drop (w * 2) xs))"
  by pat_completeness auto
termination by (relation "measure (\<lambda>(cmp, w, xs). length xs)") auto

declare merge_blocks.simps [simp del]

lemma merge_pass_blocks:
  "merge_pass cmp source w start = merge_blocks cmp w (drop start source)"
proof (induction cmp source w start rule: merge_pass.induct)
  case (1 cmp source w start)
  show ?case
  proof (cases "w = 0 \<or> \<not> start < length source")
    case False
    let ?m = "min (start + w) (length source)" and ?f = "min (start + w * 2) (length source)"
    have "merge_run cmp source ?m ?f (?f - start) start ?m
        = merge_lists cmp (take (?m - start) (drop start source)) (take (?f - ?m) (drop ?m source))"
      using False by (intro merge_run_lists) auto
    moreover have "take (?m - start) (drop start source) = take w (drop start source)"
      using False by (auto simp: min_def)
    moreover have "take (?f - ?m) (drop ?m source) = take w (drop w (drop start source))"
      by (cases "start + w \<le> length source"; cases "start + w * 2 \<le> length source")
        (auto simp: min_def add.commute)
    ultimately show ?thesis
      using False "1.IH" [OF False refl refl]
      by (simp add: merge_pass.simps [of cmp source w start] merge_blocks.simps [of cmp w "drop start source"]
          Let_def add.commute)
  next
    case True
    then have "merge_pass cmp source w start = []" and "merge_blocks cmp w (drop start source) = []"
      by (subst merge_pass.simps merge_blocks.simps, auto)+
    then show ?thesis by simp
  qed
qed

lemma mset_merge_blocks: "w \<noteq> 0 \<Longrightarrow> mset (merge_blocks cmp w xs) = mset xs"
proof (induction cmp w xs rule: merge_blocks.induct)
  case (1 cmp w xs)
  have "mset xs = mset (take w xs @ take w (drop w xs) @ drop (w * 2) xs)"
    by (metis append_take_drop_id drop_drop mult_2_right)
  with 1 show ?case by (subst merge_blocks.simps) auto
qed

lemma merge_lists_induct:
  assumes "\<And>ys. P [] ys" and "\<And>x xs. P (x # xs) []"
    and "\<And>x xs y ys. P xs (y # ys) \<Longrightarrow> P (x # xs) ys \<Longrightarrow> P (x # xs) (y # ys)"
  shows "P xs ys"
proof (induction xs arbitrary: ys)
  case (Cons x xs)
  show ?case by (induction ys) (auto intro: assms Cons.IH)
qed (rule assms(1))

text \<open>The comparison orders the elements of a carrier \<open>K\<close> as a total preorder.\<close>

locale row_order =
  fixes cmp :: "'e \<Rightarrow> 'e \<Rightarrow> int" and K :: "'e set"
  assumes antisym: "x \<in> K \<Longrightarrow> y \<in> K \<Longrightarrow> cmp y x = - cmp x y"
    and trans: "x \<in> K \<Longrightarrow> y \<in> K \<Longrightarrow> z \<in> K \<Longrightarrow> cmp x y \<le> 0 \<Longrightarrow> cmp y z \<le> 0 \<Longrightarrow> cmp x z \<le> 0"
begin

definition ordered :: "'e list \<Rightarrow> bool" where
  "ordered xs = sorted_wrt (\<lambda>x y. cmp x y \<le> 0) xs"

definition alike :: "'e \<Rightarrow> 'e \<Rightarrow> bool" where
  "alike z x = (cmp z x = 0)"

lemma ordered_simps [simp]:
  "ordered []" "ordered (x # xs) \<longleftrightarrow> (\<forall>y \<in> set xs. cmp x y \<le> 0) \<and> ordered xs"
  by (simp_all add: ordered_def)

lemma ordered_merge:
  "set xs \<subseteq> K \<Longrightarrow> set ys \<subseteq> K \<Longrightarrow> ordered xs \<Longrightarrow> ordered ys \<Longrightarrow> ordered (merge_lists cmp xs ys)"
proof (induction xs ys rule: merge_lists_induct)
  case (3 x xs y ys)
  have K: "x \<in> K" "y \<in> K" "set xs \<subseteq> K" "set ys \<subseteq> K" using "3.prems" by auto
  show ?case
  proof (cases "cmp x y \<le> 0")
    case True
    have "cmp x z \<le> 0" if "z \<in> set ys" for z
      using trans [of x y z] True K that "3.prems"(4) by auto
    with True 3 K show ?thesis by auto
  next
    case False
    then have yx: "cmp y x \<le> 0" using antisym [of x y] K by simp
    have "cmp y z \<le> 0" if "z \<in> set xs" for z
      using trans [of y x z] yx K that "3.prems"(3) by auto
    with yx False 3 K show ?thesis by auto
  qed
qed auto

lemma alike_between:
  assumes "x \<in> K" "y \<in> K" "z \<in> K" and "cmp x y > 0" and "cmp x v \<le> 0" and "v \<in> K"
  shows "\<not> (alike z y \<and> alike z v)"
proof
  assume a: "alike z y \<and> alike z v"
  then have "cmp v z \<le> 0" "cmp z y \<le> 0" using antisym [of z v] assms by (auto simp: alike_def)
  with trans [of v z y] assms have "cmp v y \<le> 0" by auto
  with trans [of x v y] assms have "cmp x y \<le> 0" by auto
  with assms(4) show False by simp
qed

lemma stable_merge:
  "set xs \<subseteq> K \<Longrightarrow> set ys \<subseteq> K \<Longrightarrow> z \<in> K \<Longrightarrow> ordered xs \<Longrightarrow>
   filter (alike z) (merge_lists cmp xs ys) = filter (alike z) xs @ filter (alike z) ys"
proof (induction xs ys rule: merge_lists_induct)
  case (3 x xs y ys)
  have K: "x \<in> K" "y \<in> K" "set xs \<subseteq> K" "set ys \<subseteq> K" using "3.prems" by auto
  show ?case
  proof (cases "cmp x y \<le> 0")
    case False
    have xx: "cmp x x = 0" using antisym [of x x] K by simp
    have none: "\<not> alike z v" if "alike z y" "v \<in> set (x # xs)" for v
    proof -
      have "cmp x v \<le> 0" "v \<in> K" using that(2) "3.prems"(1,4) xx by auto
      with alike_between [of x y z v] that(1) False K "3.prems"(3) show ?thesis by auto
    qed
    have IH: "filter (alike z) (merge_lists cmp (x # xs) ys) = filter (alike z) (x # xs) @ filter (alike z) ys"
      using "3.IH"(2) "3.prems" by auto
    show ?thesis
    proof (cases "alike z y")
      case True
      then have "filter (alike z) (x # xs) = []" using none by (auto simp: filter_empty_conv)
      with False True IH show ?thesis by simp
    qed (use False IH in simp)
  qed (use 3 K in auto)
qed auto

lemma set_take_drop: "set (take n xs) \<subseteq> set xs" "set (drop n xs) \<subseteq> set xs"
  by (auto dest: in_set_takeD in_set_dropD)

function blocks_ordered :: "nat \<Rightarrow> 'e list \<Rightarrow> bool" where
  "blocks_ordered w xs = (if w = 0 \<or> xs = [] then True
     else ordered (take w xs) \<and> blocks_ordered w (drop w xs))"
  by pat_completeness auto
termination by (relation "measure (\<lambda>(w, xs). length xs)") auto

declare blocks_ordered.simps [simp del]

lemma blocks_ordered_one: "blocks_ordered 1 xs"
proof (induction xs)
  case (Cons x xs)
  then show ?case by (subst blocks_ordered.simps) simp
qed (simp add: blocks_ordered.simps)

lemma blocks_ordered_all: "blocks_ordered w xs \<Longrightarrow> w \<noteq> 0 \<Longrightarrow> length xs \<le> w \<Longrightarrow> ordered xs"
  by (cases "xs = []") (auto simp: blocks_ordered.simps [of w xs])

lemma blocks_ordered_two:
  assumes "blocks_ordered w xs" and "w \<noteq> 0" and "xs \<noteq> []"
  shows "ordered (take w xs)" "ordered (take w (drop w xs))" "blocks_ordered w (drop (w * 2) xs)"
proof -
  from assms have a: "ordered (take w xs)" and b: "blocks_ordered w (drop w xs)"
    by (simp_all add: blocks_ordered.simps [of w xs])
  have "ordered (take w (drop w xs)) \<and> blocks_ordered w (drop w (drop w xs))"
  proof (cases "drop w xs = []")
    case False
    with b assms(2) show ?thesis by (simp add: blocks_ordered.simps [of w "drop w xs"])
  qed (simp add: blocks_ordered.simps [of w])
  with a show "ordered (take w xs)" "ordered (take w (drop w xs))" "blocks_ordered w (drop (w * 2) xs)"
    by (simp_all add: mult_2_right)
qed

lemma length_merge_lists: "length (merge_lists cmp xs ys) = length xs + length ys"
  using mset_merge_lists [of cmp xs ys] by (metis size_mset size_union)

lemma blocks_ordered_merge:
  "w \<noteq> 0 \<Longrightarrow> set xs \<subseteq> K \<Longrightarrow> blocks_ordered w xs \<Longrightarrow> blocks_ordered (w * 2) (merge_blocks cmp w xs)"
proof (induction "length xs" arbitrary: xs rule: less_induct)
  case less
  show ?case
  proof (cases "xs = []")
    case False
    let ?m = "merge_lists cmp (take w xs) (take w (drop w xs))" and ?r = "merge_blocks cmp w (drop (w * 2) xs)"
    note parts = blocks_ordered_two [OF less.prems(3,1) False]
    have K: "set (take w xs) \<subseteq> K" "set (take w (drop w xs)) \<subseteq> K" "set (drop (w * 2) xs) \<subseteq> K"
      using less.prems(2) by (auto dest!: in_set_takeD in_set_dropD)
    have m: "ordered ?m" using ordered_merge [OF K(1,2) parts(1,2)] .
    have r: "blocks_ordered (w * 2) ?r" using less.hyps [OF _ less.prems(1) K(3) parts(3)] False less.prems(1) by simp
    have e: "merge_blocks cmp w xs = ?m @ ?r" using False less.prems(1) by (subst merge_blocks.simps) simp
    have len: "length ?m = min (w * 2) (length xs)" by (simp add: length_merge_lists)
    have nil: "?r = []" if "length xs < w * 2" using that by (simp add: merge_blocks.simps)
    have "take (w * 2) (?m @ ?r) = ?m" and "drop (w * 2) (?m @ ?r) = ?r"
      using len nil by (cases "length xs < w * 2"; simp)+
    with m r show ?thesis unfolding e by (subst blocks_ordered.simps) simp
  qed (simp add: merge_blocks.simps blocks_ordered.simps)
qed

lemma stable_blocks:
  "w \<noteq> 0 \<Longrightarrow> set xs \<subseteq> K \<Longrightarrow> z \<in> K \<Longrightarrow> blocks_ordered w xs \<Longrightarrow>
   filter (alike z) (merge_blocks cmp w xs) = filter (alike z) xs"
proof (induction "length xs" arbitrary: xs rule: less_induct)
  case less
  show ?case
  proof (cases "xs = []")
    case False
    note parts = blocks_ordered_two [OF less.prems(4,1) False]
    have K: "set (take w xs) \<subseteq> K" "set (take w (drop w xs)) \<subseteq> K" "set (drop (w * 2) xs) \<subseteq> K"
      using less.prems(2) by (auto dest!: in_set_takeD in_set_dropD)
    have "filter (alike z) (merge_blocks cmp w xs)
        = filter (alike z) (take w xs) @ filter (alike z) (take w (drop w xs)) @ filter (alike z) (drop (w * 2) xs)"
      using less.hyps [OF _ less.prems(1) K(3) less.prems(3) parts(3)] False less.prems(1)
        stable_merge [OF K(1,2) less.prems(3) parts(1)]
      by (subst merge_blocks.simps) simp
    also have "\<dots> = filter (alike z) (take w xs @ take w (drop w xs) @ drop w (drop w xs))"
      by (simp add: mult_2_right)
    also have "\<dots> = filter (alike z) xs" by (simp only: append_take_drop_id)
    finally show ?thesis .
  qed (simp add: merge_blocks.simps)
qed

lemma merge_widths_sorts:
  "w \<noteq> 0 \<Longrightarrow> set xs \<subseteq> K \<Longrightarrow> blocks_ordered w xs \<Longrightarrow>
   mset (merge_widths cmp xs w) = mset xs \<and> ordered (merge_widths cmp xs w)
   \<and> (\<forall>z \<in> K. filter (alike z) (merge_widths cmp xs w) = filter (alike z) xs)"
proof (induction "length xs - w" arbitrary: xs w rule: less_induct)
  case less
  show ?case
  proof (cases "w < length xs")
    case False
    with less.prems show ?thesis using blocks_ordered_all by (subst (1 2 3) merge_widths.simps) auto
  next
    case True
    let ?ys = "merge_blocks cmp w xs"
    have e: "merge_widths cmp xs w = merge_widths cmp ?ys (w * 2)"
      using True less.prems(1) by (subst merge_widths.simps) (simp add: merge_pass_blocks)
    have m: "mset ?ys = mset xs" using less.prems(1) by (rule mset_merge_blocks)
    then have len: "length ?ys = length xs" and set: "set ?ys = set xs"
      by (metis size_mset, metis set_mset_mset)
    have "mset (merge_widths cmp ?ys (w * 2)) = mset ?ys \<and> ordered (merge_widths cmp ?ys (w * 2))
        \<and> (\<forall>z \<in> K. filter (alike z) (merge_widths cmp ?ys (w * 2)) = filter (alike z) ?ys)"
      using True less.prems set len
      by (intro less.hyps) (auto intro: blocks_ordered_merge)
    with m stable_blocks [OF less.prems(1,2) _ less.prems(3)] show ?thesis unfolding e by auto
  qed
qed

lemma merge_sort:
  assumes "set xs \<subseteq> K"
  shows "mset (merge_widths cmp xs 1) = mset xs"
    and "sorted_wrt (\<lambda>x y. cmp x y \<le> 0) (merge_widths cmp xs 1)"
    and "z \<in> K \<Longrightarrow> filter (\<lambda>x. cmp z x = 0) (merge_widths cmp xs 1) = filter (\<lambda>x. cmp z x = 0) xs"
proof -
  have "alike z = (\<lambda>x. cmp z x = 0)" by (rule ext) (simp add: alike_def)
  with merge_widths_sorts [OF _ assms blocks_ordered_one]
  show "mset (merge_widths cmp xs 1) = mset xs"
    and "sorted_wrt (\<lambda>x y. cmp x y \<le> 0) (merge_widths cmp xs 1)"
    and "z \<in> K \<Longrightarrow> filter (\<lambda>x. cmp z x = 0) (merge_widths cmp xs 1) = filter (\<lambda>x. cmp z x = 0) xs"
    by (auto simp: ordered_def)
qed

end

section \<open>The comparison of row keys\<close>

lemma compareKeys_antisym: "compareKeys ss b a = - compareKeys ss a b"
proof (induction ss a b rule: compareKeys.induct)
  case (1 e ss l left r right)
  then show ?case using compareValues_antisym [of r l] by (simp add: Let_def directed_def)
qed simp_all

lemma directed_trans:
  assumes "directed e (compareValues x y) \<le> 0" and "directed e (compareValues y z) \<le> 0" and "x \<noteq> y" and "y \<noteq> z"
  shows "directed e (compareValues x z) < 0"
proof -
  have n: "compareValues x z \<noteq> 0"
  proof
    assume "compareValues x z = 0"
    then have "z = x" by simp
    moreover have "compareValues x y \<noteq> 0" using assms(3) by simp
    ultimately show False using assms(1,2) compareValues_antisym [of x y] by (simp add: directed_def split: if_splits)
  qed
  show ?thesis
  proof (cases "sort_direction e = Asc")
    case True
    with assms compareValues_trans [of x y z] n show ?thesis by (simp add: directed_def del: compareValues_eq)
  next
    case False
    with assms have "compareValues z y \<le> 0" "compareValues y x \<le> 0"
      using compareValues_antisym [of y z] compareValues_antisym [of x y] by (simp_all add: directed_def)
    with compareValues_trans have "compareValues z x \<le> 0" by blast
    with False n compareValues_antisym [of x z] show ?thesis by (simp add: directed_def del: compareValues_eq)
  qed
qed

lemma directed_zero [simp]: "directed e 0 = 0" "directed e i = 0 \<longleftrightarrow> i = 0"
  by (simp_all add: directed_def)

lemma compareKeys_zero:
  "length a = length ss \<Longrightarrow> length b = length ss \<Longrightarrow> compareKeys ss a b = 0 \<longleftrightarrow> a = b"
  by (induction ss a b rule: compareKeys.induct) (auto simp: Let_def)

lemma compareKeys_trans:
  "length a = length ss \<Longrightarrow> length b = length ss \<Longrightarrow> length c = length ss \<Longrightarrow>
   compareKeys ss a b \<le> 0 \<Longrightarrow> compareKeys ss b c \<le> 0 \<Longrightarrow> compareKeys ss a c \<le> 0"
proof (induction ss arbitrary: a b c)
  case (Cons e ss)
  then obtain x xs y ys z zs where abc: "a = x # xs" "b = y # ys" "c = z # zs"
    by (metis length_Suc_conv)
  have IH: "compareKeys ss xs ys \<le> 0 \<Longrightarrow> compareKeys ss ys zs \<le> 0 \<Longrightarrow> compareKeys ss xs zs \<le> 0"
    using Cons.IH [of xs ys zs] Cons.prems(1-3) abc by simp
  show ?case
  proof (cases "x = y \<or> y = z")
    case True
    with Cons.prems(4,5) abc IH show ?thesis by (auto simp: Let_def split: if_splits)
  next
    case False
    with directed_trans [of e x y z] Cons.prems(4,5) abc
    show ?thesis by (auto simp: Let_def split: if_splits)
  qed
qed simp

interpretation row_keys: row_order "\<lambda>a b. compareKeys ss (snd a) (snd b)" "{e. length (snd e) = length ss}"
  for ss :: "CursorSort list"
proof (unfold_locales, goal_cases)
  case (1 x y)
  show ?case by (rule compareKeys_antisym)
next
  case (2 x y z)
  then show ?case by (intro compareKeys_trans [of "snd x" ss "snd y" "snd z"]) simp_all
qed

lemma keyFor_length: "keyFor ss row = Inr k \<Longrightarrow> length k = length ss"
  unfolding keyFor_def by (rule rlist_length)

lemma assertSafeFieldPath_same: "assertSafeFieldPath (Str f) = Inr g \<Longrightarrow> g = f"
  by (auto simp: rbind_Inr_iff split: if_splits)

lemma cursor_direction_text [simp]: "cursor_direction (Str (direction_text d)) = Inr d"
  by (cases d) (simp_all add: cursor_direction_def direction_text_def)

lemma own_sort_entry:
  "ownCursorValue (sort_entry_value e) ''field'' = Inr (Str (sort_field e))"
  "ownCursorValue (sort_entry_value e) ''direction'' = Inr (Str (direction_text (sort_direction e)))"
  by (simp_all add: ownCursorValue_def sort_entry_value_def js_object_def dataP_def)

lemma sort_entry_same: "cursor_sort_entry (sort_entry_value e) = Inr e' \<Longrightarrow> e' = e"
  by (auto simp: cursor_sort_entry_def rbind_Inr_iff own_sort_entry simp del: assertSafeFieldPath.simps
      dest!: assertSafeFieldPath_same split: if_splits)

lemma sort_entry_accepted:
  "assertSafeFieldPath (Str (sort_field e)) = Inr (sort_field e) \<Longrightarrow> cursor_sort_entry (sort_entry_value e) = Inr e"
  by (simp add: cursor_sort_entry_def own_sort_entry del: assertSafeFieldPath.simps)
    (simp add: sort_entry_value_def js_object_def assertNoCursorAccessorFields_def dataP_def)

lemma cursorArrayValues_js_array [simp]: "cursorArrayValues (js_array vs) = Inr vs"
proof -
  have names: "\<forall>k \<in> set (own_names (js_array vs)). k = ''length'' \<or> isArrayIndexProperty k (length vs)"
    by (auto simp: js_array_def index_names_def isArrayIndexProperty_def)
  have "rlist (\<lambda>slot. case slot of
            None \<Rightarrow> Inl ActiveTsConfigurationError
          | Some p \<Rightarrow> if \<not> is_data p then Inl ActiveTsConfigurationError else Inr (prop_val p))
          (map (\<lambda>v. Some (dataP v)) vs) = Inr vs"
    by (induction vs) (simp_all add: dataP_def)
  with names show ?thesis
    by (auto simp: cursorArrayValues_def assertDenseArrayItems_def js_array_def reach_Inr_iff
        rbind_Inr_iff dataP_def)
qed

lemma sanitize_same:
  assumes "sanitizeCursorSortList (sort_value ss) = Inr ss'"
  shows "ss' = ss"
proof -
  from assms have "rlist cursor_sort_entry (map sort_entry_value ss) = Inr ss'"
    by (simp add: sanitizeCursorSortList_def sort_value_def)
  then show ?thesis
    by (induction ss arbitrary: ss') (auto simp: rbind_Inr_iff dest: sort_entry_same)
qed

lemma sanitize_accepted:
  assumes "\<forall>e \<in> set ss. assertSafeFieldPath (Str (sort_field e)) = Inr (sort_field e)"
  shows "sanitizeCursorSortList (sort_value ss) = Inr ss"
proof -
  from assms have "rlist cursor_sort_entry (map sort_entry_value ss) = Inr ss"
    by (induction ss) (simp_all add: sort_entry_accepted)
  then show ?thesis by (simp add: sanitizeCursorSortList_def sort_value_def)
qed

lemma sort_result:
  assumes "sortMemoryRows rows ss = Inr out"
  obtains source where "rlist (\<lambda>row. rbind (keyFor ss row) (\<lambda>key. Inr (row, key))) rows = Inr source"
    and "out = map fst (merge_widths (\<lambda>a b. compareKeys ss (snd a) (snd b)) source 1)"
  using assms
  by (auto simp: sortMemoryRows_def prepareRowSort_def rbind_Inr_iff dest!: sanitize_same)

lemma keyed_source:
  assumes "rlist (\<lambda>row. rbind (keyFor ss row) (\<lambda>key. Inr (row, key))) rows = Inr source"
  shows "map fst source = rows \<and> (\<forall>e \<in> set source. keyFor ss (fst e) = Inr (snd e) \<and> length (snd e) = length ss)"
  using assms
proof (induction rows arbitrary: source)
  case (Cons row rows)
  then obtain k es where k: "keyFor ss row = Inr k" and source: "source = (row, k) # es"
      and es: "rlist (\<lambda>row. rbind (keyFor ss row) (\<lambda>key. Inr (row, key))) rows = Inr es"
    by (auto simp: rbind_Inr_iff)
  from Cons.IH [OF es] k keyFor_length [OF k] show ?case unfolding source by simp
qed simp

lemma sorted_rows:
  assumes "sortMemoryRows rows ss = Inr out"
  shows "mset out = mset rows
    \<and> sorted_wrt (\<lambda>a b. compareKeys ss (projr (keyFor ss a)) (projr (keyFor ss b)) \<le> 0) out
    \<and> (\<forall>row \<in> set out. \<exists>k. keyFor ss row = Inr k \<and> length k = length ss)"
proof -
  obtain source where s: "rlist (\<lambda>row. rbind (keyFor ss row) (\<lambda>key. Inr (row, key))) rows = Inr source"
      and out: "out = map fst (merge_widths (\<lambda>a b. compareKeys ss (snd a) (snd b)) source 1)"
    using assms by (rule sort_result)
  let ?m = "merge_widths (\<lambda>a b. compareKeys ss (snd a) (snd b)) source 1"
  note src = keyed_source [OF s]
  then have K: "set source \<subseteq> {e. length (snd e) = length ss}" by auto
  note ms = row_keys.merge_sort [OF K]
  have "mset out = image_mset fst (mset ?m)" by (simp add: out)
  also have "\<dots> = mset (map fst source)" by (simp only: ms(1) mset_map)
  finally have perm: "mset out = mset rows" using src by simp
  have m: "set ?m = set source" using ms(1) by (rule mset_eq_setD)
  have key: "keyFor ss (fst e) = Inr (snd e) \<and> length (snd e) = length ss" if "e \<in> set ?m" for e
    using that src m by simp
  from ms(2) have "sorted_wrt (\<lambda>a b. compareKeys ss (projr (keyFor ss a)) (projr (keyFor ss b)) \<le> 0) out"
    unfolding out sorted_wrt_map by (rule sorted_wrt_mono_rel [rotated]) (simp add: key)
  with perm key show ?thesis by (auto simp: out)
qed

section \<open>Properties\<close>

text \<open>C7. The memory store's merge sort is a stable sort: when it returns, the result is a permutation
  of the rows, ordered by the comparison of their keys, and rows with equal keys keep their order.\<close>

theorem sort_rows_stable:
  assumes "sortMemoryRows rows ss = Inr out"
  shows "mset out = mset rows
    \<and> sorted_wrt (\<lambda>a b. compareKeys ss (projr (keyFor ss a)) (projr (keyFor ss b)) \<le> 0) out
    \<and> (\<forall>k. filter (\<lambda>row. keyFor ss row = Inr k) out = filter (\<lambda>row. keyFor ss row = Inr k) rows)"
proof (intro conjI allI)
  obtain source where s: "rlist (\<lambda>row. rbind (keyFor ss row) (\<lambda>key. Inr (row, key))) rows = Inr source"
      and out: "out = map fst (merge_widths (\<lambda>a b. compareKeys ss (snd a) (snd b)) source 1)"
    using assms by (rule sort_result)
  let ?m = "merge_widths (\<lambda>a b. compareKeys ss (snd a) (snd b)) source 1"
  note src = keyed_source [OF s]
  then have K: "set source \<subseteq> {e. length (snd e) = length ss}" by auto
  note ms = row_keys.merge_sort [OF K]
  show "mset out = mset rows" "sorted_wrt (\<lambda>a b. compareKeys ss (projr (keyFor ss a)) (projr (keyFor ss b)) \<le> 0) out"
    using sorted_rows [OF assms] by simp_all
  have m: "set ?m = set source" using ms(1) by (rule mset_eq_setD)
  have key: "keyFor ss (fst e) = Inr (snd e) \<and> length (snd e) = length ss" if "e \<in> set ?m" for e
    using that src m by simp
  fix k
  have same: "filter (\<lambda>row. keyFor ss row = Inr k) (map fst es) = map fst (filter (\<lambda>e. compareKeys ss k (snd e) = 0) es)"
    if "\<forall>e \<in> set es. keyFor ss (fst e) = Inr (snd e) \<and> length (snd e) = length ss" "length k = length ss" for es
    using that by (induction es) (auto simp: compareKeys_zero)
  show "filter (\<lambda>row. keyFor ss row = Inr k) out = filter (\<lambda>row. keyFor ss row = Inr k) rows"
  proof (cases "length k = length ss")
    case True
    have "filter (\<lambda>e. compareKeys ss k (snd e) = 0) ?m = filter (\<lambda>e. compareKeys ss k (snd e) = 0) source"
      using ms(3) [of "(undefined, k)"] True by simp
    then show ?thesis using same [OF _ True, of ?m] same [OF _ True, of source] src key out by simp
  next
    case False
    then have "filter (\<lambda>row. keyFor ss row = Inr k) xs = []" for xs
      by (auto simp: filter_empty_conv dest: keyFor_length)
    then show ?thesis by simp
  qed
qed

theorem sort_rows_stable_witness:
  "sortMemoryRows [js_object [(''n'', js_int 2), (''a'', js_int 0)], js_object [(''n'', js_int 1)],
      js_object [(''n'', js_int 2), (''a'', js_int 9)]] [\<lparr>sort_field = ''n'', sort_direction = Desc\<rparr>]
   = Inr [js_object [(''n'', js_int 2), (''a'', js_int 0)], js_object [(''n'', js_int 2), (''a'', js_int 9)],
      js_object [(''n'', js_int 1)]]
   \<and> mset [js_object [(''n'', js_int 2), (''a'', js_int 0)], js_object [(''n'', js_int 2), (''a'', js_int 9)],
      js_object [(''n'', js_int 1)]]
   = mset [js_object [(''n'', js_int 2), (''a'', js_int 0)], js_object [(''n'', js_int 1)],
      js_object [(''n'', js_int 2), (''a'', js_int 9)]]"
proof -
  have r: "sortMemoryRows [js_object [(''n'', js_int 2), (''a'', js_int 0)], js_object [(''n'', js_int 1)],
      js_object [(''n'', js_int 2), (''a'', js_int 9)]] [\<lparr>sort_field = ''n'', sort_direction = Desc\<rparr>]
   = Inr [js_object [(''n'', js_int 2), (''a'', js_int 0)], js_object [(''n'', js_int 2), (''a'', js_int 9)],
      js_object [(''n'', js_int 1)]]" by code_simp
  from r sort_rows_stable [OF r] show ?thesis by blast
qed

end
