(* ===== verification/StorePlan.thy ===== *)
theory StorePlan
  imports RowSort
begin

text \<open>
  \<open>src/core/store-options.ts\<close>, \<open>native-payload.ts\<close>, \<open>plan-meta.ts\<close> and \<open>capabilities.ts\<close>: the checks every
  store adapter applies to untrusted options and query plans, and the normal form of a plan that mixes
  \<open>where\<close> with \<open>or\<close>. Plans are values built by a caller; the internal symbol by which the field codecs
  mark a plan of their own is a symbol like any other here, so a plan that carries one is rejected.
\<close>

section \<open>Payload clones\<close>

fun cloneNativePayload :: "jsval \<Rightarrow> jsval res" where
  "cloneNativePayload (Obj c ps ss) =
     (case c of
        CDate t \<Rightarrow>
          if ss \<noteq> [] \<or> own_names (Obj c ps ss) \<noteq> [] then Inl ActiveTsValidationError
          else Inr (Obj (CDate t) [] [])
      | CRegExp \<Rightarrow>
          if ss \<noteq> [] \<or> (\<exists>k \<in> set (own_names (Obj c ps ss)). k \<noteq> ''lastIndex'') then Inl ActiveTsValidationError
          else Inr (Obj CRegExp [] [])
      | CBytes bs \<Rightarrow>
          if ss \<noteq> [] \<or> (\<exists>k \<in> set (own_names (Obj c ps ss)). \<not> isArrayIndexProperty k (length bs))
          then Inl ActiveTsValidationError
          else structured_clone (Obj c ps ss)
      | CMap \<Rightarrow> Inl ActiveTsValidationError
      | CSet \<Rightarrow> Inl ActiveTsValidationError
      | CInstance _ \<Rightarrow> Inl ActiveTsValidationError
      | _ \<Rightarrow>
          if ss \<noteq> [] then Inl ActiveTsValidationError
          else rbind (rlist (\<lambda>(key, p).
                if \<not> is_data p then Inl ActiveTsValidationError
                else if \<not> enumerable p then Inl ActiveTsValidationError
                else rbind (cloneNativePayload (prop_val p)) (\<lambda>v. Inr (key, dataP v))) ps)
            (\<lambda>qs. Inr (Obj CPlain qs [])))"
| "cloneNativePayload (Arr es ps ss) =
     (if ss \<noteq> [] then Inl ActiveTsValidationError
      else rbind (assertDenseArrayItems (Arr es ps ss)) (\<lambda>_.
        rbind (reach (dense_own_name (Arr es ps ss)) (own_names (Arr es ps ss))) (\<lambda>_.
        rbind (rlist (\<lambda>slot. case slot of
            None \<Rightarrow> Inl ActiveTsValidationError
          | Some p \<Rightarrow>
              if \<not> is_data p then Inl ActiveTsValidationError
              else rbind (cloneNativePayload (prop_val p)) (\<lambda>v. Inr (Some (dataP v)))) es)
        (\<lambda>fs. Inr (Arr fs [] [])))))"
| "cloneNativePayload v = Inr v"

definition clonePlanMeta :: "jsval \<Rightarrow> jsval option res" where
  "clonePlanMeta meta =
     (if meta = Undef then Inr None
      else if \<not> is_object meta \<or> is_array meta then Inl ActiveTsValidationError
      else if \<not> is_plain_object meta then Inl ActiveTsValidationError
      else if own_symbols meta \<noteq> [] then Inl ActiveTsValidationError
      else rbind (rlist (\<lambda>(key, p).
            if \<not> is_data p then Inl ActiveTsValidationError
            else if \<not> enumerable p then Inl ActiveTsValidationError
            else rbind (assertSafeFieldPath (Str key)) (\<lambda>safeKey.
              rbind (cloneNativePayload (prop_val p)) (\<lambda>v. Inr (safeKey, dataP v)))) (extras meta))
        (\<lambda>qs. Inr (Some (Obj CPlain qs []))))"

section \<open>Options\<close>

definition assertKnownOptionKeys :: "jsval \<Rightarrow> string list \<Rightarrow> unit res" where
  "assertKnownOptionKeys record allowedKeys =
     reach (\<lambda>property. if property \<notin> set allowedKeys then Inl ActiveTsValidationError else Inr ())
       (own_names record)"

definition ownOptionValue :: "jsval \<Rightarrow> string \<Rightarrow> jsval res" where
  "ownOptionValue record key = (case own_prop record key of
     None \<Rightarrow> Inr Undef
   | Some p \<Rightarrow>
       if \<not> is_data p then Inl ActiveTsValidationError
       else if \<not> enumerable p then Inl ActiveTsValidationError
       else Inr (prop_val p))"

definition assertPlainOptions :: "jsval \<Rightarrow> string list \<Rightarrow> jsval option res" where
  "assertPlainOptions options allowedKeys =
     (if options = Undef then Inr None
      else if \<not> is_object options \<or> is_array options then Inl ActiveTsValidationError
      else if \<not> is_plain_object options then Inl ActiveTsValidationError
      else if own_symbols options \<noteq> [] then Inl ActiveTsValidationError
      else rbind (assertKnownOptionKeys options allowedKeys) (\<lambda>_. Inr (Some options)))"

definition normalizeFieldPathList :: "jsval list \<Rightarrow> string list res" where
  "normalizeFieldPathList paths = rlist assertSafeFieldPath paths"

record StoreReadOptions =
  ro_select :: "string list option"
  ro_native :: "jsval option"
  ro_meta :: "jsval option"

definition normalizeStoreReadOptions :: "jsval \<Rightarrow> StoreReadOptions res" where
  "normalizeStoreReadOptions options =
     rbind (assertPlainOptions options [''select'', ''native'', ''meta'']) (\<lambda>plain. case plain of
       None \<Rightarrow> Inr \<lparr>ro_select = None, ro_native = None, ro_meta = None\<rparr>
     | Some p \<Rightarrow>
       rbind (ownOptionValue p ''select'') (\<lambda>select.
       rbind (if select = Undef then Inr None
              else if \<not> is_array select then Inl ActiveTsValidationError
              else rbind (rbind (snapshotArrayInput select) normalizeFieldPathList) (\<lambda>fs. Inr (Some fs)))
         (\<lambda>safeSelect.
       rbind (ownOptionValue p ''native'') (\<lambda>native.
       rbind (if native = Undef then Inr None
              else rbind (cloneNativePayload native) (\<lambda>n. Inr (Some n))) (\<lambda>safeNative.
       rbind (ownOptionValue p ''meta'') (\<lambda>meta.
       rbind (clonePlanMeta meta) (\<lambda>safeMeta.
       Inr \<lparr>ro_select = safeSelect, ro_native = safeNative, ro_meta = safeMeta\<rparr>)))))))"

definition rejectUnsupportedStoreReadOptions :: "jsval \<Rightarrow> StoreReadOptions res" where
  "rejectUnsupportedStoreReadOptions options =
     rbind (normalizeStoreReadOptions options) (\<lambda>normalized.
       if ro_select normalized \<noteq> None then Inl ActiveTsConfigurationError
       else if ro_native normalized \<noteq> None then Inl ActiveTsConfigurationError
       else if ro_meta normalized \<noteq> None then Inl ActiveTsConfigurationError
       else Inr normalized)"

record StoreWriteOptions =
  wo_expectedVersion :: "jsnum option"
  wo_meta :: "jsval option"

definition normalizeStoreWriteOptions :: "jsval \<Rightarrow> StoreWriteOptions res" where
  "normalizeStoreWriteOptions options =
     rbind (assertPlainOptions options [''expectedVersion'', ''meta'']) (\<lambda>plain. case plain of
       None \<Rightarrow> Inr \<lparr>wo_expectedVersion = None, wo_meta = None\<rparr>
     | Some p \<Rightarrow>
       rbind (ownOptionValue p ''expectedVersion'') (\<lambda>expectedVersion.
       rbind (case expectedVersion of
                Undef \<Rightarrow> Inr None
              | Num n \<Rightarrow> if \<not> is_safe_integer n \<or> num_value n < 0 then Inl ActiveTsValidationError else Inr (Some n)
              | _ \<Rightarrow> Inl ActiveTsValidationError) (\<lambda>version.
       rbind (ownOptionValue p ''meta'') (\<lambda>meta.
       rbind (clonePlanMeta meta) (\<lambda>safeMeta.
       Inr \<lparr>wo_expectedVersion = version, wo_meta = safeMeta\<rparr>)))))"

definition rejectUnsupportedStoreWriteMetadata :: "StoreWriteOptions \<Rightarrow> StoreWriteOptions res" where
  "rejectUnsupportedStoreWriteMetadata options =
     (if wo_meta options \<noteq> None then Inl ActiveTsConfigurationError else Inr options)"

definition rejectUnsupportedStoreWriteOptions :: "jsval \<Rightarrow> StoreWriteOptions res" where
  "rejectUnsupportedStoreWriteOptions options =
     rbind (normalizeStoreWriteOptions options) (\<lambda>normalized.
       if wo_expectedVersion normalized \<noteq> None then Inl ActiveTsConfigurationError
       else rejectUnsupportedStoreWriteMetadata normalized)"

record StoreTransactionOptions =
  to_isolation :: "string option"
  to_readOnly :: "bool option"
  to_timeoutMs :: "jsnum option"
  to_native :: "jsval option"

definition normalizeStoreTransactionOptions :: "jsval \<Rightarrow> StoreTransactionOptions res" where
  "normalizeStoreTransactionOptions options =
     rbind (assertPlainOptions options [''isolation'', ''readOnly'', ''timeoutMs'', ''native'']) (\<lambda>plain.
     case plain of
       None \<Rightarrow> Inr \<lparr>to_isolation = None, to_readOnly = None, to_timeoutMs = None, to_native = None\<rparr>
     | Some p \<Rightarrow>
       rbind (ownOptionValue p ''isolation'') (\<lambda>isolation.
       rbind (case isolation of
                Undef \<Rightarrow> Inr None
              | Str s \<Rightarrow> if s \<in> {''readCommitted'', ''repeatableRead'', ''serializable''} then Inr (Some s)
                         else Inl ActiveTsValidationError
              | _ \<Rightarrow> Inl ActiveTsValidationError) (\<lambda>safeIsolation.
       rbind (ownOptionValue p ''readOnly'') (\<lambda>readOnly.
       rbind (case readOnly of
                Undef \<Rightarrow> Inr None
              | Bool b \<Rightarrow> Inr (Some b)
              | _ \<Rightarrow> Inl ActiveTsValidationError) (\<lambda>safeReadOnly.
       rbind (rbind (ownOptionValue p ''timeoutMs'') assertSafeLimit) (\<lambda>timeoutMs.
       rbind (ownOptionValue p ''native'') (\<lambda>native.
       rbind (if native = Undef then Inr None
              else rbind (cloneNativePayload native) (\<lambda>n. Inr (Some n))) (\<lambda>safeNative.
       Inr \<lparr>to_isolation = safeIsolation, to_readOnly = safeReadOnly, to_timeoutMs = timeoutMs,
            to_native = safeNative\<rparr>))))))))"

section \<open>Plan parts\<close>

definition assertPlainRecord :: "jsval \<Rightarrow> jsval res" where
  "assertPlainRecord value =
     (if \<not> is_object value \<or> is_array value then Inl ActiveTsValidationError
      else if \<not> is_plain_object value then Inl ActiveTsValidationError
      else if own_symbols value \<noteq> [] then Inl ActiveTsValidationError
      else rbind (reach (\<lambda>property. case own_prop value property of
            None \<Rightarrow> Inl ActiveTsValidationError
          | Some p \<Rightarrow>
              if \<not> is_data p then Inl ActiveTsValidationError
              else if \<not> enumerable p then Inl ActiveTsValidationError
              else Inr ()) (own_names value)) (\<lambda>_. Inr value))"

definition arrayDataValues :: "jsval \<Rightarrow> jsval list res" where
  "arrayDataValues value =
     (if own_symbols value \<noteq> [] then Inl ActiveTsValidationError
      else rbind (assertDenseArrayItems value) (\<lambda>_.
        rlist (\<lambda>slot. case slot of
            None \<Rightarrow> Inl ActiveTsValidationError
          | Some p \<Rightarrow> if \<not> is_data p then Inl ActiveTsValidationError else Inr (prop_val p))
          (slots value)))"

definition arrayOrEmpty :: "jsval \<Rightarrow> jsval list res" where
  "arrayOrEmpty value =
     (if value = Undef then Inr []
      else if \<not> is_array value then Inl ActiveTsValidationError
      else arrayDataValues value)"

definition optionalArray :: "jsval \<Rightarrow> jsval list option res" where
  "optionalArray value =
     (if value = Undef then Inr None
      else if \<not> is_array value then Inl ActiveTsValidationError
      else rbind (arrayDataValues value) (\<lambda>vs. Inr (Some vs)))"

definition WHERE_ENTRY_KEYS :: "string list" where
  "WHERE_ENTRY_KEYS = [''field'', ''op'', ''value'', ''value2'']"

definition SORT_SPEC_KEYS :: "string list" where
  "SORT_SPEC_KEYS = [''field'', ''direction'']"

definition NATIVE_QUERY_KEYS :: "string list" where
  "NATIVE_QUERY_KEYS = [''adapter'', ''payload'']"

definition QUERY_PLAN_KEYS :: "string list" where
  "QUERY_PLAN_KEYS = [''where'', ''or'', ''sort'', ''limit'', ''offset'', ''cursor'', ''select'', ''include'',
     ''native'', ''meta'']"

definition normalizeWhereEntry :: "jsval \<Rightarrow> where_entry res" where
  "normalizeWhereEntry w =
     rbind (assertPlainRecord w) (\<lambda>record.
     rbind (assertKnownOptionKeys record WHERE_ENTRY_KEYS) (\<lambda>_.
     rbind (rbind (ownOptionValue record ''field'') assertSafeFieldPath) (\<lambda>field.
     rbind (ownOptionValue record ''op'') (\<lambda>opv.
     rbind (case opv of
              Str s \<Rightarrow> if isOperator s then Inr s else Inl ActiveTsValidationError
            | _ \<Rightarrow> Inl ActiveTsValidationError) (\<lambda>opn.
     rbind (ownOptionValue record ''value'') (\<lambda>operand.
     rbind (ownOptionValue record ''value2'') (\<lambda>upper.
     rbind (assertValidWhereOperand opv operand upper) (\<lambda>_.
     if opn \<noteq> ''between'' \<and> has_own record ''value2'' then Inl ActiveTsValidationError
     else rbind (cloneQueryOperand operand) (\<lambda>v1.
       rbind (if has_own record ''value2'' then cloneQueryOperand upper else Inr Undef) (\<lambda>v2.
       Inr \<lparr>w_field = field, w_op = opn, w_value = v1, w_value2 = v2\<rparr>))))))))))"

definition normalizeWhereEntries :: "jsval \<Rightarrow> where_entry list res" where
  "normalizeWhereEntries value = rbind (arrayOrEmpty value) (rlist normalizeWhereEntry)"

definition normalizeStoreSort :: "jsval \<Rightarrow> CursorSort res" where
  "normalizeStoreSort s = (case s of
     Str text \<Rightarrow>
       if starts_with text ''-'' then
         rbind (assertSafeFieldPath (Str (drop 1 text))) (\<lambda>f. Inr \<lparr>sort_field = f, sort_direction = Desc\<rparr>)
       else rbind (assertSafeFieldPath s) (\<lambda>f. Inr \<lparr>sort_field = f, sort_direction = Asc\<rparr>)
   | _ \<Rightarrow>
       rbind (assertPlainRecord s) (\<lambda>record.
       rbind (assertKnownOptionKeys record SORT_SPEC_KEYS) (\<lambda>_.
       rbind (ownOptionValue record ''direction'') (\<lambda>rawDirection.
       rbind (if rawDirection \<noteq> Undef \<and> rawDirection \<noteq> Str ''asc'' \<and> rawDirection \<noteq> Str ''desc''
              then Inl ActiveTsValidationError
              else Inr (if rawDirection = Str ''desc'' then Desc else Asc)) (\<lambda>direction.
       rbind (rbind (ownOptionValue record ''field'') assertSafeFieldPath) (\<lambda>f.
       Inr \<lparr>sort_field = f, sort_direction = direction\<rparr>))))))"

definition normalizeStoreSortList :: "jsval \<Rightarrow> CursorSort list res" where
  "normalizeStoreSortList value = rbind (arrayOrEmpty value) (rlist normalizeStoreSort)"

definition normalizeIncludeSpecs :: "jsval \<Rightarrow> string list res" where
  "normalizeIncludeSpecs value = rbind (arrayOrEmpty value) normalizeFieldPathList"

record QueryNative =
  n_adapter :: "string option"
  n_payload :: jsval

definition normalizeStoreNative :: "jsval \<Rightarrow> QueryNative option res" where
  "normalizeStoreNative native =
     (if native = Undef then Inr None
      else rbind (assertPlainRecord native) (\<lambda>record.
        rbind (assertKnownOptionKeys record NATIVE_QUERY_KEYS) (\<lambda>_.
        if \<not> has_own record ''payload'' then Inl ActiveTsValidationError
        else rbind (ownOptionValue record ''adapter'') (\<lambda>adapter.
        rbind (ownOptionValue record ''payload'') (\<lambda>payload.
        if payload = Undef then Inl ActiveTsValidationError
        else rbind (if adapter = Undef then Inr None
               else rbind (assertSafeSchemaIdentifier adapter) (\<lambda>a. Inr (Some a))) (\<lambda>safeAdapter.
          rbind (cloneNativePayload payload) (\<lambda>safePayload.
          Inr (Some \<lparr>n_adapter = safeAdapter, n_payload = safePayload\<rparr>))))))))"

section \<open>Branches\<close>

lemma arrayDataValues_slots:
  assumes "arrayDataValues v = Inr items" and "x \<in> set items"
  shows "\<exists>p. Some p \<in> set (slots v) \<and> x = prop_val p"
proof -
  from assms(1) have "list_all2 (\<lambda>slot y. (case slot of
            None \<Rightarrow> Inl ActiveTsValidationError
          | Some p \<Rightarrow> if \<not> is_data p then Inl ActiveTsValidationError else Inr (prop_val p)) = Inr y)
       (slots v) items"
    by (auto simp: arrayDataValues_def rbind_Inr_iff rlist_Inr_iff split: if_splits)
  with assms(2) obtain i where i: "i < length (slots v)" "x = items ! i"
      and "(case slots v ! i of
            None \<Rightarrow> Inl ActiveTsValidationError
          | Some p \<Rightarrow> if \<not> is_data p then Inl ActiveTsValidationError else Inr (prop_val p)) = Inr (items ! i)"
    by (auto simp: list_all2_conv_all_nth in_set_conv_nth)
  then have "\<exists>p. slots v ! i = Some p \<and> x = prop_val p" by (auto split: option.splits if_splits)
  with i(1) show ?thesis by (metis nth_mem)
qed

lemma arrayOrEmpty_size:
  assumes "arrayOrEmpty v = Inr items" and "x \<in> set items"
  shows "size x < size v"
proof -
  from assms have "arrayDataValues v = Inr items" by (auto simp: arrayOrEmpty_def split: if_splits)
  from arrayDataValues_slots [OF this assms(2)] obtain p where "Some p \<in> set (slots v)" "x = prop_val p"
    by blast
  then show ?thesis by (cases v) (auto dest!: size_slot)
qed

lemma ownOptionValue_size: "ownOptionValue v k = Inr x \<Longrightarrow> x \<noteq> Undef \<Longrightarrow> size x < size v"
  by (auto simp: ownOptionValue_def dest: own_prop_size split: option.splits if_splits)

definition branch_is_bare :: "jsval \<Rightarrow> unit res" where
  "branch_is_bare record =
     rbind (rbind (ownOptionValue record ''sort'') arrayOrEmpty) (\<lambda>branchSort.
     if branchSort \<noteq> [] then Inl ActiveTsValidationError
     else rbind (rbind (ownOptionValue record ''include'') arrayOrEmpty) (\<lambda>branchInclude.
       if branchInclude \<noteq> [] then Inl ActiveTsValidationError
       else reach (\<lambda>property. rbind (ownOptionValue record property) (\<lambda>v.
              if v \<noteq> Undef then Inl ActiveTsValidationError else Inr ()))
            [''limit'', ''offset'', ''cursor'', ''select'', ''native'', ''meta'']))"

function normalizeStoreQueryBranch :: "jsval \<Rightarrow> plan res" where
  "normalizeStoreQueryBranch p =
     rbind (assertPlainRecord p) (\<lambda>_.
     rbind (assertKnownOptionKeys p QUERY_PLAN_KEYS) (\<lambda>_.
     rbind (branch_is_bare p) (\<lambda>_.
     rbind (rbind (ownOptionValue p ''where'') normalizeWhereEntries) (\<lambda>ws.
     rbind (ownOptionValue p ''or'') (\<lambda>orv.
     rbind (arrayOrEmpty orv) (\<lambda>branches.
     rbind (rlist normalizeStoreQueryBranch branches) (\<lambda>os.
     if ws = [] \<and> os = [] then Inl ActiveTsValidationError else Inr (Plan ws os))))))))"
  by pat_completeness auto
termination
proof (relation "measure size")
  fix p orv branches z and a b c :: unit and d ws
  assume o': "ownOptionValue p ''or'' = Inr orv" and a: "arrayOrEmpty orv = Inr branches" and z: "z \<in> set branches"
  have "orv \<noteq> Undef" using a z by (auto simp: arrayOrEmpty_def)
  with o' have "size orv < size p" by (rule ownOptionValue_size)
  with arrayOrEmpty_size [OF a z] show "(z, p) \<in> measure size" by simp
qed simp

declare normalizeStoreQueryBranch.simps [simp del]

definition normalizeStoreQueryBranches :: "jsval \<Rightarrow> plan list res" where
  "normalizeStoreQueryBranches value = rbind (arrayOrEmpty value) (rlist normalizeStoreQueryBranch)"

section \<open>Equality of operands\<close>

text \<open>\<open>isDeepStrictEqual\<close> of Node's \<open>util\<close>, on values without symbol-keyed properties (operands are
  structured clones): primitives by \<open>Object.is\<close>, objects of the same class by their enumerable
  properties in any order, arrays slot by slot.\<close>

lemma size_zip_left [termination_simp]:
  "(Some p, f) \<in> set (zip es fs) \<Longrightarrow> size (prop_val p) < Suc (size_list (size_option size) es + m + l)"
  by (drule set_zip_leftD, rule size_slot_left)

fun isDeepStrictEqual :: "jsval \<Rightarrow> jsval \<Rightarrow> bool" where
  "isDeepStrictEqual (Obj c ps ss) b = (case b of
     Obj d qs ts \<Rightarrow> c = d
       \<and> list_all (\<lambda>(k, p). case map_of (filter (\<lambda>(k, q). enumerable q) qs) k of
            None \<Rightarrow> False
          | Some q \<Rightarrow> isDeepStrictEqual (prop_val p) (prop_val q)) (filter (\<lambda>(k, p). enumerable p) ps)
       \<and> list_all (\<lambda>(k, q). k \<in> fst ` set (filter (\<lambda>(k, p). enumerable p) ps)) (filter (\<lambda>(k, q). enumerable q) qs)
   | _ \<Rightarrow> False)"
| "isDeepStrictEqual (Arr es ps ss) b = (case b of
     Arr fs qs ts \<Rightarrow> length es = length fs
       \<and> list_all (\<lambda>(e, f). case e of
            None \<Rightarrow> f = None
          | Some p \<Rightarrow> (case f of None \<Rightarrow> False | Some q \<Rightarrow> isDeepStrictEqual (prop_val p) (prop_val q))) (zip es fs)
       \<and> list_all (\<lambda>(k, p). case map_of (filter (\<lambda>(k, q). enumerable q) qs) k of
            None \<Rightarrow> False
          | Some q \<Rightarrow> isDeepStrictEqual (prop_val p) (prop_val q)) (filter (\<lambda>(k, p). enumerable p) ps)
       \<and> list_all (\<lambda>(k, q). k \<in> fst ` set (filter (\<lambda>(k, p). enumerable p) ps)) (filter (\<lambda>(k, q). enumerable q) qs)
   | _ \<Rightarrow> False)"
| "isDeepStrictEqual a b = object_is a b"

definition sameWhereEntry :: "where_entry \<Rightarrow> where_entry \<Rightarrow> bool" where
  "sameWhereEntry left right =
     (w_field left = w_field right \<and> w_op left = w_op right
      \<and> isDeepStrictEqual (w_value left) (w_value right)
      \<and> isDeepStrictEqual (w_value2 left) (w_value2 right))"

definition hasMatchingWhereEntry :: "where_entry list \<Rightarrow> where_entry \<Rightarrow> bool" where
  "hasMatchingWhereEntry entries constraint = (\<exists>e \<in> set entries. sameWhereEntry e constraint)"

definition cloneWhereEntry :: "where_entry \<Rightarrow> where_entry res" where
  "cloneWhereEntry entry =
     rbind (cloneQueryOperand (w_value entry)) (\<lambda>v.
     rbind (if w_value2 entry = Undef then Inr Undef else cloneQueryOperand (w_value2 entry)) (\<lambda>v2.
     Inr (entry\<lparr>w_value := v, w_value2 := v2\<rparr>)))"

definition cloneWhereEntries :: "where_entry list \<Rightarrow> where_entry list res" where
  "cloneWhereEntries entries = rlist cloneWhereEntry entries"

section \<open>Mixed plans\<close>

definition mergeWhereConstraints :: "where_entry list \<Rightarrow> where_entry list \<Rightarrow> where_entry list res" where
  "mergeWhereConstraints constraints ws =
     rbind (cloneWhereEntries ws) (\<lambda>merged.
     rbind (fold (\<lambda>constraint acc. rbind acc (\<lambda>additions.
         if \<not> hasMatchingWhereEntry additions constraint \<and> \<not> hasMatchingWhereEntry merged constraint
         then rbind (cloneWhereEntry constraint) (\<lambda>c. Inr (additions @ [c]))
         else Inr additions)) constraints (Inr []))
     (\<lambda>additions. Inr (additions @ merged)))"

fun constrainOrBranch :: "where_entry list \<Rightarrow> plan \<Rightarrow> plan res" where
  "constrainOrBranch constraints (Plan ws os) =
     rbind (if ws \<noteq> [] \<or> os = [] then mergeWhereConstraints constraints ws else Inr []) (\<lambda>ws'.
     rbind (rlist (constrainOrBranch constraints) os) (\<lambda>os'.
     Inr (Plan ws' os')))"

definition normalizeMixedOrPlan :: "plan \<Rightarrow> plan res" where
  "normalizeMixedOrPlan p =
     (if p_or p = [] \<or> p_where p = [] then Inr p
      else rbind (cloneWhereEntries (p_where p)) (\<lambda>constraints.
        rbind (rlist (constrainOrBranch constraints) (p_or p)) (\<lambda>os. Inr (Plan [] os))))"

fun collectWhereEntries :: "plan \<Rightarrow> where_entry list" where
  "collectWhereEntries (Plan ws os) = ws @ concat (map collectWhereEntries os)"

section \<open>Query plans\<close>

record QueryPlan =
  q_filter :: plan
  q_sort :: "CursorSort list"
  q_limit :: "jsnum option"
  q_offset :: "jsnum option"
  q_cursor :: "string option"
  q_select :: "string list option"
  q_include :: "string list"
  q_native :: "QueryNative option"
  q_meta :: "jsval option"

definition appendStableLimitSort :: "QueryPlan \<Rightarrow> jsval \<Rightarrow> QueryPlan res" where
  "appendStableLimitSort p idField =
     (if q_limit p = None \<or> q_sort p = [] then Inr p
      else if \<exists>e \<in> set (q_sort p). Str (sort_field e) = idField then Inr p
      else rbind (assertSafeFieldPath idField) (\<lambda>f.
        Inr (p\<lparr>q_sort := q_sort p @ [\<lparr>sort_field = f, sort_direction = Asc\<rparr>]\<rparr>)))"

definition normalizeStoreQueryPlan :: "jsval \<Rightarrow> string \<Rightarrow> QueryPlan res" where
  "normalizeStoreQueryPlan p idField =
     rbind (assertPlainRecord p) (\<lambda>record.
     rbind (assertKnownOptionKeys record QUERY_PLAN_KEYS) (\<lambda>_.
     rbind (rbind (ownOptionValue record ''select'') optionalArray) (\<lambda>rawSelect.
     rbind (case rawSelect of
              None \<Rightarrow> Inr None
            | Some raw \<Rightarrow>
                rbind (normalizeFieldPathList raw) (\<lambda>paths.
                rbind (assertNoOverlappingFieldPaths
                    (map Str (case withIdField (Some paths) idField of None \<Rightarrow> [] | Some fs \<Rightarrow> fs))) (\<lambda>fs.
                Inr (Some fs)))) (\<lambda>select.
     rbind (rbind (ownOptionValue record ''offset'') assertSafeOffset) (\<lambda>offset.
     rbind (rbind (ownOptionValue record ''cursor'') assertSafeCursor) (\<lambda>cursor.
     rbind (assertCompatibleQueryPagination offset cursor) (\<lambda>_.
     rbind (rbind (ownOptionValue record ''where'') normalizeWhereEntries) (\<lambda>ws.
     rbind (rbind (ownOptionValue record ''or'') normalizeStoreQueryBranches) (\<lambda>os.
     rbind (rbind (ownOptionValue record ''sort'') normalizeStoreSortList) (\<lambda>order.
     rbind (rbind (ownOptionValue record ''limit'') assertSafeLimit) (\<lambda>limit.
     rbind (rbind (ownOptionValue record ''include'') normalizeIncludeSpecs) (\<lambda>include.
     rbind (rbind (ownOptionValue record ''native'') normalizeStoreNative) (\<lambda>native.
     rbind (rbind (ownOptionValue record ''meta'') clonePlanMeta) (\<lambda>meta.
     rbind (normalizeMixedOrPlan (Plan ws os)) (\<lambda>mixed.
     appendStableLimitSort
       \<lparr>q_filter = mixed, q_sort = order, q_limit = limit, q_offset = offset, q_cursor = cursor,
        q_select = select, q_include = include, q_native = native, q_meta = meta\<rparr> (Str idField))))))))))))))))"

section \<open>Mixing preserves the meaning\<close>

text \<open>The values operands are after normalisation: structured clones without holes.\<close>

fun clean_operand :: "jsval \<Rightarrow> bool" where
  "clean_operand (Obj c ps ss) = (ss = [] \<and>
     (case c of
        CPlain \<Rightarrow> list_all (\<lambda>(k, p). plain_prop p \<and> clean_operand (prop_val p)) ps
      | CDate t \<Rightarrow> ps = []
      | CBytes bs \<Rightarrow> ps = []
      | _ \<Rightarrow> False))"
| "clean_operand (Arr es ps ss) = (ps = [] \<and> ss = [] \<and>
     list_all (\<lambda>e. case e of None \<Rightarrow> False | Some p \<Rightarrow> plain_prop p \<and> clean_operand (prop_val p)) es)"
| "clean_operand (SymV n) = False"
| "clean_operand (Fn n) = False"
| "clean_operand v = True"

lemma clean_array:
  assumes "clean_operand (Arr es ps ss)"
  shows "ps = []" "ss = []" "e \<in> set es \<Longrightarrow> \<exists>p. e = Some p \<and> plain_prop p \<and> clean_operand (prop_val p)"
  using assms by (cases e; force simp: list_all_iff)+

lemma clean_object:
  assumes "clean_operand (Obj CPlain ps ss)" and "(k, p) \<in> set ps"
  shows "plain_prop p" "clean_operand (prop_val p)"
  using assms by (auto simp: list_all_iff)

lemma clean_clone: "clean_operand v \<Longrightarrow> structured_clone v = Inr v"
proof (induction v rule: clean_operand.induct)
  case (1 c ps ss)
  show ?case
  proof (cases "c = CPlain")
    case True
    note mem = clean_object [OF "1.prems" [unfolded True]]
    have "rbind (structured_clone (prop_val p)) (\<lambda>v. Inr (k, dataP v)) = Inr (k, p) \<and> enumerable p"
      if m: "(k, p) \<in> set ps" for k p
    proof -
      have "structured_clone (prop_val p) = Inr (prop_val p)" using "1.IH" m True mem(2) [OF m] by auto
      then show ?thesis using plain_propD [OF mem(1) [OF m]] by simp
    qed
    then have "rlist (\<lambda>(k, p). rbind (structured_clone (prop_val p)) (\<lambda>v. Inr (k, dataP v))) ps = Inr ps"
      and "filter (\<lambda>(k, p). enumerable p) ps = ps"
      by (auto intro!: rlist_self filter_True)
    with True "1.prems" show ?thesis by simp
  next
    case False
    with "1.prems" show ?thesis by (cases c) auto
  qed
next
  case (2 es ps ss)
  note e = clean_array [OF "2.prems"]
  have "rlist (\<lambda>e. case e of
               None \<Rightarrow> Inr None
             | Some p \<Rightarrow> if enumerable p
                 then rbind (structured_clone (prop_val p)) (\<lambda>v. Inr (Some (dataP v)))
                 else Inr None) es = Inr es"
  proof (rule rlist_self)
    fix x assume x: "x \<in> set es"
    from e(3) [OF x] obtain p where p: "x = Some p" "plain_prop p" "clean_operand (prop_val p)" by blast
    with "2.IH" [OF x p(1)] plain_propD [OF p(2)]
    show "(case x of
               None \<Rightarrow> Inr None
             | Some p \<Rightarrow> if enumerable p
                 then rbind (structured_clone (prop_val p)) (\<lambda>v. Inr (Some (dataP v)))
                 else Inr None) = Inr x" by simp
  qed
  with e(1,2) show ?case by simp
qed auto

lemma clean_safe_items:
  assumes "clean_operand (Arr es ps ss)"
  shows "safeArrayValues (Arr es ps ss) = Inr (map (prop_val \<circ> the) es)"
proof -
  note e = clean_array [OF assms]
  have "reach (dense_own_name (Arr es ps ss)) (own_names (Arr es ps ss)) = Inr ()"
  proof (subst reach_Inr_iff, intro ballI)
    fix k assume "k \<in> set (own_names (Arr es ps ss))"
    then have k: "k = ''length'' \<or> isArrayIndexProperty k (length es)"
      using e(1) by (auto simp: index_names_def isArrayIndexProperty_def)
    show "dense_own_name (Arr es ps ss) k = Inr ()"
    proof (cases "k = ''length''")
      case False
      with k have i: "isArrayIndexProperty k (length es)" by simp
      then have "read_nat k < length es" by (simp add: isArrayIndexProperty_def)
      with e(3) [OF nth_mem] obtain p where p: "es ! read_nat k = Some p" "plain_prop p" by blast
      with index_own_prop [OF i, of ps ss] have "own_prop (Arr es ps ss) k = Some p" by simp
      with i False plain_propD [OF p(2)] show ?thesis
        by (simp add: dense_own_name_def del: own_prop.simps)
    qed (simp add: dense_own_name_def)
  qed
  moreover have "rlist (\<lambda>slot. case slot of
            None \<Rightarrow> Inl ActiveTsValidationError
          | Some p \<Rightarrow>
              if \<not> is_data p then Inl ActiveTsValidationError
              else if \<not> enumerable p then Inl ActiveTsValidationError
              else Inr (prop_val p)) es = Inr (map (prop_val \<circ> the) es)"
  proof (rule rlist_map_Inr)
    fix x assume "x \<in> set es"
    with e(3) obtain p where p: "x = Some p" "plain_prop p" by blast
    with plain_propD [OF p(2)] show "(case x of
            None \<Rightarrow> Inl ActiveTsValidationError
          | Some p \<Rightarrow>
              if \<not> is_data p then Inl ActiveTsValidationError
              else if \<not> enumerable p then Inl ActiveTsValidationError
              else Inr (prop_val p)) = Inr ((prop_val \<circ> the) x)" by simp
  qed
  ultimately show ?thesis using e(2) by (simp add: safeArrayValues_def)
qed

lemma same_primitive:
  "isDeepStrictEqual a b \<Longrightarrow> \<not> is_object a \<Longrightarrow> b = a"
  by (cases a) (simp_all add: object_is_def)

lemma same_object:
  "isDeepStrictEqual (Obj c ps ss) b \<Longrightarrow> \<exists>qs ts. b = Obj c qs ts"
  by (cases b) simp_all

lemma same_array:
  "isDeepStrictEqual (Arr es ps ss) b \<Longrightarrow> \<exists>fs qs ts. b = Arr fs qs ts"
  by (cases b) simp_all

declare isDeepStrictEqual.simps [simp del]

lemma class_only:
  "is_date (Obj c ps ss) = is_date (Obj c qs ts)" "dateTime (Obj c ps ss) = dateTime (Obj c qs ts)"
  by (cases c; simp)+

lemma same_cases:
  assumes "isDeepStrictEqual a b"
  obtains (obj) c ps ss qs ts where "a = Obj c ps ss" "b = Obj c qs ts"
    | (arr) es ps ss fs qs ts where "a = Arr es ps ss" "b = Arr fs qs ts"
    | (eq) "b = a" "\<not> is_object a"
proof (cases a)
  case (Obj c ps ss)
  with same_object [of c ps ss b] assms obj show ?thesis by blast
next
  case (Arr es ps ss)
  with same_array [of es ps ss b] assms arr show ?thesis by blast
qed (use same_primitive [OF assms] eq in simp_all)

lemma same_kind:
  assumes "isDeepStrictEqual a b"
  shows "is_object a \<longleftrightarrow> is_object b" "is_array a \<longleftrightarrow> is_array b"
    "is_plain_object a \<longleftrightarrow> is_plain_object b" "is_date a \<longleftrightarrow> is_date b" "dateTime a = dateTime b"
proof -
  show "is_object a \<longleftrightarrow> is_object b" by (rule same_cases [OF assms]) simp_all
  show "is_array a \<longleftrightarrow> is_array b" by (rule same_cases [OF assms]) simp_all
  show "is_plain_object a \<longleftrightarrow> is_plain_object b" by (rule same_cases [OF assms]) simp_all
  show "is_date a \<longleftrightarrow> is_date b" by (rule same_cases [OF assms]) (simp_all, rule class_only)
  show "dateTime a = dateTime b" by (rule same_cases [OF assms]) (simp_all, rule class_only)
qed

lemma row_clean: "row_value v \<Longrightarrow> clean_operand v"
proof (induction v rule: row_value.induct)
  case (1 c ps ss)
  note r = row_object [OF "1.prems"]
  have "plain_prop p \<and> clean_operand (prop_val p)" if "(k, p) \<in> set ps" for k p
    using "1.IH" [OF that refl] r(3) [OF that] by blast
  then show ?case unfolding r(1,2) by (auto simp: list_all_iff)
next
  case (2 es ps ss)
  note r = row_array [OF "2.prems"]
  have "\<exists>p. e = Some p \<and> plain_prop p \<and> clean_operand (prop_val p)" if "e \<in> set es" for e
    using "2.IH" [OF that] r(3) [OF that] by blast
  then show ?case unfolding r(1,2) by (fastforce simp: list_all_iff)
qed simp_all

lemma row_items: "row_value (Arr es ps ss) \<Longrightarrow> safeArrayValues (Arr es ps ss) = Inr (map (prop_val \<circ> the) es)"
  by (rule clean_safe_items [OF row_clean])

lemma row_item: "row_value (Arr es ps ss) \<Longrightarrow> x \<in> set (map (prop_val \<circ> the) es) \<Longrightarrow> row_value x"
  using row_array(3) [of es ps ss] by fastforce

lemma row_object_prop:
  assumes "row_value (Obj c ps ss)" and "own_prop (Obj c ps ss) k = Some p"
  shows "is_data p" "enumerable p" "row_value (prop_val p)" "prop_val p \<noteq> Undef"
proof -
  have "(k, p) \<in> set ps" using assms(2) row_object(1) [OF assms(1)] by (auto dest: map_of_SomeD)
  from row_object(3) [OF assms(1) this] plain_propD show "is_data p" "enumerable p" "row_value (prop_val p)" "prop_val p \<noteq> Undef"
    by auto
qed

lemma row_kind: "row_value v \<Longrightarrow> is_object v \<Longrightarrow> \<not> is_array v \<Longrightarrow> \<exists>ps. v = Obj CPlain ps []"
  by (cases v) simp_all

lemma row_plain: "row_value v \<Longrightarrow> is_object v \<Longrightarrow> \<not> is_array v \<Longrightarrow> is_plain_object v \<and> own_symbols v = []"
  using row_kind [of v] by auto

lemma row_expected_ok: "row_value e \<Longrightarrow> assertJsonContainsExpected e = Inr ()"
  using row_plain [of e] by (simp add: assertJsonContainsExpected_def)

lemma rany_exists: "(\<And>x. x \<in> set xs \<Longrightarrow> \<exists>b. f x = Inr b) \<Longrightarrow> \<exists>b. rany f xs = Inr b"
proof (induction xs)
  case (Cons x xs)
  obtain b where "f x = Inr b" using Cons.prems [of x] by auto
  moreover have "\<exists>b. rany f xs = Inr b" by (rule Cons.IH) (simp add: Cons.prems)
  ultimately show ?case by (cases b) auto
qed auto

lemma rall_exists: "(\<And>x. x \<in> set xs \<Longrightarrow> \<exists>b. f x = Inr b) \<Longrightarrow> \<exists>b. rall f xs = Inr b"
proof (induction xs)
  case (Cons x xs)
  obtain b where "f x = Inr b" using Cons.prems [of x] by auto
  moreover have "\<exists>b. rall f xs = Inr b" by (rule Cons.IH) (simp add: Cons.prems)
  ultimately show ?case by (cases b) auto
qed auto

lemma row_item_size: "x \<in> set (map (prop_val \<circ> the) es) \<Longrightarrow> row_value (Arr es ps ss) \<Longrightarrow> size x < size (Arr es ps ss)"
  by (rule safeArrayValues_size [OF row_items])

text \<open>The members of a containment test, on rows.\<close>

lemma json_array_array:
  assumes "row_value (Arr es ps ss)" and "row_value (Arr fs qs ts)"
  shows "jsonContains (Arr es ps ss) (Arr fs qs ts)
     = rall (\<lambda>y. rany (\<lambda>x. jsonContains x y) (map (prop_val \<circ> the) es)) (map (prop_val \<circ> the) fs)"
  by (subst jsonContains.simps)
    (simp add: row_expected_ok [OF assms(2)] row_items [OF assms(1)] row_items [OF assms(2)] object_is_def
      del: map_map)

lemma json_array_other:
  assumes "row_value (Arr es ps ss)" and "row_value e" and "\<not> is_array e"
  shows "jsonContains (Arr es ps ss) e = rany (\<lambda>x. jsonContains x e) (map (prop_val \<circ> the) es)"
  by (subst jsonContains.simps)
    (simp add: row_expected_ok [OF assms(2)] row_items [OF assms(1)] assms(3) object_is_def del: map_map)

lemma json_object_object:
  assumes "row_value (Obj c ps ss)" and "row_value (Obj d qs ts)"
  shows "jsonContains (Obj c ps ss) (Obj d qs ts) = rall (\<lambda>key. case own_prop (Obj c ps ss) key of
      None \<Rightarrow> Inr False
    | Some p \<Rightarrow> jsonContains (prop_val p) (prop_val (the (own_prop (Obj d qs ts) key)))) (map fst qs)"
proof -
  have names: "own_names (Obj d qs ts) = map fst qs" using row_object(1) [OF assms(2)] by simp
  have rows: "is_plain_object (Obj c ps ss)" "own_symbols (Obj d qs ts) = []"
    using row_object [OF assms(1)] row_object [OF assms(2)] by simp_all
  have "jsonContains (Obj c ps ss) (Obj d qs ts) = rall (\<lambda>key. case own_prop (Obj d qs ts) key of
           None \<Rightarrow> Inl ActiveTsValidationError
         | Some e \<Rightarrow>
             if \<not> is_data e then Inl ActiveTsValidationError
             else if \<not> enumerable e then Inl ActiveTsValidationError
             else case own_prop (Obj c ps ss) key of
                 None \<Rightarrow> Inr False
               | Some p \<Rightarrow>
                   if \<not> is_data p then Inl ActiveTsValidationError
                   else if \<not> enumerable p then Inl ActiveTsValidationError
                   else jsonContains (prop_val p) (prop_val e)) (map fst qs)"
    by (subst jsonContains.simps)
      (simp add: row_expected_ok [OF assms(2)] object_is_def rows names [unfolded own_names.simps] names
        del: own_names.simps own_prop.simps is_plain_object.simps own_symbols.simps)
  also have "\<dots> = rall (\<lambda>key. case own_prop (Obj c ps ss) key of
      None \<Rightarrow> Inr False
    | Some p \<Rightarrow> jsonContains (prop_val p) (prop_val (the (own_prop (Obj d qs ts) key)))) (map fst qs)"
  proof (rule rall_cong [OF refl])
    fix key assume "key \<in> set (map fst qs)"
    then obtain e where e: "own_prop (Obj d qs ts) key = Some e"
      using row_object(1) [OF assms(2)] by (cases "map_of qs key") (auto simp: map_of_eq_None_iff)
    note er = row_object_prop [OF assms(2) e]
    show "(case own_prop (Obj d qs ts) key of
           None \<Rightarrow> Inl ActiveTsValidationError
         | Some e \<Rightarrow>
             if \<not> is_data e then Inl ActiveTsValidationError
             else if \<not> enumerable e then Inl ActiveTsValidationError
             else case own_prop (Obj c ps ss) key of
                 None \<Rightarrow> Inr False
               | Some p \<Rightarrow>
                   if \<not> is_data p then Inl ActiveTsValidationError
                   else if \<not> enumerable p then Inl ActiveTsValidationError
                   else jsonContains (prop_val p) (prop_val e))
        = (case own_prop (Obj c ps ss) key of
            None \<Rightarrow> Inr False
          | Some p \<Rightarrow> jsonContains (prop_val p) (prop_val (the (own_prop (Obj d qs ts) key))))"
      using e er row_object_prop [OF assms(1), of key]
      by (auto split: option.splits simp del: own_prop.simps)
  qed
  finally show ?thesis .
qed

lemma json_mixed:
  assumes "row_value v" and "row_value e" and "\<not> is_array v" and "\<not> (is_object v \<and> is_object e \<and> \<not> is_array e)"
  shows "jsonContains v e = Inr (object_is v e)"
  using assms(3,4) row_plain [OF assms(1) _ assms(3)]
  by (subst jsonContains.simps) (auto simp: row_expected_ok [OF assms(2)] object_is_def)

lemma json_total:
  "row_value v \<Longrightarrow> row_value e \<Longrightarrow> \<exists>b. jsonContains v e = Inr b"
proof (induction "size v" arbitrary: v e rule: less_induct)
  case less
  consider (aa) es ps ss fs qs ts where "v = Arr es ps ss" "e = Arr fs qs ts"
    | (ao) es ps ss where "v = Arr es ps ss" "\<not> is_array e"
    | (oo) c ps ss d qs ts where "v = Obj c ps ss" "e = Obj d qs ts"
    | (mixed) "\<not> is_array v" "\<not> (is_object v \<and> is_object e \<and> \<not> is_array e)"
    by (cases v; cases e) auto
  then show ?case
  proof cases
    case aa
    note r = less.prems [unfolded aa]
    have "\<exists>b. jsonContains x y = Inr b" if "x \<in> set (map (prop_val \<circ> the) es)" "y \<in> set (map (prop_val \<circ> the) fs)" for x y
      using less.hyps row_item [OF r(1) that(1)] row_item [OF r(2) that(2)] row_item_size [OF that(1) r(1)] aa(1) by blast
    then show ?thesis unfolding aa json_array_array [OF r] by (intro rall_exists rany_exists) blast
  next
    case ao
    note r = less.prems [unfolded ao(1)]
    have "\<exists>b. jsonContains x e = Inr b" if "x \<in> set (map (prop_val \<circ> the) es)" for x
      using less.hyps row_item [OF r(1) that] r(2) row_item_size [OF that r(1)] ao(1) by blast
    then show ?thesis unfolding ao(1) json_array_other [OF r ao(2)] by (intro rany_exists) blast
  next
    case oo
    note r = less.prems [unfolded oo]
    have "\<exists>b. (case own_prop (Obj c ps ss) key of
      None \<Rightarrow> Inr False
    | Some p \<Rightarrow> jsonContains (prop_val p) (prop_val (the (own_prop (Obj d qs ts) key)))) = Inr b"
      if key: "key \<in> set (map fst qs)" for key
    proof (cases "own_prop (Obj c ps ss) key")
      case (Some p)
      obtain q where q: "own_prop (Obj d qs ts) key = Some q"
        using key row_object(1) [OF r(2)] by (cases "map_of qs key") (auto simp: map_of_eq_None_iff)
      have "size (prop_val p) < size v" using own_prop_size [OF Some] oo(1) by simp
      with less.hyps row_object_prop(3) [OF r(1) Some] row_object_prop(3) [OF r(2) q]
      have "\<exists>b. jsonContains (prop_val p) (prop_val q) = Inr b" by blast
      with Some q show ?thesis by (simp del: own_prop.simps)
    qed (auto simp del: own_prop.simps)
    then show ?thesis unfolding oo json_object_object [OF r] by (intro rall_exists) blast
  next
    case mixed
    with json_mixed [OF less.prems] show ?thesis by blast
  qed
qed

text \<open>Equal operands give equal answers.\<close>

lemma same_items:
  assumes "isDeepStrictEqual (Arr es ps ss) (Arr fs qs ts)"
    and "clean_operand (Arr es ps ss)" and "clean_operand (Arr fs qs ts)"
  shows "list_all2 isDeepStrictEqual (map (prop_val \<circ> the) es) (map (prop_val \<circ> the) fs)"
proof -
  from assms(1) have len: "length es = length fs"
    and all: "list_all (\<lambda>(e, f). case e of
            None \<Rightarrow> f = None
          | Some p \<Rightarrow> (case f of None \<Rightarrow> False | Some q \<Rightarrow> isDeepStrictEqual (prop_val p) (prop_val q))) (zip es fs)"
    by (simp_all add: isDeepStrictEqual.simps)
  show ?thesis
  proof (rule list_all2_all_nthI, simp add: len)
    fix i assume i: "i < length (map (prop_val \<circ> the) es)"
    then obtain p q where "es ! i = Some p" "fs ! i = Some q"
      using clean_array(3) [OF assms(2), of "es ! i"] clean_array(3) [OF assms(3), of "fs ! i"] len by auto
    moreover have "(es ! i, fs ! i) \<in> set (zip es fs)" using i len by (auto simp: set_zip)
    ultimately have "isDeepStrictEqual (prop_val p) (prop_val q)" using all by (auto simp: list_all_iff)
    with \<open>es ! i = Some p\<close> \<open>fs ! i = Some q\<close> i len
    show "isDeepStrictEqual (map (prop_val \<circ> the) es ! i) (map (prop_val \<circ> the) fs ! i)" by simp
  qed
qed

lemma same_members:
  assumes "isDeepStrictEqual (Obj c ps ss) (Obj d qs ts)"
    and "row_value (Obj c ps ss)" and "row_value (Obj d qs ts)"
  shows "set (map fst ps) = set (map fst qs)"
    and "(k, p) \<in> set ps \<Longrightarrow> \<exists>q. map_of qs k = Some q \<and> isDeepStrictEqual (prop_val p) (prop_val q)"
proof -
  have "filter (\<lambda>(k, p). enumerable p) ps = ps" "filter (\<lambda>(k, q). enumerable q) qs = qs"
    using row_object(3) [OF assms(2)] row_object(3) [OF assms(3)] plain_propD(3) by (auto intro!: filter_True)
  with assms(1) have
    a: "list_all (\<lambda>(k, p). case map_of qs k of None \<Rightarrow> False
        | Some q \<Rightarrow> isDeepStrictEqual (prop_val p) (prop_val q)) ps"
    and b: "list_all (\<lambda>(k, q). k \<in> fst ` set ps) qs"
    by (simp_all add: isDeepStrictEqual.simps)
  show m: "\<exists>q. map_of qs k = Some q \<and> isDeepStrictEqual (prop_val p) (prop_val q)" if "(k, p) \<in> set ps" for k p
    using a that by (fastforce simp: list_all_iff split: option.splits)
  show "set (map fst ps) = set (map fst qs)"
  proof
    show "set (map fst ps) \<subseteq> set (map fst qs)"
      using m by (fastforce dest: map_of_key)
    show "set (map fst qs) \<subseteq> set (map fst ps)" using b by (auto simp: list_all_iff)
  qed
qed

lemma rall_truth: "rall f xs = Inr True \<longleftrightarrow> (\<forall>x \<in> set xs. f x = Inr True)"
  by (induction xs) (auto simp: rbind_Inr_iff split: if_splits)

lemma total_eq: "\<exists>b. x = Inr b \<Longrightarrow> \<exists>b. y = Inr b \<Longrightarrow> x = Inr True \<longleftrightarrow> y = Inr True \<Longrightarrow> x = y"
  by (metis (full_types))

lemma json_same:
  "isDeepStrictEqual e f \<Longrightarrow> row_value v \<Longrightarrow> row_value e \<Longrightarrow> row_value f \<Longrightarrow> jsonContains v e = jsonContains v f"
proof (induction "size v" arbitrary: v e f rule: less_induct)
  case less
  note tot = json_total
  from less.prems(1) show ?case
  proof (cases rule: same_cases)
    case (obj c ps ss qs ts)
    note re = less.prems(3) [unfolded obj] and rf = less.prems(4) [unfolded obj]
    note mem = same_members [OF less.prems(1) [unfolded obj] re rf]
    show ?thesis
    proof (cases v)
      case (Obj d us ws)
      note rv = less.prems(2) [unfolded Obj]
      have one: "(case own_prop (Obj d us ws) key of
            None \<Rightarrow> Inr False
          | Some p \<Rightarrow> jsonContains (prop_val p) (prop_val (the (own_prop (Obj c ps ss) key))))
        = (case own_prop (Obj d us ws) key of
            None \<Rightarrow> Inr False
          | Some p \<Rightarrow> jsonContains (prop_val p) (prop_val (the (own_prop (Obj c qs ts) key))))"
        if key: "key \<in> set (map fst ps)" for key
      proof (cases "own_prop (Obj d us ws) key")
        case (Some u)
        obtain p where p: "map_of ps key = Some p" using key by (cases "map_of ps key") (auto simp: map_of_eq_None_iff)
        with mem(2) [OF map_of_SomeD [OF p]] obtain q where q: "map_of qs key = Some q"
          and eq: "isDeepStrictEqual (prop_val p) (prop_val q)" by blast
        from p q row_object(1) [OF re] have o': "own_prop (Obj c ps ss) key = Some p" "own_prop (Obj c qs ts) key = Some q"
          by simp_all
        have "size (prop_val u) < size v" using own_prop_size [OF Some] Obj by simp
        from less.hyps [OF this eq row_object_prop(3) [OF rv Some] row_object_prop(3) [OF re o'(1)]
            row_object_prop(3) [OF rf o'(2)]]
        show ?thesis using Some o' by (simp del: own_prop.simps)
      qed (simp del: own_prop.simps)
      show ?thesis
      proof (rule total_eq [OF tot [OF less.prems(2,3)] tot [OF less.prems(2,4)]])
        show "jsonContains v e = Inr True \<longleftrightarrow> jsonContains v f = Inr True"
          unfolding obj Obj json_object_object [OF rv re] json_object_object [OF rv rf] rall_truth
          using one mem(1) by metis
      qed
    next
      case (Arr us xs ws)
      note rv = less.prems(2) [unfolded Arr]
      have "jsonContains x e = jsonContains x f" if "x \<in> set (map (prop_val \<circ> the) us)" for x
        using less.hyps [OF _ less.prems(1) row_item [OF rv that] less.prems(3,4)] row_item_size [OF that rv] Arr by simp
      with obj show ?thesis unfolding Arr
        by (simp add: json_array_other [OF rv] less.prems(3,4) [unfolded obj] del: row_value.simps set_map map_map cong: rany_cong)
    qed (use less.prems(2-4) obj json_mixed [of v e] json_mixed [of v f] in \<open>simp_all add: object_is_def\<close>)
  next
    case (arr es ps ss fs qs ts)
    note re = less.prems(3) [unfolded arr] and rf = less.prems(4) [unfolded arr]
    show ?thesis
    proof (cases v)
      case (Arr us xs ws)
      note rv = less.prems(2) [unfolded Arr]
      let ?I = "map (prop_val \<circ> the) us"
      have step: "rany (\<lambda>x. jsonContains x y) ?I = rany (\<lambda>x. jsonContains x z) ?I"
        if "isDeepStrictEqual y z" "y \<in> set (map (prop_val \<circ> the) es)" "z \<in> set (map (prop_val \<circ> the) fs)" for y z
      proof (rule rany_cong [OF refl])
        fix x assume x: "x \<in> set ?I"
        have "size x < size v" using row_item_size [OF x rv] Arr by simp
        from less.hyps [OF this that(1) row_item [OF rv x] row_item [OF re that(2)] row_item [OF rf that(3)]]
        show "jsonContains x y = jsonContains x z" .
      qed
      note same = same_items [OF less.prems(1) [unfolded arr] row_clean [OF re] row_clean [OF rf]]
      have lift: "rall g A = rall g B" if "list_all2 isDeepStrictEqual A B"
        and "\<And>y z. isDeepStrictEqual y z \<Longrightarrow> y \<in> set A \<Longrightarrow> z \<in> set B \<Longrightarrow> g y = g z" for A B and g :: "jsval \<Rightarrow> bool res"
        using that by (induction rule: list_all2_induct) (auto cong: if_cong)
      show ?thesis
        unfolding arr Arr json_array_array [OF rv re] json_array_array [OF rv rf] by (rule lift [OF same step])
    qed (use less.prems(2-4) arr json_mixed [of v e] json_mixed [of v f] in \<open>simp_all add: object_is_def\<close>)
  qed simp
qed

section \<open>Entries with equal operands select the same rows\<close>

definition valid_entry :: "where_entry \<Rightarrow> bool" where
  "valid_entry w = (clean_operand (w_value w) \<and> clean_operand (w_value2 w)
     \<and> (w_op w = ''jsonContains'' \<longrightarrow> row_value (w_value w)))"

lemma same_strict_eq:
  assumes "isDeepStrictEqual e f"
  shows "strict_eq x e = strict_eq x f" "object_is x e = object_is x f"
  by (rule same_cases [OF assms]; cases x; simp add: strict_eq_def object_is_def)+

lemma same_range:
  assumes "isDeepStrictEqual e f"
  shows "rangeComparable x e = rangeComparable x f" "rangeComparable e e = rangeComparable f f"
  by (rule same_cases [OF assms]; use same_kind(4,5) [OF assms] in \<open>simp add: rangeComparable_def\<close>)+

lemma same_compareRange: "isDeepStrictEqual e f \<Longrightarrow> compareRangeValues x e = compareRangeValues x f"
  using same_range [of e f] by (simp add: compareRangeValues_def)

lemma same_includes: "isDeepStrictEqual e f \<Longrightarrow> arrayIncludesValue x e = arrayIncludesValue x f"
  by (simp add: arrayIncludesValue_def same_strict_eq [of e f])

lemma num_eq_sym: "num_eq a b = num_eq b a"
  by (cases a; cases b) auto

lemma strict_eq_sym: "strict_eq a b = strict_eq b a" "object_is a b = object_is b a"
  by (cases a; cases b; auto simp: strict_eq_def object_is_def num_eq_sym)+

lemma same_included:
  assumes "isDeepStrictEqual e f" and "clean_operand e" and "clean_operand f"
  shows "arrayIncludesValue e x = arrayIncludesValue f x"
  using assms(1)
proof (cases rule: same_cases)
  case (arr es ps ss fs qs ts)
  note all = same_items [OF assms(1) [unfolded arr] assms(2) [unfolded arr] assms(3) [unfolded arr]]
  have "(\<exists>i \<in> set A. object_is i x \<or> strict_eq i x) = (\<exists>i \<in> set B. object_is i x \<or> strict_eq i x)"
    if "list_all2 isDeepStrictEqual A B" for A B
    using that
    by (induction rule: list_all2_induct)
      (simp_all add: strict_eq_sym [of _ x] same_strict_eq [of _ _ x])
  from this [OF all] show ?thesis
    unfolding arr using clean_safe_items [OF assms(2) [unfolded arr]] clean_safe_items [OF assms(3) [unfolded arr]]
    by (simp add: arrayIncludesValue_def del: set_map clean_operand.simps)
qed (simp_all add: arrayIncludesValue_def)

lemma value_at_row: "row_value v \<Longrightarrow> value_at v ks = Inr x \<Longrightarrow> x = Undef \<or> row_value x"
proof (induction v ks rule: value_at.induct)
  case (2 current key keys)
  show ?case
  proof (cases "\<not> is_object current \<or> \<not> has_own current key")
    case False
    with "2.prems"(2) obtain y where y: "ownFieldValue current key = Inr y" "value_at y keys = Inr x"
      by (auto simp: rbind_Inr_iff)
    then obtain p where p: "own_prop current key = Some p" "enumerable p" "y = prop_val p"
      by (auto simp: ownFieldValue_def split: option.splits if_splits)
    have "row_value y"
    proof (cases current)
      case (Obj c ps ss)
      with row_object_prop(3) "2.prems"(1) p show ?thesis by blast
    next
      case (Arr es ps ss)
      note r = "2.prems"(1) [unfolded Arr]
      from p r have "Some p \<in> set es" unfolding Arr by (auto split: if_splits) (metis nth_mem)
      with row_array(3) [OF r] p(3) show ?thesis by blast
    qed (use False in simp_all)
    with "2.IH" [OF False y(1) _ y(2)] show ?thesis by blast
  qed (use 2 in simp)
qed simp

lemma valueFor_row: "row_value row \<Longrightarrow> valueFor row field = Inr x \<Longrightarrow> x = Undef \<or> row_value x"
  by (auto simp: valueFor_def rbind_Inr_iff dest: value_at_row)

lemma json_same_undefined:
  assumes "isDeepStrictEqual e f" and "row_value e" and "row_value f"
  shows "jsonContains Undef e = jsonContains Undef f"
  using same_kind(1) [OF assms(1)] same_strict_eq(2) [OF assms(1), of Undef]
  by (subst (1 2) jsonContains.simps) (simp add: row_expected_ok assms(2,3))

lemma rbind_same: "(\<And>x. r = Inr x \<Longrightarrow> g x = h x) \<Longrightarrow> rbind r g = rbind r h"
  by (cases r) simp_all

lemma same_compareWhere:
  assumes same: "sameWhereEntry a b" and va: "valid_entry a" and vb: "valid_entry b" and row: "row_value row"
  shows "compareWhere row a = compareWhere row b"
proof -
  from same have f: "w_field b = w_field a" and o': "w_op b = w_op a"
    and v: "isDeepStrictEqual (w_value a) (w_value b)" and v2: "isDeepStrictEqual (w_value2 a) (w_value2 b)"
    by (simp_all add: sameWhereEntry_def)
  have clean: "clean_operand (w_value a)" "clean_operand (w_value b)" using va vb by (simp_all add: valid_entry_def)
  note simps = same_strict_eq [OF v] same_compareRange [OF v] same_compareRange [OF v2] same_includes [OF v]
    same_included [OF v clean]
  have str: "(case w_value a of Str q \<Rightarrow> g q | _ \<Rightarrow> z) = (case w_value b of Str q \<Rightarrow> g q | _ \<Rightarrow> z)" for g and z :: "bool res"
    by (rule same_cases [OF v]) simp_all
  have json: "jsonContains x (w_value a) = jsonContains x (w_value b)"
    if op: "w_op a = ''jsonContains''" and x: "valueFor row (w_field a) = Inr x" for x
  proof -
    have rows: "row_value (w_value a)" "row_value (w_value b)" using op o' va vb by (simp_all add: valid_entry_def)
    from valueFor_row [OF row x] show ?thesis
      using json_same [OF v _ rows] json_same_undefined [OF v rows] by blast
  qed
  show ?thesis
  proof (cases "w_op a = ''jsonContains''")
    case True
    then show ?thesis unfolding compareWhere_def f
      by (intro rbind_same) (simp add: o' json)
  next
    case False
    then show ?thesis unfolding compareWhere_def f
      by (intro rbind_same) (simp add: o' simps str Let_def)
  qed
qed

section \<open>What a mixed plan means\<close>

definition sats :: "jsval \<Rightarrow> where_entry list \<Rightarrow> bool" where
  "sats row ws = (\<forall>w \<in> set ws. compareWhere row w = Inr True)"

lemma sats_simps [simp]:
  "sats row []" "sats row (w # ws) \<longleftrightarrow> compareWhere row w = Inr True \<and> sats row ws"
  "sats row (ws @ vs) \<longleftrightarrow> sats row ws \<and> sats row vs"
  by (auto simp: sats_def)

lemma plan_sat_sats:
  "plan_sat row (Plan ws os) = (if os = [] then sats row ws
     else (ws \<noteq> [] \<and> sats row ws) \<or> (\<exists>p \<in> set os. plan_sat row p))"
  by (simp add: sats_def)

definition valid_entries :: "where_entry list \<Rightarrow> bool" where
  "valid_entries ws = (\<forall>w \<in> set ws. valid_entry w)"

lemma clone_entry: "valid_entry w \<Longrightarrow> cloneWhereEntry w = Inr w"
  by (simp add: cloneWhereEntry_def cloneQueryOperand_def valid_entry_def clean_clone)

lemma clone_entries: "valid_entries ws \<Longrightarrow> cloneWhereEntries ws = Inr ws"
  unfolding cloneWhereEntries_def valid_entries_def by (intro rlist_self clone_entry) blast

definition add_constraint :: "where_entry list \<Rightarrow> where_entry \<Rightarrow> where_entry list res \<Rightarrow> where_entry list res" where
  "add_constraint merged constraint acc = rbind acc (\<lambda>additions.
     if \<not> hasMatchingWhereEntry additions constraint \<and> \<not> hasMatchingWhereEntry merged constraint
     then rbind (cloneWhereEntry constraint) (\<lambda>c. Inr (additions @ [c]))
     else Inr additions)"

lemma matching_sat:
  assumes "hasMatchingWhereEntry es c" and "valid_entries es" and "valid_entry c" and "row_value row" and "sats row es"
  shows "compareWhere row c = Inr True"
proof -
  from assms(1) obtain e where e: "e \<in> set es" "sameWhereEntry e c" by (auto simp: hasMatchingWhereEntry_def)
  with assms same_compareWhere [OF e(2)] show ?thesis by (auto simp: valid_entries_def sats_def)
qed

lemma add_constraints:
  "valid_entries ws \<Longrightarrow> valid_entries adds \<Longrightarrow> valid_entries cs \<Longrightarrow>
   \<exists>adds'. fold (add_constraint ws) cs (Inr adds) = Inr adds' \<and> valid_entries adds'
     \<and> (cs \<noteq> [] \<or> adds \<noteq> [] \<longrightarrow> adds' \<noteq> [] \<or> ws \<noteq> [])
     \<and> (\<forall>row. row_value row \<longrightarrow> (sats row adds' \<and> sats row ws \<longleftrightarrow> sats row adds \<and> sats row cs \<and> sats row ws))"
proof (induction cs arbitrary: adds)
  case (Cons c cs)
  have vc: "valid_entry c" and vcs: "valid_entries cs" using Cons.prems(3) by (simp_all add: valid_entries_def)
  show ?case
  proof (cases "hasMatchingWhereEntry adds c \<or> hasMatchingWhereEntry ws c")
    case True
    then have step: "add_constraint ws c (Inr adds) = Inr adds" by (auto simp: add_constraint_def)
    have dup: "compareWhere row c = Inr True" if "row_value row" "sats row adds" "sats row ws" for row
      using True matching_sat [OF _ _ vc that(1)] Cons.prems(1,2) that by blast
    have ne: "adds \<noteq> [] \<or> ws \<noteq> []" using True by (auto simp: hasMatchingWhereEntry_def)
    from Cons.IH [OF Cons.prems(1,2) vcs] obtain adds' where
      "fold (add_constraint ws) cs (Inr adds) = Inr adds'" "valid_entries adds'"
      "cs \<noteq> [] \<or> adds \<noteq> [] \<longrightarrow> adds' \<noteq> [] \<or> ws \<noteq> []"
      "\<forall>row. row_value row \<longrightarrow> (sats row adds' \<and> sats row ws \<longleftrightarrow> sats row adds \<and> sats row cs \<and> sats row ws)" by blast
    with step dup ne show ?thesis by auto
  next
    case False
    then have step: "add_constraint ws c (Inr adds) = Inr (adds @ [c])"
      by (simp add: add_constraint_def clone_entry [OF vc])
    have "valid_entries (adds @ [c])" using Cons.prems(2) vc by (simp add: valid_entries_def)
    from Cons.IH [OF Cons.prems(1) this vcs] step show ?thesis by auto
  qed
qed auto

lemma merge_constraints:
  assumes "valid_entries cs" and "valid_entries ws" and "cs \<noteq> []"
  shows "\<exists>m. mergeWhereConstraints cs ws = Inr m \<and> m \<noteq> []
     \<and> (\<forall>row. row_value row \<longrightarrow> (sats row m \<longleftrightarrow> sats row cs \<and> sats row ws))"
proof -
  have e: "mergeWhereConstraints cs ws
      = rbind (fold (add_constraint ws) cs (Inr [])) (\<lambda>additions. Inr (additions @ ws))"
    by (simp add: mergeWhereConstraints_def clone_entries [OF assms(2)] add_constraint_def [abs_def])
  have "valid_entries []" by (simp add: valid_entries_def)
  from add_constraints [OF assms(2) this assms(1)] assms(3) show ?thesis unfolding e by auto
qed

fun valid_plan :: "plan \<Rightarrow> bool" where
  "valid_plan (Plan ws os) = (valid_entries ws \<and> list_all valid_plan os)"

lemma constrain_branch:
  "valid_plan p \<Longrightarrow> valid_entries cs \<Longrightarrow> cs \<noteq> [] \<Longrightarrow>
   \<exists>p'. constrainOrBranch cs p = Inr p'
      \<and> (\<forall>row. row_value row \<longrightarrow> (plan_sat row p' \<longleftrightarrow> sats row cs \<and> plan_sat row p))"
proof (induction p rule: valid_plan.induct)
  case (1 ws os)
  let ?w = "if ws \<noteq> [] \<or> os = [] then mergeWhereConstraints cs ws else Inr []"
  have vw: "valid_entries ws" using "1.prems"(1) by simp
  define g where "g q = projr (constrainOrBranch cs q)" for q
  have IH: "constrainOrBranch cs q = Inr (g q)
      \<and> (\<forall>row. row_value row \<longrightarrow> (plan_sat row (g q) \<longleftrightarrow> sats row cs \<and> plan_sat row q))" if "q \<in> set os" for q
    using "1.IH" [OF that _ "1.prems"(2,3)] "1.prems"(1) that unfolding g_def by (fastforce simp: list_all_iff)
  have os: "rlist (constrainOrBranch cs) os = Inr (map g os)" using IH by (intro rlist_map_Inr) blast
  have branches: "(\<exists>p \<in> set (map g os). plan_sat row p) \<longleftrightarrow> sats row cs \<and> (\<exists>p \<in> set os. plan_sat row p)"
    if "row_value row" for row using IH that by auto
  obtain m where m: "mergeWhereConstraints cs ws = Inr m" "m \<noteq> []"
    "\<forall>row. row_value row \<longrightarrow> (sats row m \<longleftrightarrow> sats row cs \<and> sats row ws)"
    using merge_constraints [OF "1.prems"(2) vw "1.prems"(3)] by blast
  show ?case
  proof (cases "ws \<noteq> [] \<or> os = []")
    case True
    with os m(1) have "constrainOrBranch cs (Plan ws os) = Inr (Plan m (map g os))" by simp
    moreover have "plan_sat row (Plan m (map g os)) \<longleftrightarrow> sats row cs \<and> plan_sat row (Plan ws os)"
      if r: "row_value row" for row
      using branches [OF r] m(2,3) r True unfolding plan_sat_sats by auto
    ultimately show ?thesis by blast
  next
    case False
    with os have "constrainOrBranch cs (Plan ws os) = Inr (Plan [] (map g os))" by simp
    moreover have "plan_sat row (Plan [] (map g os)) \<longleftrightarrow> sats row cs \<and> plan_sat row (Plan ws os)"
      if r: "row_value row" for row
      using branches [OF r] False unfolding plan_sat_sats by auto
    ultimately show ?thesis by blast
  qed
qed

lemma mixed_plan:
  assumes "valid_plan (Plan ws os)"
  shows "\<exists>p. normalizeMixedOrPlan (Plan ws os) = Inr p
     \<and> (\<forall>row. row_value row \<longrightarrow> (plan_sat row p \<longleftrightarrow> sats row ws \<and> (os = [] \<or> (\<exists>b \<in> set os. plan_sat row b))))"
proof (cases "os = [] \<or> ws = []")
  case True
  then show ?thesis by (auto simp: normalizeMixedOrPlan_def plan_sat_sats simp del: plan_sat.simps)
next
  case False
  have vw: "valid_entries ws" and vo: "\<And>q. q \<in> set os \<Longrightarrow> valid_plan q" using assms by (auto simp: list_all_iff)
  define g where "g q = projr (constrainOrBranch ws q)" for q
  have b: "constrainOrBranch ws q = Inr (g q)
      \<and> (\<forall>row. row_value row \<longrightarrow> (plan_sat row (g q) \<longleftrightarrow> sats row ws \<and> plan_sat row q))" if "q \<in> set os" for q
    using constrain_branch [OF vo [OF that] vw] False unfolding g_def by fastforce
  have "rlist (constrainOrBranch ws) os = Inr (map g os)" using b by (intro rlist_map_Inr) blast
  then have n: "normalizeMixedOrPlan (Plan ws os) = Inr (Plan [] (map g os))"
    using False by (simp add: normalizeMixedOrPlan_def clone_entries [OF vw])
  have "plan_sat row (Plan [] (map g os)) \<longleftrightarrow> sats row ws \<and> (\<exists>b \<in> set os. plan_sat row b)" if "row_value row" for row
    using b that False unfolding plan_sat_sats by auto
  with n False show ?thesis by blast
qed

section \<open>Normalised entries are valid\<close>

lemma date_clone: "is_date v \<Longrightarrow> structured_clone v = Inr c \<Longrightarrow> clean_operand c"
  by (cases v rule: is_date.cases) auto

lemma scalar_clean: "assertPortableScalar v = Inr () \<Longrightarrow> structured_clone v = Inr c \<Longrightarrow> clean_operand c"
  by (cases "is_date v") (auto simp: date_clone assertPortableScalar_def split: jsval.splits)

lemma range_clean: "assertRangeOperand v = Inr () \<Longrightarrow> structured_clone v = Inr c \<Longrightarrow> clean_operand c"
  by (cases "is_date v") (auto simp: date_clone assertRangeOperand_def split: jsval.splits)

lemma dense_array_own: "assertDenseArray v = Inr () \<Longrightarrow> assertDenseOwnArray v = Inr ()"
  by (simp add: assertDenseArray_def assertDenseOwnArray_def split: if_splits)

lemma json_clean:
  "assertSafeDataKeys v = Inr () \<Longrightarrow> assertNoUndefinedJsonOperand v = Inr () \<Longrightarrow>
   \<exists>c. structured_clone v = Inr c \<and> row_value c"
proof (induction v rule: normal_data.induct)
  case (1 c ps ss)
  have c: "c = CPlain \<or> c = CNull"
    using "1.prems" by (cases c) (auto simp: rbind_Inr_iff split: if_splits)
  note mem = safe_plain_members [OF "1.prems"(1) c]
  have "reach (\<lambda>(key, p).
            if \<not> is_data p then Inl ActiveTsValidationError
            else assertNoUndefinedJsonOperand (prop_val p)) (filter (\<lambda>(key, p). enumerable p) ps) = Inr ()"
    using "1.prems"(2) c by auto
  from reach_keyD [OF this] mem(1,2)
  have nu: "assertNoUndefinedJsonOperand (prop_val p) = Inr ()" if "(k, p) \<in> set ps" for k p
    using that by fastforce
  define g where "g p = projr (structured_clone (prop_val p))" for p
  have IH: "structured_clone (prop_val p) = Inr (g p) \<and> row_value (g p)" if "(k, p) \<in> set ps" for k p
  proof -
    have "prop_val p \<noteq> Undef" using nu [OF that] by auto
    with "1.IH" that mem(4) [OF that] nu [OF that] c have "\<exists>c. structured_clone (prop_val p) = Inr c \<and> row_value c"
      by (cases c) fastforce+
    then show ?thesis by (auto simp: g_def)
  qed
  have en: "filter (\<lambda>(k, p). enumerable p) ps = ps" using mem(2) by (auto intro: filter_True)
  have "rlist (\<lambda>(k, p). rbind (structured_clone (prop_val p)) (\<lambda>v. Inr (k, dataP v))) ps
      = Inr (map (\<lambda>(k, p). (k, dataP (g p))) ps)"
    using IH by (intro rlist_map_Inr) auto
  with c en have sc: "structured_clone (Obj c ps ss) = Inr (Obj CPlain (map (\<lambda>(k, p). (k, dataP (g p))) ps) [])"
    by auto
  have "g p \<noteq> Undef" if "(k, p) \<in> set ps" for k p using IH [OF that] by auto
  then have "row_value (Obj CPlain (map (\<lambda>(k, p). (k, dataP (g p))) ps) [])"
    using IH mem(3) by (auto simp: list_all_iff)
  with sc show ?case by blast
next
  case (2 es ps ss)
  note d = safe_array_parts(1) [OF "2.prems"(1)]
  have ex: "filter (\<lambda>(k, p). enumerable p \<and> k \<noteq> ''length'' \<and> \<not> isArrayIndexProperty k (length es)) ps = []"
    using dense_own_extras [OF d] by (force simp: filter_empty_conv)
  have nu: "assertNoUndefinedJsonOperand (prop_val p) = Inr ()" if "Some p \<in> set es" for p
    using reachD [OF "2.prems"(2) [unfolded assertNoUndefinedJsonOperand.simps] that] by (simp split: if_splits)
  define g where "g p = projr (structured_clone (prop_val p))" for p
  have IH: "structured_clone (prop_val p) = Inr (g p) \<and> row_value (g p) \<and> enumerable p" if "Some p \<in> set es" for p
  proof -
    have "\<exists>c. structured_clone (prop_val p) = Inr c \<and> row_value c"
      using "2.IH" [OF that refl] safe_array_members [OF "2.prems"(1) that] nu [OF that] by fastforce
    with dense_own_member [OF d that] show ?thesis by (auto simp: g_def)
  qed
  have full: "\<exists>p. e = Some p" if "e \<in> set es" for e
    using safe_array_members [OF "2.prems"(1) that] by auto
  have "rlist (\<lambda>e. case e of
               None \<Rightarrow> Inr None
             | Some p \<Rightarrow> if enumerable p
                 then rbind (structured_clone (prop_val p)) (\<lambda>v. Inr (Some (dataP v)))
                 else Inr None) es = Inr (map (map_option (\<lambda>p. dataP (g p))) es)"
    using IH full by (intro rlist_map_Inr) fastforce
  with ex have sc: "structured_clone (Arr es ps ss) = Inr (Arr (map (map_option (\<lambda>p. dataP (g p))) es) [] [])"
    by simp
  have "g p \<noteq> Undef" if "Some p \<in> set es" for p using IH [OF that] by auto
  then have "row_value (Arr (map (map_option (\<lambda>p. dataP (g p))) es) [] [])"
    using IH full by (fastforce simp: list_all_iff)
  with sc show ?case by blast
qed (auto split: if_splits)

lemma in_clean:
  assumes d: "assertDenseOwnArray (Arr es ps ss) = Inr ()"
    and s: "reach (\<lambda>index. rbind (ownArrayValue (Arr es ps ss) index) assertPortableScalar) [0..<length es] = Inr ()"
    and c: "structured_clone (Arr es ps ss) = Inr c"
  shows "clean_operand c"
proof -
  have ex: "filter (\<lambda>(k, p). enumerable p \<and> k \<noteq> ''length'' \<and> \<not> isArrayIndexProperty k (length es)) ps = []"
    using dense_own_extras [OF d] by (force simp: filter_empty_conv)
  have full: "\<exists>p. e = Some p \<and> enumerable p" if "e \<in> set es" for e
    using dense_own_slots [OF d, of e] that dense_own_member [OF d] by (cases e) auto
  have sc: "assertPortableScalar (prop_val p) = Inr ()" if p: "Some p \<in> set es" for p
  proof -
    obtain i where i: "i < length es" "es ! i = Some p" using p by (auto simp: in_set_conv_nth)
    with reachD [OF s, of i] dense_own_member [OF d p] show ?thesis by (simp add: ownArrayValue_def)
  qed
  from c ex obtain fs where fs: "rlist (\<lambda>e. case e of
               None \<Rightarrow> Inr None
             | Some p \<Rightarrow> if enumerable p
                 then rbind (structured_clone (prop_val p)) (\<lambda>v. Inr (Some (dataP v)))
                 else Inr None) es = Inr fs" and cf: "c = Arr fs [] []"
    by (auto simp: rbind_Inr_iff)
  have "\<exists>p. f = Some p \<and> plain_prop p \<and> clean_operand (prop_val p)" if "f \<in> set fs" for f
  proof -
    from rlist_member [OF fs that] obtain e where e: "e \<in> set es" and "(case e of
               None \<Rightarrow> Inr None
             | Some p \<Rightarrow> if enumerable p
                 then rbind (structured_clone (prop_val p)) (\<lambda>v. Inr (Some (dataP v)))
                 else Inr None) = Inr f" by blast
    with full [OF e] obtain p v where "e = Some p" "structured_clone (prop_val p) = Inr v" "f = Some (dataP v)"
      by (auto simp: rbind_Inr_iff)
    with scalar_clean [OF sc] e show ?thesis by auto
  qed
  then show ?thesis unfolding cf by (fastforce simp: list_all_iff)
qed

lemma operand_json:
  "assertValidWhereOperand (Str ''jsonContains'') v u
     = rbind (assertSafeDataKeys v) (\<lambda>_. assertNoUndefinedJsonOperand v)"
  by (simp add: assertValidWhereOperand_def isOperator_def QUERY_OPERATORS_def)

lemma operand_in:
  "assertValidWhereOperand (Str ''in'') v u =
     (if \<not> is_array v then Inl ActiveTsValidationError
      else if own_symbols v \<noteq> [] then Inl ActiveTsValidationError
      else rbind (assertDenseArray v) (\<lambda>_.
        if slots v = [] then Inl ActiveTsValidationError
        else if length (slots v) > 30 then Inl ActiveTsValidationError
        else reach (\<lambda>index. rbind (ownArrayValue v index) assertPortableScalar) [0..<length (slots v)]))"
  by (simp add: assertValidWhereOperand_def isOperator_def QUERY_OPERATORS_def)

lemma operand_scalar:
  "opn \<in> {''='', ''!='', ''arrayContains''} \<Longrightarrow> assertValidWhereOperand (Str opn) v u = assertPortableScalar v"
  by (elim insertE) (simp_all add: assertValidWhereOperand_def isOperator_def QUERY_OPERATORS_def)

lemma operand_between:
  "assertValidWhereOperand (Str ''between'') v u = Inr () \<Longrightarrow>
   assertRangeOperand v = Inr () \<and> assertRangeOperand u = Inr ()"
  by (simp add: assertValidWhereOperand_def isOperator_def QUERY_OPERATORS_def rbind_Inr_iff split: if_splits)

lemma operand_range:
  "opn \<in> {''>'', ''>='', ''<'', ''<=''} \<Longrightarrow> assertValidWhereOperand (Str opn) v u
     = (if v = Undef then Inl ActiveTsValidationError else assertRangeOperand v)"
  by (elim insertE) (simp_all add: assertValidWhereOperand_def isOperator_def QUERY_OPERATORS_def)

lemma operand_null:
  "opn \<in> {''isNull'', ''isNotNull''} \<Longrightarrow> assertValidWhereOperand (Str opn) v u
     = (if v \<noteq> Undef then Inl ActiveTsValidationError else Inr ())"
  by (elim insertE) (simp_all add: assertValidWhereOperand_def isOperator_def QUERY_OPERATORS_def)

lemma operand_text:
  "opn \<in> {''textContains'', ''startsWith''} \<Longrightarrow> assertValidWhereOperand (Str opn) v u
     = (if js_typeof v \<noteq> ''string'' then Inl ActiveTsValidationError else Inr ())"
  by (elim insertE) (simp_all add: assertValidWhereOperand_def isOperator_def QUERY_OPERATORS_def)

lemma operand_operator:
  "assertValidWhereOperand (Str opn) v u = Inr () \<Longrightarrow> isOperator opn \<and> opn \<noteq> ''contains''"
  unfolding assertValidWhereOperand_def jsval.case by (metis Inl_Inr_False)

lemma typeof_string: "js_typeof v = ''string'' \<Longrightarrow> \<exists>q. v = Str q"
  by (cases v) (auto split: obj_class.splits if_splits)

lemma operand_clean:
  assumes v: "assertValidWhereOperand (Str opn) operand upper = Inr ()" and c: "structured_clone operand = Inr c"
  shows "clean_operand c \<and> (opn = ''jsonContains'' \<longrightarrow> row_value c)"
proof (cases "opn = ''jsonContains''")
  case True
  with v have "assertSafeDataKeys operand = Inr ()" "assertNoUndefinedJsonOperand operand = Inr ()"
    by (simp_all add: operand_json rbind_Inr_iff)
  from json_clean [OF this] c row_clean show ?thesis by auto
next
  case json: False
  consider "opn = ''in''" | "opn \<in> {''='', ''!='', ''arrayContains''}" | "opn = ''between''"
    | "opn \<in> {''>'', ''>='', ''<'', ''<=''}" | "opn \<in> {''isNull'', ''isNotNull''}"
    | "opn \<in> {''textContains'', ''startsWith''}"
    using operand_operator [OF v] json unfolding isOperator_def QUERY_OPERATORS_def
    by (elim conjE) (simp only: list.set insert_iff empty_iff, elim disjE, simp_all)
  then have "clean_operand c"
  proof cases
    case 1
    note v1 = v [unfolded 1 operand_in]
    then obtain es ps ss where a: "operand = Arr es ps ss"
      by (cases operand) simp_all
    from v1 have "assertDenseOwnArray (Arr es ps ss) = Inr ()"
      "reach (\<lambda>index. rbind (ownArrayValue (Arr es ps ss) index) assertPortableScalar) [0..<length es] = Inr ()"
      unfolding a by (simp_all add: rbind_Inr_iff dense_array_own split: if_splits)
    from in_clean [OF this] c a show ?thesis by blast
  next
    case 2
    with v operand_scalar c scalar_clean show ?thesis by metis
  next
    case 3
    with v operand_between c range_clean show ?thesis by blast
  next
    case 4
    with v operand_range have "assertRangeOperand operand = Inr ()" by (metis Inl_Inr_False)
    with c range_clean show ?thesis by blast
  next
    case 5
    with v operand_null have "operand = Undef" by (metis Inl_Inr_False)
    with c show ?thesis by auto
  next
    case 6
    with v operand_text have "js_typeof operand = ''string''" by (metis Inl_Inr_False)
    with c typeof_string show ?thesis by fastforce
  qed
  with json show ?thesis by blast
qed

lemma upper_clean:
  assumes v: "assertValidWhereOperand (Str ''between'') operand upper = Inr ()" and c: "structured_clone upper = Inr c"
  shows "clean_operand c"
  using operand_between [OF v] c range_clean by blast

lemma normalized_entry_valid:
  assumes "normalizeWhereEntry v = Inr w"
  shows "valid_entry w"
proof -
  from assms obtain r f opv opn operand upper and u :: unit
    where opv: "(case opv of
              Str s \<Rightarrow> if isOperator s then Inr s else Inl ActiveTsValidationError
            | _ \<Rightarrow> Inl ActiveTsValidationError) = Inr opn"
      and valid: "assertValidWhereOperand opv operand upper = Inr u"
      and rest: "(if opn \<noteq> ''between'' \<and> has_own r ''value2'' then Inl ActiveTsValidationError
     else rbind (cloneQueryOperand operand) (\<lambda>v1.
       rbind (if has_own r ''value2'' then cloneQueryOperand upper else Inr Undef) (\<lambda>v2.
       Inr \<lparr>w_field = f, w_op = opn, w_value = v1, w_value2 = v2\<rparr>))) = Inr w"
    unfolding normalizeWhereEntry_def rbind_Inr_iff by blast
  from opv have "opv = Str opn" by (cases opv) (auto split: if_splits)
  with valid have valid: "assertValidWhereOperand (Str opn) operand upper = Inr ()" by simp
  from rest have b: "\<not> (opn \<noteq> ''between'' \<and> has_own r ''value2'')" by (auto split: if_splits)
  with rest obtain v1 v2 where v1: "cloneQueryOperand operand = Inr v1"
      and v2: "(if has_own r ''value2'' then cloneQueryOperand upper else Inr Undef) = Inr v2"
      and w: "w = \<lparr>w_field = f, w_op = opn, w_value = v1, w_value2 = v2\<rparr>"
    by (auto simp: rbind_Inr_iff split: if_splits)
  have "clean_operand v1 \<and> (opn = ''jsonContains'' \<longrightarrow> row_value v1)"
    using operand_clean [OF valid] v1 by (simp add: cloneQueryOperand_def)
  moreover have "clean_operand v2"
  proof (cases "has_own r ''value2''")
    case True
    with b valid v2 upper_clean show ?thesis by (auto simp: cloneQueryOperand_def)
  qed (use v2 in auto)
  ultimately show ?thesis unfolding w by (simp add: valid_entry_def)
qed

lemma normalized_entries_valid: "normalizeWhereEntries v = Inr ws \<Longrightarrow> valid_entries ws"
  by (auto simp: normalizeWhereEntries_def rbind_Inr_iff valid_entries_def
      dest!: rlist_member intro: normalized_entry_valid)

lemma branch_valid: "normalizeStoreQueryBranch p = Inr b \<Longrightarrow> valid_plan b"
proof (induction "size p" arbitrary: p b rule: less_induct)
  case less
  from less.prems obtain ws orv branches os where ws: "rbind (ownOptionValue p ''where'') normalizeWhereEntries = Inr ws"
      and orv: "ownOptionValue p ''or'' = Inr orv" and br: "arrayOrEmpty orv = Inr branches"
      and os: "rlist normalizeStoreQueryBranch branches = Inr os" and b: "b = Plan ws os"
    by (subst (asm) normalizeStoreQueryBranch.simps) (auto simp: rbind_Inr_iff split: if_splits)
  have "valid_plan q" if "q \<in> set os" for q
  proof -
    from rlist_member [OF os that] obtain z where z: "z \<in> set branches" "normalizeStoreQueryBranch z = Inr q" by blast
    have "orv \<noteq> Undef" using br z(1) by (auto simp: arrayOrEmpty_def)
    with ownOptionValue_size [OF orv] arrayOrEmpty_size [OF br z(1)] have "size z < size p" by simp
    from less.hyps [OF this z(2)] show ?thesis .
  qed
  moreover have "valid_entries ws" using ws normalized_entries_valid by (auto simp: rbind_Inr_iff)
  ultimately show ?case unfolding b by (simp add: list_all_iff)
qed

lemma branches_valid: "normalizeStoreQueryBranches v = Inr os \<Longrightarrow> q \<in> set os \<Longrightarrow> valid_plan q"
  by (auto simp: normalizeStoreQueryBranches_def rbind_Inr_iff dest!: rlist_member intro: branch_valid)

lemma append_sort_filter: "appendStableLimitSort p i = Inr q \<Longrightarrow> q_filter q = q_filter p"
  by (auto simp: appendStableLimitSort_def rbind_Inr_iff split: if_splits)

lemma plan_parts:
  assumes "normalizeStoreQueryPlan p idField = Inr q"
  shows "\<exists>ws os. rbind (ownOptionValue p ''where'') normalizeWhereEntries = Inr ws
       \<and> rbind (ownOptionValue p ''or'') normalizeStoreQueryBranches = Inr os
       \<and> normalizeMixedOrPlan (Plan ws os) = Inr (q_filter q)"
proof -
  from assms have "assertPlainRecord p = Inr p"
    by (auto simp: normalizeStoreQueryPlan_def rbind_Inr_iff assertPlainRecord_def split: if_splits)
  with assms show ?thesis
    unfolding normalizeStoreQueryPlan_def rbind_Inr_iff [of "assertPlainRecord p"]
    by (fastforce simp: rbind_Inr_iff dest!: append_sort_filter)
qed

section \<open>Property\<close>

text \<open>C8. The normal form of a query plan keeps its meaning: on every stored row, the filter of the
  normalised plan holds exactly if all \<open>where\<close> conditions hold and, when there are \<open>or\<close> branches, one of
  them holds; distributing the conditions over the branches and dropping conditions that repeat
  changes no answer.\<close>

theorem normalized_plan_meaning:
  assumes "normalizeStoreQueryPlan p idField = Inr q" and "row_value row"
    and "rbind (ownOptionValue p ''where'') normalizeWhereEntries = Inr ws"
    and "rbind (ownOptionValue p ''or'') normalizeStoreQueryBranches = Inr os"
  shows "plan_sat row (q_filter q) \<longleftrightarrow>
    (\<forall>w \<in> set ws. compareWhere row w = Inr True) \<and> (os = [] \<or> (\<exists>b \<in> set os. plan_sat row b))"
proof -
  have n: "normalizeMixedOrPlan (Plan ws os) = Inr (q_filter q)"
    using plan_parts [OF assms(1)] assms(3,4) by auto
  have "valid_plan (Plan ws os)"
    using assms(3,4) normalized_entries_valid branches_valid by (auto simp: rbind_Inr_iff list_all_iff)
  from mixed_plan [OF this] n assms(2) show ?thesis by (auto simp: sats_def)
qed

text \<open>A plan with a condition and two branches.\<close>

definition sample_plan :: jsval where
  "sample_plan = js_object
     [(''where'', js_array [js_object [(''field'', Str ''a''), (''op'', Str ''=''), (''value'', js_int 1)]]),
      (''or'', js_array
        [js_object [(''where'', js_array [js_object [(''field'', Str ''b''), (''op'', Str ''>''), (''value'', js_int 5)]])],
         js_object [(''where'', js_array [js_object [(''field'', Str ''a''), (''op'', Str ''=''), (''value'', js_int 1)]])]])]"

theorem normalized_plan_meaning_witness:
  "\<exists>q. normalizeStoreQueryPlan sample_plan ''id'' = Inr q \<and> plan_sat (js_object [(''a'', js_int 1)]) (q_filter q)
     \<and> \<not> plan_sat (js_object [(''a'', js_int 2)]) (q_filter q)"
proof -
  let ?w = "rbind (ownOptionValue sample_plan ''where'') normalizeWhereEntries"
    and ?o = "rbind (ownOptionValue sample_plan ''or'') normalizeStoreQueryBranches"
  let ?r = "js_object [(''a'', js_int 1)]" and ?s = "js_object [(''a'', js_int 2)]"
  have n: "\<not> isl (normalizeStoreQueryPlan sample_plan ''id'')" by code_simp
  have w: "\<not> isl ?w" "list_all (\<lambda>w. compareWhere ?r w = Inr True) (projr ?w)"
    "\<not> list_all (\<lambda>w. compareWhere ?s w = Inr True) (projr ?w)" by code_simp+
  have o': "\<not> isl ?o" "list_ex (\<lambda>b. matchesPlan ?r b = Inr True) (projr ?o)" by code_simp+
  have rows: "row_value ?r" "row_value ?s" by code_simp+
  from n obtain q where q: "normalizeStoreQueryPlan sample_plan ''id'' = Inr q"
    by (cases "normalizeStoreQueryPlan sample_plan ''id''") simp_all
  from w(1) obtain ws where ws: "?w = Inr ws" by (cases ?w) simp_all
  from o'(1) obtain os where os: "?o = Inr os" by (cases ?o) simp_all
  note m = normalized_plan_meaning [OF q _ ws os]
  have "\<exists>b \<in> set os. plan_sat ?r b" using o'(2) os matchesPlan_sat by (fastforce simp: list_ex_iff)
  with m [OF rows(1)] m [OF rows(2)] w(2,3) ws have "plan_sat ?r (q_filter q)" "\<not> plan_sat ?s (q_filter q)"
    by (auto simp: list_all_iff)
  with q show ?thesis by blast
qed

section \<open>Capabilities\<close>

text \<open>A capability of an adapter counts only when it is an own property of value \<open>true\<close>.\<close>

definition storeCapability :: "jsval \<Rightarrow> string \<Rightarrow> bool" where
  "storeCapability capabilities key =
     (is_object capabilities \<and> (case own_prop capabilities key of
        None \<Rightarrow> False
      | Some p \<Rightarrow> is_data p \<and> prop_val p = Bool True))"

definition isRangeOperator :: "string \<Rightarrow> bool" where
  "isRangeOperator opn = (opn \<in> {''>'', ''>='', ''<'', ''<='', ''between''})"

definition assertStoreNativeAdapterTag :: "string \<Rightarrow> QueryNative option \<Rightarrow> unit res" where
  "assertStoreNativeAdapterTag adapterKind native = (case native of
     None \<Rightarrow> Inr ()
   | Some n \<Rightarrow> (case n_adapter n of
       None \<Rightarrow> Inr ()
     | Some target \<Rightarrow> if target \<noteq> adapterKind then Inl ActiveTsConfigurationError else Inr ()))"

definition meta_value :: "QueryPlan \<Rightarrow> string \<Rightarrow> jsval" where
  "meta_value p key = (case q_meta p of
     None \<Rightarrow> Undef
   | Some m \<Rightarrow> (case own_prop m key of None \<Rightarrow> Undef | Some x \<Rightarrow> prop_val x))"

definition require :: "bool \<Rightarrow> unit res" where
  "require b = (if b then Inr () else Inl ActiveTsConfigurationError)"

definition where_supported :: "jsval \<Rightarrow> where_entry \<Rightarrow> unit res" where
  "where_supported caps w = (let has = storeCapability caps; opn = w_op w in
     rbind (require (opn \<noteq> ''contains'')) (\<lambda>_.
     rbind (require (\<not> ((opn = ''isNull'' \<or> opn = ''isNotNull'') \<and> \<not> has ''nullOperators''))) (\<lambda>_.
     rbind (require (\<not> (opn = ''isNull'' \<and> \<not> has ''missingFieldNulls''))) (\<lambda>_.
     rbind (require (\<not> (opn = ''arrayContains'' \<and> \<not> has ''arrayContains''))) (\<lambda>_.
     rbind (require (\<not> (opn = ''textContains'' \<and> \<not> has ''textContains''))) (\<lambda>_.
     rbind (require (\<not> (opn = ''jsonContains'' \<and> \<not> has ''jsonContains''))) (\<lambda>_.
     rbind (require (\<not> (opn = ''startsWith'' \<and> \<not> has ''startsWith''))) (\<lambda>_.
     rbind (require (\<not> (isRangeOperator opn \<and> \<not> has ''numericComparisons''))) (\<lambda>_.
     require (\<not> (CHR ''.'' \<in> set (w_field w) \<and> \<not> has ''nestedFields'')))))))))))"

definition assertStorePlanSupported :: "string \<Rightarrow> jsval \<Rightarrow> QueryPlan \<Rightarrow> unit res" where
  "assertStorePlanSupported adapterKind caps p = (let has = storeCapability caps in
     rbind (assertStoreNativeAdapterTag adapterKind (q_native p)) (\<lambda>_.
     rbind (require (\<not> (p_or (q_filter p) \<noteq> [] \<and> \<not> has ''or''))) (\<lambda>_.
     rbind (require (\<not> (q_cursor p \<noteq> None \<and> \<not> has ''cursor''))) (\<lambda>_.
     rbind (require (\<not> (q_offset p \<noteq> None \<and> \<not> has ''offset''))) (\<lambda>_.
     rbind (require (\<not> (q_select p \<noteq> None \<and> q_select p \<noteq> Some [] \<and> \<not> has ''select''))) (\<lambda>_.
     rbind (require (\<not> (q_native p \<noteq> None \<and> \<not> has ''native''))) (\<lambda>_.
     rbind (require (\<not> (truthy (meta_value p ''requiresMissingFieldNulls'') \<and> \<not> has ''missingFieldNulls''))) (\<lambda>_.
     rbind (require (\<not> (meta_value p ''datastoreAncestor'' \<noteq> Undef \<and> \<not> has ''datastoreAncestor''))) (\<lambda>_.
     rbind (require (\<not> (q_meta p \<noteq> None \<and> has_own (the (q_meta p)) ''datastoreRead''
                       \<and> \<not> has ''datastoreReadPolicy''))) (\<lambda>_.
     rbind (reach (where_supported caps) (collectWhereEntries (q_filter p))) (\<lambda>_.
     reach (\<lambda>field. require (\<not> (CHR ''.'' \<in> set field \<and> \<not> has ''nestedFields'')))
       (map sort_field (q_sort p) @ (case q_select p of None \<Rightarrow> [] | Some fs \<Rightarrow> fs)))))))))))))"

end
