(* ===== verification/NestedMap.thy ===== *)
theory NestedMap
  imports StorePlan
begin

text \<open>
  Maps of maps, as the memory store keeps them: a \<open>Map\<close> from collection names to a \<open>Map\<close> from row keys.
  \<open>put2\<close> creates the inner map on demand, \<open>drop2\<close> removes an inner map that becomes empty. Seen as maps
  from pairs of keys they satisfy the laws of \<open>js_map\<close>.
\<close>

type_synonym 'v nested = "(string \<times> (string \<times> 'v) list) list"

definition lookup2 :: "'v nested \<Rightarrow> string \<Rightarrow> string \<Rightarrow> 'v option" where
  "lookup2 m n i = map_of (mget m n) i"

definition put2 :: "string \<Rightarrow> string \<Rightarrow> 'v \<Rightarrow> 'v nested \<Rightarrow> 'v nested" where
  "put2 n i v m = AList.update n (AList.update i v (mget m n)) m"

definition drop2 :: "string \<Rightarrow> string \<Rightarrow> 'v nested \<Rightarrow> 'v nested" where
  "drop2 n i m =
     (if \<not> mhas (mget m n) i then m
      else let inner = AList.delete i (mget m n) in
        if inner = [] then AList.delete n m else AList.update n inner m)"

lemma mhas_None: "\<not> mhas t i \<Longrightarrow> map_of t i = None"
  by (simp add: mhas_def)

lemma lookup2_put2 [map_simps]:
  "lookup2 (put2 n i v m) n' i' = (if n' = n \<and> i' = i then Some v else lookup2 m n' i')"
  by (simp add: lookup2_def put2_def map_simps)

lemma lookup2_drop2 [map_simps]:
  "lookup2 (drop2 n i m) n' i' = (if n' = n \<and> i' = i then None else lookup2 m n' i')"
proof (cases "mhas (mget m n) i")
  case True
  show ?thesis
  proof (cases "AList.delete i (mget m n) = []")
    case empty: True
    then have "map_of (mget m n) i' = None" if "i' \<noteq> i" for i'
      using map_of_delete [of i "mget m n" i'] that by simp
    with True empty show ?thesis by (simp add: lookup2_def drop2_def map_simps)
  qed (use True in \<open>simp add: lookup2_def drop2_def Let_def map_simps\<close>)
qed (auto simp: lookup2_def drop2_def mhas_None)

interpretation nested: js_map "\<lambda>m (n, i). lookup2 m n i" "\<lambda>(n, i) v m. put2 n i v m" "\<lambda>(n, i) m. drop2 n i m"
  by unfold_locales (auto simp: map_simps split: prod.splits)

text \<open>Every map has distinct keys.\<close>

definition wf2 :: "'v nested \<Rightarrow> bool" where
  "wf2 m = (distinct (map fst m) \<and> (\<forall>(n, t) \<in> set m. distinct (map fst t)))"

lemma wf2_Nil [simp]: "wf2 []"
  by (simp add: wf2_def)

lemma wf2_outer: "wf2 m \<Longrightarrow> distinct (map fst m)"
  by (simp add: wf2_def)

lemma wf2_inner: "wf2 m \<Longrightarrow> distinct (map fst (mget m n))"
  by (auto simp: wf2_def mget_def dest: map_of_SomeD split: option.splits)

lemma set_update_sub: "set (AList.update k v m) \<subseteq> insert (k, v) (set m)"
  by (induction m) auto

lemma set_delete_sub: "set (AList.delete k m) \<subseteq> set m"
  by (auto simp: AList.delete_eq)

lemma wf2_update [simp]: "wf2 m \<Longrightarrow> distinct (map fst t) \<Longrightarrow> wf2 (AList.update n t m)"
  using set_update_sub [of n t m] by (auto simp: wf2_def distinct_update)

lemma wf2_delete [simp]: "wf2 m \<Longrightarrow> wf2 (AList.delete n m)"
  using set_delete_sub [of n m] by (auto simp: wf2_def)

lemma wf2_put2 [simp]: "wf2 m \<Longrightarrow> wf2 (put2 n i v m)"
  by (simp add: put2_def wf2_inner)

lemma wf2_drop2 [simp]: "wf2 m \<Longrightarrow> wf2 (drop2 n i m)"
  by (simp add: drop2_def Let_def wf2_inner)

lemma mget_member: "wf2 m \<Longrightarrow> (n, t) \<in> set m \<Longrightarrow> mget m n = t"
  by (simp add: wf2_def mget_def)

lemma lookup2_member:
  "wf2 m \<Longrightarrow> (n, t) \<in> set m \<Longrightarrow> (i, v) \<in> set t \<Longrightarrow> lookup2 m n i = Some v"
  by (auto simp: lookup2_def mget_member wf2_def)

lemma lookup2_Some:
  "lookup2 m n i = Some v \<Longrightarrow> \<exists>t. (n, t) \<in> set m \<and> (i, v) \<in> set t \<and> mget m n = t"
  by (auto simp: lookup2_def mget_def dest: map_of_SomeD split: option.splits)

text \<open>All entries of a map of maps in order, with their two keys.\<close>

definition entries2 :: "'v nested \<Rightarrow> (string \<times> string \<times> 'v) list" where
  "entries2 m = concat (map (\<lambda>(n, t). map (\<lambda>(i, v). (n, i, v)) t) m)"

lemma entries2_iff: "wf2 m \<Longrightarrow> (n, i, v) \<in> set (entries2 m) \<longleftrightarrow> lookup2 m n i = Some v"
  by (fastforce simp: entries2_def dest: lookup2_member lookup2_Some)

definition keys2 :: "(string \<times> string \<times> 'v) list \<Rightarrow> ((string \<times> string) \<times> 'v) list" where
  "keys2 es = map (\<lambda>(n, i, v). ((n, i), v)) es"

lemma keys2_Cons [simp]: "keys2 ((n, i, v) # es) = ((n, i), v) # keys2 es"
  by (simp add: keys2_def)

lemma keys2_member: "((n, i), v) \<in> set (keys2 es) \<longleftrightarrow> (n, i, v) \<in> set es"
  by (force simp: keys2_def)

lemma entries2_keys_distinct: "wf2 m \<Longrightarrow> distinct (map fst (keys2 (entries2 m)))"
proof (induction m)
  case (Cons x m)
  obtain n t where x: "x = (n, t)" by force
  from Cons.prems x have d: "distinct (map fst t)" "n \<notin> fst ` set m" "wf2 m" by (auto simp: wf2_def)
  have "map fst (keys2 (entries2 (x # m))) = map (\<lambda>(i, v). (n, i)) t @ map fst (keys2 (entries2 m))"
    by (auto simp: x entries2_def keys2_def)
  moreover have "distinct (map (\<lambda>(i, v). (n, i)) t)"
    using d(1) by (induction t) force+
  moreover have "fst k \<in> fst ` set m" if "k \<in> set (map fst (keys2 (entries2 m)))" for k
    using that by (force simp: keys2_def entries2_def)
  ultimately show ?case using Cons.IH [OF d(3)] d(2) by fastforce
qed (simp add: entries2_def keys2_def)

lemma entries2_lookup:
  assumes "wf2 m"
  shows "map_of (keys2 (entries2 m)) (n, i) = lookup2 m n i"
proof -
  have "map_of (keys2 (entries2 m)) (n, i) = Some v \<longleftrightarrow> lookup2 m n i = Some v" for v
    by (simp add: entries2_iff [OF assms, symmetric] keys2_member
        map_of_Some_distinct [OF entries2_keys_distinct [OF assms]])
  then show ?thesis by (metis not_Some_eq)
qed

end
