(* ===== verification/MemoryStore.thy ===== *)
theory MemoryStore
  imports NestedMap
begin

text \<open>
  \<open>MemoryStoreAdapter\<close> of \<open>src/adapters/store/memory.ts\<close>, outside transactions: the collections, the
  revision of every row that was written, the tombstones of removed rows that a running transaction may
  still ask about, and the snapshots of the running transactions. An operation returns its result and
  the new state; a failed operation may have counted itself in \<open>stats\<close>. Models are the metadata snapshot
  that \<open>snapshotAdapterModel\<close> returns, reduced to the two fields the store reads.
\<close>

section \<open>State\<close>

record model_meta =
  m_name :: string
  m_idField :: string

record store_stats =
  s_get :: nat
  s_getMany :: nat
  s_query :: nat
  s_aggregate :: nat
  s_create :: nat
  s_update :: nat
  s_delete :: nat

definition no_stats :: store_stats where
  "no_stats = \<lparr>s_get = 0, s_getMany = 0, s_query = 0, s_aggregate = 0, s_create = 0, s_update = 0, s_delete = 0\<rparr>"

record memory_store =
  collections :: "jsval nested"
  rowRevisions :: "nat nested"
  rowRevisionTombstones :: "nat nested"
  activeTransactionSnapshots :: "(nat \<times> nat) list"
  rowRevisionGeneration :: nat
  stats :: store_stats

definition new_store :: memory_store where
  "new_store = \<lparr>collections = [], rowRevisions = [], rowRevisionTombstones = [],
     activeTransactionSnapshots = [], rowRevisionGeneration = 0, stats = no_stats\<rparr>"

section \<open>Rows and versions\<close>

definition cloneRow :: "jsval option \<Rightarrow> jsval res" where
  "cloneRow value = (case value of
     None \<Rightarrow> Inr Null
   | Some v \<Rightarrow> if v = Null \<or> v = Undef then Inr Null else cloneSafeDataObject v)"

definition memoryVersionMatches :: "jsval option \<Rightarrow> jsnum \<Rightarrow> bool" where
  "memoryVersionMatches current expectedVersion = (case current of
     None \<Rightarrow> False
   | Some c \<Rightarrow> truthy c \<and> (case own_prop c ''version'' of
        None \<Rightarrow> False
      | Some p \<Rightarrow> is_data p \<and> strict_eq (prop_val p) (Num expectedVersion)))"

definition assertStoreDataHasModelId :: "model_meta \<Rightarrow> jsval \<Rightarrow> jsval res" where
  "assertStoreDataHasModelId m data =
     rbind (valueFor data (m_idField m)) (\<lambda>rowId.
       if rowId = Undef \<or> rowId = Null then Inl ActiveTsValidationError
       else rbind (assertSafeEntityId rowId) (\<lambda>_. Inr rowId))"

definition assertStoreDataMatchesId :: "model_meta \<Rightarrow> jsval \<Rightarrow> jsval \<Rightarrow> unit res" where
  "assertStoreDataMatchesId m ident data =
     rbind (assertStoreDataHasModelId m data) (\<lambda>rowId.
     rbind (entityIdKey rowId) (\<lambda>rowKey.
     rbind (entityIdKey ident) (\<lambda>key.
     if rowKey \<noteq> key then Inl ActiveTsValidationError else Inr ())))"

section \<open>Collections\<close>

definition existingCollection :: "string \<Rightarrow> memory_store \<Rightarrow> (string \<times> jsval) list res" where
  "existingCollection name st =
     rbind (assertSafeSchemaIdentifier (Str name)) (\<lambda>safe. Inr (mget (collections st) safe))"

definition collection :: "string \<Rightarrow> memory_store \<Rightarrow> memory_store res" where
  "collection name st =
     rbind (assertSafeSchemaIdentifier (Str name)) (\<lambda>safe.
       Inr (if mhas (collections st) safe then st
            else st\<lparr>collections := AList.update safe [] (collections st)\<rparr>))"

definition set_row :: "string \<Rightarrow> string \<Rightarrow> jsval \<Rightarrow> memory_store \<Rightarrow> memory_store" where
  "set_row name key row st = st\<lparr>collections := put2 name key row (collections st)\<rparr>"

definition delete_row :: "string \<Rightarrow> string \<Rightarrow> memory_store \<Rightarrow> memory_store" where
  "delete_row name key st =
     st\<lparr>collections := AList.update name (AList.delete key (mget (collections st) name)) (collections st)\<rparr>"

section \<open>Row revisions\<close>

definition MAX_ROW_REVISION :: nat where
  "MAX_ROW_REVISION = 9007199254740991"

definition reserveRowRevisions :: "nat \<Rightarrow> memory_store \<Rightarrow> (nat \<times> memory_store) res" where
  "reserveRowRevisions amount st =
     (if rowRevisionGeneration st > MAX_ROW_REVISION \<or> amount > MAX_ROW_REVISION \<or> amount = 0
         \<or> rowRevisionGeneration st > MAX_ROW_REVISION - amount
      then Inl ActiveTsConfigurationError
      else Inr (rowRevisionGeneration st + 1,
                st\<lparr>rowRevisionGeneration := rowRevisionGeneration st + amount\<rparr>))"

text \<open>The same test over the integers, for evaluation.\<close>

lemma reserveRowRevisions_code [code]:
  "reserveRowRevisions amount st =
     (if int (rowRevisionGeneration st) > 9007199254740991 \<or> int amount > 9007199254740991 \<or> amount = 0
         \<or> int (rowRevisionGeneration st) + int amount > 9007199254740991
      then Inl ActiveTsConfigurationError
      else Inr (rowRevisionGeneration st + 1,
                st\<lparr>rowRevisionGeneration := rowRevisionGeneration st + amount\<rparr>))"
  by (auto simp: reserveRowRevisions_def MAX_ROW_REVISION_def)

definition hasSnapshotBefore :: "nat \<Rightarrow> memory_store \<Rightarrow> bool" where
  "hasSnapshotBefore revision st = list_ex (\<lambda>(snapshot, n). snapshot < revision) (activeTransactionSnapshots st)"

definition recordRowRevision :: "string \<Rightarrow> string \<Rightarrow> nat \<Rightarrow> bool \<Rightarrow> memory_store \<Rightarrow> memory_store" where
  "recordRowRevision name key revision rowExists st =
     (let st1 = st\<lparr>rowRevisions := put2 name key revision (rowRevisions st)\<rparr> in
      if rowExists then st1\<lparr>rowRevisionTombstones := drop2 name key (rowRevisionTombstones st1)\<rparr>
      else if hasSnapshotBefore revision st1
      then st1\<lparr>rowRevisionTombstones := put2 name key revision (rowRevisionTombstones st1)\<rparr>
      else st1\<lparr>rowRevisions := drop2 name key (rowRevisions st1),
               rowRevisionTombstones := drop2 name key (rowRevisionTombstones st1)\<rparr>)"

definition beginTransactionSnapshot :: "memory_store \<Rightarrow> nat \<times> memory_store" where
  "beginTransactionSnapshot st =
     (let snapshot = rowRevisionGeneration st;
          uses = (case map_of (activeTransactionSnapshots st) snapshot of None \<Rightarrow> 0 | Some n \<Rightarrow> n)
      in (snapshot, st\<lparr>activeTransactionSnapshots :=
            AList.update snapshot (uses + 1) (activeTransactionSnapshots st)\<rparr>))"

definition oldestSnapshot :: "memory_store \<Rightarrow> nat option" where
  "oldestSnapshot st = fold (\<lambda>(snapshot, n) oldest. case oldest of
       None \<Rightarrow> Some snapshot
     | Some o' \<Rightarrow> if snapshot < o' then Some snapshot else Some o') (activeTransactionSnapshots st) None"

definition expired :: "nat option \<Rightarrow> nat \<Rightarrow> bool" where
  "expired oldest revision = (case oldest of None \<Rightarrow> True | Some s \<Rightarrow> revision \<le> s)"

definition compact_name :: "nat option \<Rightarrow> string \<times> (string \<times> nat) list \<Rightarrow> memory_store \<Rightarrow> memory_store" where
  "compact_name oldest = (\<lambda>(name, tombstones) st.
     let revisions = fold (\<lambda>(key, revision) revs.
           if expired oldest revision \<and> map_of revs key = Some revision then AList.delete key revs else revs)
           tombstones (mget (rowRevisions st) name);
         kept = filter (\<lambda>(key, revision). \<not> expired oldest revision) tombstones
     in st\<lparr>rowRevisions := (if revisions = [] then AList.delete name (rowRevisions st)
                            else AList.update name revisions (rowRevisions st)),
           rowRevisionTombstones := (if kept = [] then AList.delete name (rowRevisionTombstones st)
                            else AList.update name kept (rowRevisionTombstones st))\<rparr>)"

definition compactRowRevisionTombstones :: "memory_store \<Rightarrow> memory_store" where
  "compactRowRevisionTombstones st = fold (compact_name (oldestSnapshot st)) (rowRevisionTombstones st) st"

definition releaseTransactionSnapshot :: "nat \<Rightarrow> memory_store \<Rightarrow> memory_store" where
  "releaseTransactionSnapshot snapshot st =
     compactRowRevisionTombstones (case map_of (activeTransactionSnapshots st) snapshot of
       None \<Rightarrow> st
     | Some uses \<Rightarrow>
         if uses = 1 then st\<lparr>activeTransactionSnapshots := AList.delete snapshot (activeTransactionSnapshots st)\<rparr>
         else st\<lparr>activeTransactionSnapshots := AList.update snapshot (uses - 1) (activeTransactionSnapshots st)\<rparr>)"

section \<open>Counters\<close>

definition count_get :: "memory_store \<Rightarrow> memory_store" where
  "count_get st = st\<lparr>stats := (stats st)\<lparr>s_get := s_get (stats st) + 1\<rparr>\<rparr>"

definition count_getMany :: "memory_store \<Rightarrow> memory_store" where
  "count_getMany st = st\<lparr>stats := (stats st)\<lparr>s_getMany := s_getMany (stats st) + 1\<rparr>\<rparr>"

definition count_query :: "memory_store \<Rightarrow> memory_store" where
  "count_query st = st\<lparr>stats := (stats st)\<lparr>s_query := s_query (stats st) + 1\<rparr>\<rparr>"

definition count_create :: "memory_store \<Rightarrow> memory_store" where
  "count_create st = st\<lparr>stats := (stats st)\<lparr>s_create := s_create (stats st) + 1\<rparr>\<rparr>"

definition count_update :: "memory_store \<Rightarrow> memory_store" where
  "count_update st = st\<lparr>stats := (stats st)\<lparr>s_update := s_update (stats st) + 1\<rparr>\<rparr>"

definition count_delete :: "memory_store \<Rightarrow> memory_store" where
  "count_delete st = st\<lparr>stats := (stats st)\<lparr>s_delete := s_delete (stats st) + 1\<rparr>\<rparr>"

definition mergeStats :: "store_stats \<Rightarrow> memory_store \<Rightarrow> memory_store" where
  "mergeStats s st = st\<lparr>stats :=
     \<lparr>s_get = s_get (stats st) + s_get s, s_getMany = s_getMany (stats st) + s_getMany s,
      s_query = s_query (stats st) + s_query s, s_aggregate = s_aggregate (stats st) + s_aggregate s,
      s_create = s_create (stats st) + s_create s, s_update = s_update (stats st) + s_update s,
      s_delete = s_delete (stats st) + s_delete s\<rparr>\<rparr>"

definition resetStats :: "memory_store \<Rightarrow> memory_store" where
  "resetStats st = st\<lparr>stats := no_stats\<rparr>"

section \<open>Operations\<close>

text \<open>\<open>settle st r\<close>: the outcome of an operation that either changes the state or fails in state \<open>st\<close>.\<close>

definition settle :: "memory_store \<Rightarrow> memory_store res \<Rightarrow> unit res \<times> memory_store" where
  "settle st r = (case r of Inl e \<Rightarrow> (Inl e, st) | Inr st' \<Rightarrow> (Inr (), st'))"

definition store_get :: "model_meta \<Rightarrow> jsval \<Rightarrow> jsval \<Rightarrow> memory_store \<Rightarrow> jsval res \<times> memory_store" where
  "store_get m ident options st =
     (case rbind (rejectUnsupportedStoreReadOptions options) (\<lambda>_. assertSafeEntityId ident) of
        Inl e \<Rightarrow> (Inl e, st)
      | Inr _ \<Rightarrow> let st1 = count_get st in
          (rbind (existingCollection (m_name m) st1) (\<lambda>rows.
           rbind (entityIdKey ident) (\<lambda>key. cloneRow (map_of rows key))), st1))"

definition store_getMany ::
    "model_meta \<Rightarrow> jsval \<Rightarrow> jsval \<Rightarrow> memory_store \<Rightarrow> jsval list res \<times> memory_store" where
  "store_getMany m ids options st =
     (case rbind (rejectUnsupportedStoreReadOptions options) (\<lambda>_. assertSafeEntityIdArray ids) of
        Inl e \<Rightarrow> (Inl e, st)
      | Inr safe \<Rightarrow> let st1 = count_getMany st in
          (rbind (existingCollection (m_name m) st1) (\<lambda>rows.
           rlist (\<lambda>ident. rbind (entityIdKey ident) (\<lambda>key. cloneRow (map_of rows key))) safe), st1))"

definition store_create ::
    "model_meta \<Rightarrow> jsval \<Rightarrow> jsval \<Rightarrow> jsval \<Rightarrow> memory_store \<Rightarrow> unit res \<times> memory_store" where
  "store_create m ident data options st =
     (case rbind (assertSafeEntityId ident) (\<lambda>_. rejectUnsupportedStoreWriteOptions options) of
        Inl e \<Rightarrow> (Inl e, st)
      | Inr _ \<Rightarrow> let st1 = count_create st in settle st1 (
          rbind (clonePortableDataObject data) (\<lambda>clean.
          rbind (assertStoreDataMatchesId m ident clean) (\<lambda>_.
          rbind (entityIdKey ident) (\<lambda>key.
          rbind (existingCollection (m_name m) st1) (\<lambda>existing.
          if mhas existing key then Inl ActiveTsConflictError
          else rbind (reserveRowRevisions 1 st1) (\<lambda>(revision, st2).
            rbind (collection (m_name m) st2) (\<lambda>st3.
            Inr (recordRowRevision (m_name m) key revision True (set_row (m_name m) key clean st3))))))))))"

definition store_update ::
    "model_meta \<Rightarrow> jsval \<Rightarrow> jsval \<Rightarrow> jsval \<Rightarrow> memory_store \<Rightarrow> unit res \<times> memory_store" where
  "store_update m ident data options st =
     (case assertSafeEntityId ident of
        Inl e \<Rightarrow> (Inl e, st)
      | Inr _ \<Rightarrow> let st1 = count_update st in settle st1 (
          rbind (rbind (normalizeStoreWriteOptions options) rejectUnsupportedStoreWriteMetadata) (\<lambda>opts.
          rbind (clonePortableDataObject data) (\<lambda>clean.
          rbind (assertStoreDataMatchesId m ident clean) (\<lambda>_.
          rbind (existingCollection (m_name m) st1) (\<lambda>rows.
          rbind (entityIdKey ident) (\<lambda>key.
          if \<not> mhas rows key then Inl ActiveTsNotFoundError
          else rbind (case wo_expectedVersion opts of
                 None \<Rightarrow> Inr ()
               | Some v \<Rightarrow> if \<not> memoryVersionMatches (map_of rows key) v then Inl ActiveTsConflictError
                            else Inr ()) (\<lambda>_.
            rbind (reserveRowRevisions 1 st1) (\<lambda>(revision, st2).
            Inr (recordRowRevision (m_name m) key revision True (set_row (m_name m) key clean st2)))))))))))"

definition store_delete ::
    "model_meta \<Rightarrow> jsval \<Rightarrow> jsval \<Rightarrow> memory_store \<Rightarrow> unit res \<times> memory_store" where
  "store_delete m ident options st =
     (case assertSafeEntityId ident of
        Inl e \<Rightarrow> (Inl e, st)
      | Inr _ \<Rightarrow> let st1 = count_delete st in settle st1 (
          rbind (rbind (normalizeStoreWriteOptions options) rejectUnsupportedStoreWriteMetadata) (\<lambda>opts.
          rbind (existingCollection (m_name m) st1) (\<lambda>rows.
          rbind (entityIdKey ident) (\<lambda>key.
          rbind (case wo_expectedVersion opts of
                 None \<Rightarrow> Inr ()
               | Some v \<Rightarrow>
                   if map_of rows key = None then Inl ActiveTsNotFoundError
                   else if \<not> memoryVersionMatches (map_of rows key) v then Inl ActiveTsConflictError
                   else Inr ()) (\<lambda>_.
          if mhas rows key
          then rbind (reserveRowRevisions 1 st1) (\<lambda>(revision, st2).
            Inr (recordRowRevision (m_name m) key revision False (delete_row (m_name m) key st2)))
          else Inr st1))))))"

section \<open>Seeding, reading out and resetting\<close>

definition seed_row :: "model_meta \<Rightarrow> jsval \<Rightarrow> (string \<times> jsval) res" where
  "seed_row m row =
     rbind (clonePortableDataObject row) (\<lambda>clean.
     rbind (assertStoreDataHasModelId m clean) (\<lambda>ident.
     rbind (entityIdKey ident) (\<lambda>key. Inr (key, clean))))"

fun record_rows ::
    "string \<Rightarrow> (string \<times> jsval) list \<Rightarrow> nat \<Rightarrow> memory_store \<Rightarrow> memory_store" where
  "record_rows name [] revision st = st"
| "record_rows name ((key, row) # rows) revision st =
     record_rows name rows (revision + 1)
       (recordRowRevision name key revision True (set_row name key row st))"

text \<open>\<open>seed\<close> with a model; with a collection name only, the id field is \<open>id\<close>.\<close>

definition store_seed :: "model_meta \<Rightarrow> jsval \<Rightarrow> memory_store \<Rightarrow> unit res \<times> memory_store" where
  "store_seed m rows st = settle st (
     if \<not> is_array rows then Inl ActiveTsValidationError
     else rbind (snapshotArrayInput rows) (\<lambda>safeRows.
       rbind (assertSafeSchemaIdentifier (Str (m_name m))) (\<lambda>modelName.
       rbind (assertSafeTopLevelField (Str (m_idField m))) (\<lambda>idField.
       rbind (rlist (seed_row \<lparr>m_name = modelName, m_idField = idField\<rparr>) safeRows) (\<lambda>prepared.
       if \<not> distinct (map fst prepared) then Inl ActiveTsConflictError
       else if \<exists>(key, row) \<in> set prepared. mhas (mget (collections st) modelName) key
       then Inl ActiveTsConflictError
       else rbind (if prepared = [] then Inr (0, st) else reserveRowRevisions (length prepared) st)
         (\<lambda>(firstRevision, st1).
         rbind (collection modelName st1) (\<lambda>st2. Inr (record_rows modelName prepared firstRevision st2))))))))"

definition store_dump :: "string \<Rightarrow> memory_store \<Rightarrow> jsval list res" where
  "store_dump modelName st =
     rbind (assertSafeSchemaIdentifier (Str modelName)) (\<lambda>name.
       rlist cloneSafeDataObject (map snd (mget (collections st) name)))"

definition store_snapshot :: "memory_store \<Rightarrow> (string \<times> jsval list) list res" where
  "store_snapshot st =
     rlist (\<lambda>(name, rows). rbind (rlist cloneSafeDataObject (map snd rows)) (\<lambda>rs. Inr (name, rs)))
       (collections st)"

fun record_removed :: "(string \<times> string) list \<Rightarrow> nat \<Rightarrow> memory_store \<Rightarrow> memory_store" where
  "record_removed [] revision st = st"
| "record_removed ((name, key) # ks) revision st =
     record_removed ks (revision + 1) (recordRowRevision name key revision False st)"

definition store_reset_model :: "string \<Rightarrow> memory_store \<Rightarrow> unit res \<times> memory_store" where
  "store_reset_model modelName st = settle st (
     rbind (assertSafeSchemaIdentifier (Str modelName)) (\<lambda>name.
     let rows = mget (collections st) name in
     rbind (if rows = [] then Inr (0, st) else reserveRowRevisions (length rows) st) (\<lambda>(firstRevision, st1).
     Inr (resetStats (record_removed (map (\<lambda>(key, row). (name, key)) rows) firstRevision
       (st1\<lparr>collections := AList.delete name (collections st1)\<rparr>))))))"

definition store_reset :: "memory_store \<Rightarrow> unit res \<times> memory_store" where
  "store_reset st = settle st (
     let removed = map (\<lambda>(name, key, row). (name, key)) (entries2 (collections st)) in
     rbind (if removed = [] then Inr (0, st) else reserveRowRevisions (length removed) st) (\<lambda>(firstRevision, st1).
     Inr (resetStats (record_removed removed firstRevision (st1\<lparr>collections := []\<rparr>)))))"

definition cloneCollections :: "memory_store \<Rightarrow> jsval nested res" where
  "cloneCollections st =
     rlist (\<lambda>(name, rows). rbind (rlist (\<lambda>(key, row). rbind (cloneSafeDataObject row) (\<lambda>c. Inr (key, c))) rows)
         (\<lambda>cs. Inr (name, cs))) (collections st)"

definition replaceCollections :: "jsval nested \<Rightarrow> memory_store \<Rightarrow> memory_store" where
  "replaceCollections next st = st\<lparr>collections := next\<rparr>"

end
