(* ===== verification/MemoryTransaction.thy ===== *)
theory MemoryTransaction
  imports MemoryStore
begin

text \<open>
  \<open>MemoryStoreAdapter.transaction\<close>: a transaction works on a private copy of the collections and keeps
  two books, the changes to publish (\<open>tx_dirty\<close>) and the rows it read by id (\<open>tx_reads\<close>). Commit checks
  the changes and the reads against the current state of the store before it publishes anything. The
  callback of the code is arbitrary, so its calls are single operations here, in any order; a savepoint
  is an entry of a stack, released or restored. \<open>tx_base\<close> is a ghost: the committed collections when the
  transaction began, which no operation reads.
\<close>

section \<open>State\<close>

datatype DirtyChange =
    DirtyCreate jsval
  | DirtyUpdate jsval "jsnum option"
  | DirtyDelete "jsnum option"

type_synonym checkpoint = "jsval nested \<times> DirtyChange nested \<times> bool nested"

record transaction =
  tx_store :: memory_store
  tx_dirty :: "DirtyChange nested"
  tx_reads :: "bool nested"
  tx_snapshot :: nat
  tx_readOnly :: bool
  tx_saves :: "checkpoint list"
  tx_base :: "jsval nested"

section \<open>The books\<close>

definition recordPointRead :: "string \<Rightarrow> string \<Rightarrow> bool nested \<Rightarrow> bool nested" where
  "recordPointRead name key reads = put2 name key True reads"

definition markCreate :: "string \<Rightarrow> string \<Rightarrow> jsval \<Rightarrow> DirtyChange nested \<Rightarrow> DirtyChange nested" where
  "markCreate name key value dirty = put2 name key
     (case lookup2 dirty name key of
        Some (DirtyDelete v) \<Rightarrow> DirtyUpdate value v
      | _ \<Rightarrow> DirtyCreate value) dirty"

definition markUpdate ::
    "string \<Rightarrow> string \<Rightarrow> jsval \<Rightarrow> jsnum option \<Rightarrow> DirtyChange nested \<Rightarrow> DirtyChange nested" where
  "markUpdate name key value expectedVersion dirty = put2 name key
     (case lookup2 dirty name key of
        Some (DirtyCreate _) \<Rightarrow> DirtyCreate value
      | Some (DirtyUpdate _ v) \<Rightarrow> DirtyUpdate value v
      | Some (DirtyDelete v) \<Rightarrow> DirtyUpdate value v
      | None \<Rightarrow> DirtyUpdate value expectedVersion) dirty"

definition markDelete ::
    "string \<Rightarrow> string \<Rightarrow> bool \<Rightarrow> jsnum option \<Rightarrow> DirtyChange nested \<Rightarrow> DirtyChange nested" where
  "markDelete name key existed expectedVersion dirty = (case lookup2 dirty name key of
     Some (DirtyCreate _) \<Rightarrow> drop2 name key dirty
   | Some (DirtyUpdate _ v) \<Rightarrow> put2 name key (DirtyDelete v) dirty
   | Some (DirtyDelete v) \<Rightarrow> put2 name key (DirtyDelete v) dirty
   | None \<Rightarrow>
       if \<not> existed then (if mget dirty name = [] then AList.delete name dirty else dirty)
       else put2 name key (DirtyDelete expectedVersion) dirty)"

definition cloneChange :: "DirtyChange \<Rightarrow> DirtyChange res" where
  "cloneChange change = (case change of
     DirtyCreate v \<Rightarrow> rbind (cloneSafeDataObject v) (\<lambda>c. Inr (DirtyCreate c))
   | DirtyUpdate v e \<Rightarrow> rbind (cloneSafeDataObject v) (\<lambda>c. Inr (DirtyUpdate c e))
   | DirtyDelete e \<Rightarrow> Inr (DirtyDelete e))"

definition cloneDirty :: "DirtyChange nested \<Rightarrow> DirtyChange nested res" where
  "cloneDirty dirty =
     rlist (\<lambda>(name, changes). rbind (rlist (\<lambda>(key, change). rbind (cloneChange change) (\<lambda>c. Inr (key, c))) changes)
         (\<lambda>cs. Inr (name, cs))) dirty"

section \<open>Operations inside a transaction\<close>

definition tx_get :: "model_meta \<Rightarrow> jsval \<Rightarrow> jsval \<Rightarrow> transaction \<Rightarrow> jsval res \<times> transaction" where
  "tx_get m ident options t =
     (case assertSafeEntityId ident of
        Inl e \<Rightarrow> (Inl e, t)
      | Inr _ \<Rightarrow> (case store_get m ident options (tx_store t) of (r, st) \<Rightarrow>
          let t1 = t\<lparr>tx_store := st\<rparr> in
          (case r of
             Inl e \<Rightarrow> (Inl e, t1)
           | Inr row \<Rightarrow> (case entityIdKey ident of
               Inl e \<Rightarrow> (Inl e, t1)
             | Inr key \<Rightarrow> (Inr row, t1\<lparr>tx_reads := recordPointRead (m_name m) key (tx_reads t1)\<rparr>)))))"

fun record_reads :: "string \<Rightarrow> jsval list \<Rightarrow> bool nested \<Rightarrow> bool nested res" where
  "record_reads name [] reads = Inr reads"
| "record_reads name (ident # ids) reads =
     rbind (entityIdKey ident) (\<lambda>key. record_reads name ids (recordPointRead name key reads))"

definition tx_getMany :: "model_meta \<Rightarrow> jsval \<Rightarrow> jsval \<Rightarrow> transaction \<Rightarrow> jsval list res \<times> transaction" where
  "tx_getMany m ids options t =
     (case assertSafeEntityIdArray ids of
        Inl e \<Rightarrow> (Inl e, t)
      | Inr safeIds \<Rightarrow> (case store_getMany m (js_array safeIds) options (tx_store t) of (r, st) \<Rightarrow>
          let t1 = t\<lparr>tx_store := st\<rparr> in
          (case r of
             Inl e \<Rightarrow> (Inl e, t1)
           | Inr rows \<Rightarrow> (case record_reads (m_name m) safeIds (tx_reads t1) of
               Inl e \<Rightarrow> (Inl e, t1)
             | Inr reads \<Rightarrow> (Inr rows, t1\<lparr>tx_reads := reads\<rparr>)))))"

definition tx_create ::
    "model_meta \<Rightarrow> jsval \<Rightarrow> jsval \<Rightarrow> jsval \<Rightarrow> transaction \<Rightarrow> unit res \<times> transaction" where
  "tx_create m ident data options t =
     (case rbind (rejectUnsupportedStoreWriteOptions options) (\<lambda>_.
           rbind (clonePortableDataObject data) (\<lambda>clean.
           rbind (assertStoreDataMatchesId m ident clean) (\<lambda>_. Inr clean))) of
        Inl e \<Rightarrow> (Inl e, t)
      | Inr clean \<Rightarrow> (case store_create m ident clean Undef (tx_store t) of (r, st) \<Rightarrow>
          let t1 = t\<lparr>tx_store := st\<rparr> in
          (case rbind r (\<lambda>_. entityIdKey ident) of
             Inl e \<Rightarrow> (Inl e, t1)
           | Inr key \<Rightarrow> (Inr (), t1\<lparr>tx_dirty := markCreate (m_name m) key clean (tx_dirty t1)\<rparr>))))"

definition write_options_value :: "StoreWriteOptions \<Rightarrow> jsval" where
  "write_options_value o' = js_object [(''expectedVersion'',
     case wo_expectedVersion o' of None \<Rightarrow> Undef | Some v \<Rightarrow> Num v)]"

definition tx_update ::
    "model_meta \<Rightarrow> jsval \<Rightarrow> jsval \<Rightarrow> jsval \<Rightarrow> transaction \<Rightarrow> unit res \<times> transaction" where
  "tx_update m ident data options t =
     (case rbind (rbind (normalizeStoreWriteOptions options) rejectUnsupportedStoreWriteMetadata) (\<lambda>opts.
           rbind (clonePortableDataObject data) (\<lambda>clean.
           rbind (assertStoreDataMatchesId m ident clean) (\<lambda>_. Inr (opts, clean)))) of
        Inl e \<Rightarrow> (Inl e, t)
      | Inr (opts, clean) \<Rightarrow> (case store_update m ident clean (write_options_value opts) (tx_store t) of (r, st) \<Rightarrow>
          let t1 = t\<lparr>tx_store := st\<rparr> in
          (case rbind r (\<lambda>_. entityIdKey ident) of
             Inl e \<Rightarrow> (Inl e, t1)
           | Inr key \<Rightarrow> (Inr (), t1\<lparr>tx_dirty :=
               markUpdate (m_name m) key clean (wo_expectedVersion opts) (tx_dirty t1)\<rparr>))))"

definition tx_delete :: "model_meta \<Rightarrow> jsval \<Rightarrow> jsval \<Rightarrow> transaction \<Rightarrow> unit res \<times> transaction" where
  "tx_delete m ident options t =
     (case rbind (assertSafeEntityId ident) (\<lambda>_.
           rbind (rbind (normalizeStoreWriteOptions options) rejectUnsupportedStoreWriteMetadata) (\<lambda>opts.
           rbind (existingCollection (m_name m) (tx_store t)) (\<lambda>rows.
           rbind (entityIdKey ident) (\<lambda>key. Inr (opts, mhas rows key, key))))) of
        Inl e \<Rightarrow> (Inl e, t)
      | Inr (opts, existed, key) \<Rightarrow> (case store_delete m ident (write_options_value opts) (tx_store t) of (r, st) \<Rightarrow>
          let t1 = t\<lparr>tx_store := st\<rparr> in
          (case r of
             Inl e \<Rightarrow> (Inl e, t1)
           | Inr _ \<Rightarrow> (Inr (), t1\<lparr>tx_dirty :=
               markDelete (m_name m) key existed (wo_expectedVersion opts) (tx_dirty t1)\<rparr>))))"

section \<open>Savepoints\<close>

definition savepoint_begin :: "transaction \<Rightarrow> unit res \<times> transaction" where
  "savepoint_begin t =
     (case rbind (cloneCollections (tx_store t)) (\<lambda>rows.
           rbind (cloneDirty (tx_dirty t)) (\<lambda>dirty. Inr (rows, dirty, tx_reads t))) of
        Inl e \<Rightarrow> (Inl e, t)
      | Inr saved \<Rightarrow> (Inr (), t\<lparr>tx_saves := saved # tx_saves t\<rparr>))"

definition savepoint_release :: "transaction \<Rightarrow> transaction" where
  "savepoint_release t = t\<lparr>tx_saves := tl (tx_saves t)\<rparr>"

definition savepoint_restore :: "transaction \<Rightarrow> transaction" where
  "savepoint_restore t = (case tx_saves t of
     [] \<Rightarrow> t
   | (rows, dirty, reads) # saves \<Rightarrow>
       t\<lparr>tx_store := replaceCollections rows (tx_store t), tx_dirty := dirty, tx_reads := reads,
         tx_saves := saves\<rparr>)"

section \<open>Commit\<close>

definition check_change :: "jsval nested \<Rightarrow> string \<times> string \<times> DirtyChange \<Rightarrow> unit res" where
  "check_change current = (\<lambda>(name, key, change). let row = lookup2 current name key in
     case change of
       DirtyCreate _ \<Rightarrow> if row \<noteq> None then Inl ActiveTsConflictError else Inr ()
     | DirtyUpdate _ expected \<Rightarrow>
         if row = None then Inl ActiveTsNotFoundError
         else (case expected of
            None \<Rightarrow> Inr ()
          | Some v \<Rightarrow> if \<not> memoryVersionMatches row v then Inl ActiveTsConflictError else Inr ())
     | DirtyDelete expected \<Rightarrow> (case expected of
            None \<Rightarrow> Inr ()
          | Some v \<Rightarrow>
              if row = None then Inl ActiveTsNotFoundError
              else if \<not> memoryVersionMatches row v then Inl ActiveTsConflictError else Inr ()))"

definition check_read :: "nat nested \<Rightarrow> nat \<Rightarrow> string \<times> string \<times> bool \<Rightarrow> unit res" where
  "check_read revisions revisionSnapshot = (\<lambda>(name, key, r).
     case lookup2 revisions name key of
       None \<Rightarrow> Inr ()
     | Some currentRevision \<Rightarrow>
         if currentRevision > revisionSnapshot then Inl ActiveTsConflictError else Inr ())"

definition mutates :: "jsval nested \<Rightarrow> string \<times> string \<times> DirtyChange \<Rightarrow> bool" where
  "mutates current = (\<lambda>(name, key, change).
     (case change of DirtyDelete _ \<Rightarrow> lookup2 current name key \<noteq> None | _ \<Rightarrow> True))"

definition publish_row :: "string \<Rightarrow> string \<Rightarrow> jsval \<Rightarrow> nat \<Rightarrow> memory_store \<Rightarrow> unit res \<times> memory_store" where
  "publish_row name key value revision st = (case collection name st of
     Inl e \<Rightarrow> (Inl e, st)
   | Inr st1 \<Rightarrow> (case cloneSafeDataObject value of
       Inl e \<Rightarrow> (Inl e, st1)
     | Inr row \<Rightarrow> (Inr (), recordRowRevision name key revision True (set_row name key row st1))))"

fun apply_changes ::
    "(string \<times> string \<times> DirtyChange) list \<Rightarrow> nat \<Rightarrow> memory_store \<Rightarrow> unit res \<times> memory_store" where
  "apply_changes [] revision st = (Inr (), st)"
| "apply_changes ((name, key, DirtyDelete e) # changes) revision st =
     (if lookup2 (collections st) name key \<noteq> None
      then apply_changes changes (revision + 1) (recordRowRevision name key revision False (delete_row name key st))
      else apply_changes changes revision st)"
| "apply_changes ((name, key, DirtyCreate value) # changes) revision st =
     (case publish_row name key value revision st of
        (Inl e, st1) \<Rightarrow> (Inl e, st1)
      | (Inr _, st1) \<Rightarrow> apply_changes changes (revision + 1) st1)"
| "apply_changes ((name, key, DirtyUpdate value e) # changes) revision st =
     (case publish_row name key value revision st of
        (Inl e', st1) \<Rightarrow> (Inl e', st1)
      | (Inr _, st1) \<Rightarrow> apply_changes changes (revision + 1) st1)"

text \<open>The outcome of \<open>applyDirty\<close> and the state it leaves, which a failure half way has changed already.\<close>

definition applyDirty ::
    "DirtyChange nested \<Rightarrow> bool nested \<Rightarrow> nat \<Rightarrow> memory_store \<Rightarrow> unit res \<times> memory_store" where
  "applyDirty dirty pointReads revisionSnapshot st =
     (case rbind (reach (check_change (collections st)) (entries2 dirty)) (\<lambda>_.
           rbind (reach (check_read (rowRevisions st) revisionSnapshot) (entries2 pointReads)) (\<lambda>_.
           let mutationCount = length (filter (mutates (collections st)) (entries2 dirty)) in
           if mutationCount = 0 then Inr (0, st) else reserveRowRevisions mutationCount st)) of
        Inl e \<Rightarrow> (Inl e, st)
      | Inr (firstRevision, st1) \<Rightarrow> apply_changes (entries2 dirty) firstRevision st1)"

definition finish_transaction :: "transaction \<Rightarrow> memory_store \<Rightarrow> memory_store" where
  "finish_transaction t st = releaseTransactionSnapshot (tx_snapshot t) (mergeStats (stats (tx_store t)) st)"

definition begin_transaction :: "jsval \<Rightarrow> memory_store \<Rightarrow> transaction res \<times> memory_store" where
  "begin_transaction options st =
     (case rbind (normalizeStoreTransactionOptions options) (\<lambda>opts.
           if to_isolation opts \<noteq> None then Inl ActiveTsConfigurationError
           else if to_timeoutMs opts \<noteq> None then Inl ActiveTsConfigurationError
           else if to_native opts \<noteq> None then Inl ActiveTsConfigurationError
           else rbind (cloneCollections st) (\<lambda>rows. Inr (opts, rows))) of
        Inl e \<Rightarrow> (Inl e, st)
      | Inr (opts, rows) \<Rightarrow> (case beginTransactionSnapshot st of (snapshot, st1) \<Rightarrow>
          (Inr \<lparr>tx_store = replaceCollections rows new_store, tx_dirty = [], tx_reads = [],
                tx_snapshot = snapshot, tx_readOnly = (to_readOnly opts = Some True), tx_saves = [],
                tx_base = collections st\<rparr>, st1)))"

end
