(* ===== verification/StoreInvariant.thy ===== *)
theory StoreInvariant
  imports MemoryTransaction "HOL-Library.Multiset"
begin

text \<open>
  The invariant of a memory store that transactions watch. \<open>consistent pend st ws\<close> relates the state to the
  list \<open>ws\<close> of running transactions, each given by its revision snapshot and the collections it began
  with; \<open>pend\<close> is the set of rows whose revision is still to be recorded, empty between operations. The
  lemmas show that every operation of \<open>MemoryStore\<close> preserves it, from one lemma for each of the small
  steps they are made of.
\<close>

section \<open>Good collections\<close>

definition good_row :: "jsval \<Rightarrow> bool" where
  "good_row v = (row_value v \<and> is_plain_object v)"

definition safe_name :: "string \<Rightarrow> bool" where
  "safe_name n = (assertSafeSchemaIdentifier (Str n) = Inr n)"

definition good_rows :: "jsval nested \<Rightarrow> bool" where
  "good_rows m = (wf2 m \<and> (\<forall>(n, t) \<in> set m. safe_name n) \<and> (\<forall>n k v. lookup2 m n k = Some v \<longrightarrow> good_row v))"

lemma safe_name_iff: "assertSafeSchemaIdentifier (Str n) = Inr m \<longleftrightarrow> m = n \<and> safe_name n"
  by (auto simp: safe_name_def split: if_splits)

lemma good_clone: "good_row v \<Longrightarrow> cloneSafeDataObject v = Inr v"
  by (simp add: good_row_def row_clone_object)

lemma good_stored: "clonePortableDataObject d = Inr c \<Longrightarrow> symbol_free d \<Longrightarrow> good_row c"
  by (simp add: good_row_def stored_clone)

lemma good_portable: "good_row v \<Longrightarrow> clonePortableDataObject v = Inr w \<Longrightarrow> w = v"
  by (simp add: clonePortableDataObject_def clonePortableData_def rbind_Inr_iff good_row_def row_clone)

lemma good_not_null: "good_row v \<Longrightarrow> v \<noteq> Null \<and> v \<noteq> Undef"
  by (auto simp: good_row_def)

lemma good_symbol_free: "good_row v \<Longrightarrow> symbol_free v"
  by (simp add: good_row_def row_normal)

lemma good_rows_Nil [simp]: "good_rows []"
  by (simp add: good_rows_def lookup2_def mget_def)

lemma good_rows_wf: "good_rows m \<Longrightarrow> wf2 m"
  by (simp add: good_rows_def)

lemma good_rows_row: "good_rows m \<Longrightarrow> lookup2 m n k = Some v \<Longrightarrow> good_row v"
  by (auto simp: good_rows_def)

lemma good_rows_name: "good_rows m \<Longrightarrow> lookup2 m n k = Some v \<Longrightarrow> safe_name n"
  by (fastforce simp: good_rows_def dest: lookup2_Some)

lemma good_rows_put [simp]:
  assumes "good_rows m" and "safe_name n" and "good_row v"
  shows "good_rows (put2 n k v m)"
  using assms set_update_sub [of n "AList.update k v (mget m n)" m]
  by (auto simp: good_rows_def put2_def [symmetric] map_simps split: if_splits)

lemma good_rows_outer:
  assumes "good_rows m" and "distinct (map fst t)" and "safe_name n"
    and "\<And>k v. map_of t k = Some v \<Longrightarrow> good_row v"
  shows "good_rows (AList.update n t m)"
  using assms set_update_sub [of n t m]
  by (auto simp: good_rows_def lookup2_def map_simps split: if_splits)

lemma good_rows_delete [simp]: "good_rows m \<Longrightarrow> good_rows (AList.delete n m)"
  using set_delete_sub [of n m]
  by (auto simp: good_rows_def lookup2_def map_simps mget_def split: if_splits option.splits)

lemma good_rows_remove [simp]:
  assumes "good_rows m" and "safe_name n"
  shows "good_rows (AList.update n (AList.delete k (mget m n)) m)"
proof (rule good_rows_outer [OF assms(1) _ assms(2)])
  show "distinct (map fst (AList.delete k (mget m n)))"
    using assms(1) by (simp add: good_rows_wf wf2_inner)
  show "good_row v" if "map_of (AList.delete k (mget m n)) k' = Some v" for k' v
    using that good_rows_row [OF assms(1), of n k' v] by (simp add: map_simps lookup2_def split: if_splits)
qed

lemma good_rows_clone:
  assumes "good_rows (collections st)"
  shows "cloneCollections st = Inr (collections st)"
proof -
  have "rlist (\<lambda>(key, row). rbind (cloneSafeDataObject row) (\<lambda>c. Inr (key, c))) rows = Inr rows"
    if "(n, rows) \<in> set (collections st)" for n rows
  proof -
    have "cloneSafeDataObject v = Inr v" if "(k, v) \<in> set rows" for k v
      using assms \<open>(n, rows) \<in> set _\<close> that lookup2_member good_rows_wf good_rows_row good_clone by metis
    then have "rlist (\<lambda>(key, row). rbind (cloneSafeDataObject row) (\<lambda>c. Inr (key, c))) rows = Inr (map id rows)"
      by (intro rlist_map_Inr) auto
    then show ?thesis by simp
  qed
  then have "cloneCollections st = Inr (map id (collections st))"
    unfolding cloneCollections_def by (intro rlist_map_Inr) auto
  then show ?thesis by simp
qed

section \<open>Compaction of tombstones\<close>

lemma fold_drop_revisions:
  assumes "distinct (map fst ts)"
  shows "map_of (fold (\<lambda>(key, revision) revs.
           if expired oldest revision \<and> map_of revs key = Some revision then AList.delete key revs else revs) ts revs) k
       = (case map_of ts k of
            Some r \<Rightarrow> if expired oldest r \<and> map_of revs k = Some r then None else map_of revs k
          | None \<Rightarrow> map_of revs k)"
  using assms
proof (induction ts arbitrary: revs)
  case (Cons x ts)
  obtain key r where x: "x = (key, r)" by force
  from Cons.prems x have "key \<notin> fst ` set ts" and "distinct (map fst ts)" by auto
  then have "map_of ts key = None" by (simp add: map_of_eq_None_iff)
  with Cons.IH [OF \<open>distinct (map fst ts)\<close>] x show ?case
    by (auto simp: map_simps split: option.splits)
qed simp

lemma fold_drop_distinct:
  "distinct (map fst revs) \<Longrightarrow> distinct (map fst (fold (\<lambda>(key, revision) revs.
     if expired oldest revision \<and> map_of revs key = Some revision then AList.delete key revs else revs) ts revs))"
  by (induction ts arbitrary: revs) auto

lemma map_of_filter_distinct:
  "distinct (map fst ts) \<Longrightarrow>
   map_of (filter (\<lambda>(k, v). P v) ts) k = (case map_of ts k of None \<Rightarrow> None | Some v \<Rightarrow> if P v then Some v else None)"
proof (induction ts)
  case (Cons x ts)
  then have "fst x \<notin> fst ` set ts" by simp
  then have "map_of ts (fst x) = None" by (simp add: map_of_eq_None_iff)
  with Cons show ?case by (cases x) (auto split: option.splits)
qed simp

definition compact_revision :: "nat option \<Rightarrow> nat option \<Rightarrow> nat option \<Rightarrow> nat option" where
  "compact_revision oldest tomb revision = (case tomb of
     Some r \<Rightarrow> if expired oldest r \<and> revision = Some r then None else revision
   | None \<Rightarrow> revision)"

definition compact_tombstone :: "nat option \<Rightarrow> nat option \<Rightarrow> nat option" where
  "compact_tombstone oldest tomb = (case tomb of
     Some r \<Rightarrow> if expired oldest r then None else Some r
   | None \<Rightarrow> None)"

lemma mget_replace [simp]:
  "mget (if t = [] then AList.delete n m else AList.update n t m) n' = (if n' = n then t else mget m n')"
  by (simp add: map_simps)

lemma compact_name_lookup:
  assumes "distinct (map fst ts)"
  shows "lookup2 (rowRevisions (compact_name oldest (name, ts) st)) n k =
      (if n = name then compact_revision oldest (map_of ts k) (lookup2 (rowRevisions st) n k)
       else lookup2 (rowRevisions st) n k)"
    and "lookup2 (rowRevisionTombstones (compact_name oldest (name, ts) st)) n k =
      (if n = name then compact_tombstone oldest (map_of ts k) else lookup2 (rowRevisionTombstones st) n k)"
  using assms
  by (simp_all add: compact_name_def Let_def lookup2_def fold_drop_revisions map_of_filter_distinct
      compact_revision_def compact_tombstone_def split: option.splits)

lemma compact_name_wf:
  assumes "distinct (map fst ts)" and "wf2 (rowRevisions st)" and "wf2 (rowRevisionTombstones st)"
  shows "wf2 (rowRevisions (compact_name oldest (name, ts) st))"
    and "wf2 (rowRevisionTombstones (compact_name oldest (name, ts) st))"
  using assms by (simp_all add: compact_name_def Let_def fold_drop_distinct wf2_inner distinct_map_filter)

lemma compact_name_frame [simp]:
  "collections (compact_name oldest nt st) = collections st"
  "activeTransactionSnapshots (compact_name oldest nt st) = activeTransactionSnapshots st"
  "rowRevisionGeneration (compact_name oldest nt st) = rowRevisionGeneration st"
  "stats (compact_name oldest nt st) = stats st"
  by (cases nt, simp add: compact_name_def Let_def)+

lemma compact_fold_frame [simp]:
  "collections (fold (compact_name oldest) tombs st) = collections st"
  "activeTransactionSnapshots (fold (compact_name oldest) tombs st) = activeTransactionSnapshots st"
  "rowRevisionGeneration (fold (compact_name oldest) tombs st) = rowRevisionGeneration st"
  "stats (fold (compact_name oldest) tombs st) = stats st"
  by (induction tombs arbitrary: st) simp_all

lemma compact_fold_lookup:
  assumes "distinct (map fst tombs)" and "\<And>n ts. (n, ts) \<in> set tombs \<Longrightarrow> distinct (map fst ts)"
  shows "lookup2 (rowRevisions (fold (compact_name oldest) tombs st)) n k =
      compact_revision oldest (lookup2 tombs n k) (lookup2 (rowRevisions st) n k)
    \<and> lookup2 (rowRevisionTombstones (fold (compact_name oldest) tombs st)) n k =
      (if n \<in> fst ` set tombs then compact_tombstone oldest (lookup2 tombs n k)
       else lookup2 (rowRevisionTombstones st) n k)"
  using assms
proof (induction tombs arbitrary: st)
  case Nil
  then show ?case by (simp add: lookup2_def mget_def compact_revision_def)
next
  case (Cons x tombs)
  obtain name ts where x: "x = (name, ts)" by force
  have d: "distinct (map fst ts)" using Cons.prems(2) [of name ts] x by simp
  have IH: "distinct (map fst tombs)" "\<And>n ts. (n, ts) \<in> set tombs \<Longrightarrow> distinct (map fst ts)"
    and new: "name \<notin> fst ` set tombs" using Cons.prems x by auto
  from new have none: "map_of tombs name = None" by (simp add: map_of_eq_None_iff)
  have l: "lookup2 (x # tombs) n k = (if n = name then map_of ts k else lookup2 tombs n k)"
    using x by (simp add: lookup2_def mget_def)
  show ?case
  proof (cases "n = name")
    case True
    then have "lookup2 tombs n k = None" using none by (simp add: lookup2_def mget_def)
    then show ?thesis using Cons.IH [OF IH, where st = "compact_name oldest x st"] new True d
      unfolding l by (simp add: x compact_name_lookup [OF d] compact_revision_def split: option.splits)
  next
    case False
    then show ?thesis using Cons.IH [OF IH, where st = "compact_name oldest x st"] unfolding l
      by (auto simp add: x compact_name_lookup [OF d])
  qed
qed

lemma compact_fold_wf:
  assumes "\<And>n ts. (n, ts) \<in> set tombs \<Longrightarrow> distinct (map fst ts)"
    and "wf2 (rowRevisions st)" and "wf2 (rowRevisionTombstones st)"
  shows "wf2 (rowRevisions (fold (compact_name oldest) tombs st))
      \<and> wf2 (rowRevisionTombstones (fold (compact_name oldest) tombs st))"
  using assms
proof (induction tombs arbitrary: st)
  case (Cons x tombs)
  obtain name ts where x: "x = (name, ts)" by force
  have d: "distinct (map fst ts)" using Cons.prems(1) [of name ts] x by simp
  have t: "\<And>n ts. (n, ts) \<in> set tombs \<Longrightarrow> distinct (map fst ts)" using Cons.prems(1) by auto
  from Cons.IH [OF t compact_name_wf [OF d Cons.prems(2,3)]] x show ?case by simp
qed simp

lemma compact_lookup:
  assumes "wf2 (rowRevisionTombstones st)"
  shows "lookup2 (rowRevisions (compactRowRevisionTombstones st)) n k =
      compact_revision (oldestSnapshot st) (lookup2 (rowRevisionTombstones st) n k) (lookup2 (rowRevisions st) n k)"
    and "lookup2 (rowRevisionTombstones (compactRowRevisionTombstones st)) n k =
      compact_tombstone (oldestSnapshot st) (lookup2 (rowRevisionTombstones st) n k)"
proof -
  have w: "distinct (map fst (rowRevisionTombstones st))"
    "\<And>n ts. (n, ts) \<in> set (rowRevisionTombstones st) \<Longrightarrow> distinct (map fst ts)"
    using assms by (auto simp: wf2_def)
  have "lookup2 (rowRevisionTombstones st) n k = None" if "n \<notin> fst ` set (rowRevisionTombstones st)"
    using that by (simp add: lookup2_def mget_def map_of_eq_None_iff [symmetric])
  with compact_fold_lookup [OF w, where oldest = "oldestSnapshot st" and st = st and n = n and k = k]
  show "lookup2 (rowRevisions (compactRowRevisionTombstones st)) n k =
      compact_revision (oldestSnapshot st) (lookup2 (rowRevisionTombstones st) n k) (lookup2 (rowRevisions st) n k)"
    and "lookup2 (rowRevisionTombstones (compactRowRevisionTombstones st)) n k =
      compact_tombstone (oldestSnapshot st) (lookup2 (rowRevisionTombstones st) n k)"
    by (auto simp: compactRowRevisionTombstones_def compact_tombstone_def)
qed

lemma compact_frame [simp]:
  "collections (compactRowRevisionTombstones st) = collections st"
  "activeTransactionSnapshots (compactRowRevisionTombstones st) = activeTransactionSnapshots st"
  "rowRevisionGeneration (compactRowRevisionTombstones st) = rowRevisionGeneration st"
  "stats (compactRowRevisionTombstones st) = stats st"
  by (simp_all add: compactRowRevisionTombstones_def)

lemma compact_wf:
  assumes "wf2 (rowRevisions st)" and "wf2 (rowRevisionTombstones st)"
  shows "wf2 (rowRevisions (compactRowRevisionTombstones st))"
    and "wf2 (rowRevisionTombstones (compactRowRevisionTombstones st))"
proof -
  have "distinct (map fst ts)" if "(n, ts) \<in> set (rowRevisionTombstones st)" for n ts
    using assms(2) that by (auto simp: wf2_def)
  from compact_fold_wf [OF this assms]
  show "wf2 (rowRevisions (compactRowRevisionTombstones st))"
    and "wf2 (rowRevisionTombstones (compactRowRevisionTombstones st))"
    by (simp_all add: compactRowRevisionTombstones_def)
qed

definition older :: "nat \<times> nat \<Rightarrow> nat option \<Rightarrow> nat option" where
  "older = (\<lambda>(snapshot, n) oldest. case oldest of
       None \<Rightarrow> Some snapshot
     | Some o' \<Rightarrow> if snapshot < o' then Some snapshot else Some o')"

lemma oldest_fold_Some: "fold older xs (Some a) = Some (fold min (map fst xs) a)"
  by (induction xs arbitrary: a) (auto simp: older_def min_def)

lemma oldest_cases:
  "oldestSnapshot st = (case activeTransactionSnapshots st of
     [] \<Rightarrow> None | x # xs \<Rightarrow> Some (Min (set (map fst (x # xs)))))"
proof (cases "activeTransactionSnapshots st")
  case (Cons x xs)
  have "fold older (x # xs) None = fold older xs (Some (fst x))"
    by (cases x) (simp add: older_def)
  also have "\<dots> = Some (Min (set (map fst (x # xs))))"
    by (simp only: oldest_fold_Some list.map Min.set_eq_fold)
  finally show ?thesis using Cons by (simp add: oldestSnapshot_def older_def)
qed (simp add: oldestSnapshot_def)

lemma oldest_None: "oldestSnapshot st = None \<longleftrightarrow> activeTransactionSnapshots st = []"
  by (simp add: oldest_cases split: list.splits)

lemma oldest_Some:
  assumes "oldestSnapshot st = Some m"
  shows "m \<in> fst ` set (activeTransactionSnapshots st)"
    and "s \<in> fst ` set (activeTransactionSnapshots st) \<Longrightarrow> m \<le> s"
proof -
  let ?S = "fst ` set (activeTransactionSnapshots st)"
  from assms have m: "m = Min ?S" and ne: "?S \<noteq> {}"
    by (auto simp add: oldest_cases split: list.splits)
  show "m \<in> ?S" using Min_in [OF _ ne] m by simp
  show "s \<in> ?S \<Longrightarrow> m \<le> s" using m by simp
qed

section \<open>The invariant\<close>

abbreviation row_at :: "memory_store \<Rightarrow> string \<Rightarrow> string \<Rightarrow> jsval option" where
  "row_at st n k \<equiv> lookup2 (collections st) n k"

abbreviation revision_at :: "memory_store \<Rightarrow> string \<Rightarrow> string \<Rightarrow> nat option" where
  "revision_at st n k \<equiv> lookup2 (rowRevisions st) n k"

abbreviation tombstone_at :: "memory_store \<Rightarrow> string \<Rightarrow> string \<Rightarrow> nat option" where
  "tombstone_at st n k \<equiv> lookup2 (rowRevisionTombstones st) n k"

type_synonym watcher = "nat \<times> jsval nested"

definition snapshot_uses :: "watcher list \<Rightarrow> nat \<Rightarrow> nat option" where
  "snapshot_uses ws s = (let uses = count_list (map fst ws) s in if uses = 0 then None else Some uses)"

definition well_formed :: "memory_store \<Rightarrow> watcher list \<Rightarrow> bool" where
  "well_formed st ws = (good_rows (collections st) \<and> wf2 (rowRevisions st) \<and> wf2 (rowRevisionTombstones st)
     \<and> distinct (map fst (activeTransactionSnapshots st))
     \<and> map_of (activeTransactionSnapshots st) = snapshot_uses ws
     \<and> (\<forall>w \<in> set ws. fst w \<le> rowRevisionGeneration st)
     \<and> rowRevisionGeneration st \<le> MAX_ROW_REVISION)"

definition newer_revision :: "nat \<Rightarrow> nat option \<Rightarrow> bool" where
  "newer_revision s revision = (case revision of None \<Rightarrow> False | Some r \<Rightarrow> s < r)"

text \<open>What holds of a single row, given its current value, its revision and its tombstone: a tombstone is
  the revision of a missing row and younger than some snapshot, and a row that differs from what a
  transaction began with has a revision younger than the snapshot of that transaction.\<close>

definition row_tracked ::
    "nat \<Rightarrow> watcher list \<Rightarrow> string \<Rightarrow> string \<Rightarrow> bool \<Rightarrow> jsval option \<Rightarrow> nat option \<Rightarrow> nat option \<Rightarrow> bool" where
  "row_tracked gen ws n k settled row revision tombstone = (
     (\<forall>r. revision = Some r \<longrightarrow> r \<le> gen)
   \<and> (\<forall>r. tombstone = Some r \<longrightarrow> (\<exists>w \<in> set ws. fst w < r))
   \<and> (settled \<longrightarrow> tombstone = (if row = None then revision else None)
        \<and> (\<forall>w \<in> set ws. row \<noteq> lookup2 (snd w) n k \<longrightarrow> newer_revision (fst w) revision)))"

definition tracked :: "(string \<times> string) set \<Rightarrow> memory_store \<Rightarrow> watcher list \<Rightarrow> bool" where
  "tracked pend st ws = (\<forall>n k. row_tracked (rowRevisionGeneration st) ws n k ((n, k) \<notin> pend)
     (row_at st n k) (revision_at st n k) (tombstone_at st n k))"

lemma row_tracked_pending:
  "row_tracked gen ws n k settled row revision tombstone \<Longrightarrow> row_tracked gen ws n k False row' revision tombstone"
  by (simp add: row_tracked_def)

lemma row_tracked_weaken:
  "row_tracked gen ws n k settled row revision tombstone \<Longrightarrow> gen \<le> gen' \<Longrightarrow> (settled' \<Longrightarrow> settled) \<Longrightarrow>
   row_tracked gen' ws n k settled' row revision tombstone"
  unfolding row_tracked_def using order_trans by blast

lemma trackedD: "tracked pend st ws \<Longrightarrow> row_tracked (rowRevisionGeneration st) ws n k ((n, k) \<notin> pend)
     (row_at st n k) (revision_at st n k) (tombstone_at st n k)"
  by (simp add: tracked_def)

lemma tracked_weaken:
  assumes "tracked p st ws" and "p \<subseteq> q" and "rowRevisionGeneration st \<le> rowRevisionGeneration st'"
    and "collections st' = collections st" "rowRevisions st' = rowRevisions st"
      "rowRevisionTombstones st' = rowRevisionTombstones st"
  shows "tracked q st' ws"
  unfolding tracked_def assms(4-6)
proof (intro allI)
  fix n k
  show "row_tracked (rowRevisionGeneration st') ws n k ((n, k) \<notin> q) (row_at st n k) (revision_at st n k)
    (tombstone_at st n k)"
    by (rule row_tracked_weaken [OF trackedD [OF assms(1)] assms(3)]) (use assms(2) in blast)
qed

definition consistent :: "(string \<times> string) set \<Rightarrow> memory_store \<Rightarrow> watcher list \<Rightarrow> bool" where
  "consistent pend st ws = (well_formed st ws \<and> tracked pend st ws)"

lemma consistent_stats [simp]: "consistent pend (st\<lparr>stats := x\<rparr>) ws = consistent pend st ws"
  by (simp add: consistent_def well_formed_def tracked_def)

lemma consistent_counts [simp]:
  "consistent pend (count_get st) ws = consistent pend st ws"
  "consistent pend (count_getMany st) ws = consistent pend st ws"
  "consistent pend (count_query st) ws = consistent pend st ws"
  "consistent pend (count_create st) ws = consistent pend st ws"
  "consistent pend (count_update st) ws = consistent pend st ws"
  "consistent pend (count_delete st) ws = consistent pend st ws"
  "consistent pend (mergeStats x st) ws = consistent pend st ws"
  "consistent pend (resetStats st) ws = consistent pend st ws"
  by (simp_all add: count_get_def count_getMany_def count_query_def count_create_def count_update_def
      count_delete_def mergeStats_def resetStats_def)

lemma consistent_good: "consistent pend st ws \<Longrightarrow> good_rows (collections st)"
  by (simp add: consistent_def well_formed_def)

lemma consistent_snapshot: "consistent pend st ws \<Longrightarrow> w \<in> set ws \<Longrightarrow> fst w \<le> rowRevisionGeneration st"
  by (auto simp: consistent_def well_formed_def)

lemma consistent_mono: "consistent p st ws \<Longrightarrow> p \<subseteq> q \<Longrightarrow> consistent q st ws"
  by (auto simp: consistent_def intro: tracked_weaken)

lemma snapshot_keys: "map_of act = snapshot_uses ws \<Longrightarrow> fst ` set act = fst ` set ws"
proof -
  assume a: "map_of act = snapshot_uses ws"
  have "s \<in> fst ` set act \<longleftrightarrow> s \<in> fst ` set ws" for s
  proof -
    have "s \<in> fst ` set act \<longleftrightarrow> snapshot_uses ws s \<noteq> None"
      by (simp add: a [symmetric] map_of_eq_None_iff)
    also have "\<dots> \<longleftrightarrow> s \<in> set (map fst ws)"
      by (simp only: snapshot_uses_def Let_def count_list_0_iff split: if_split) blast
    finally show ?thesis by simp
  qed
  then show ?thesis by blast
qed

lemma hasSnapshotBefore_iff:
  assumes "consistent pend st ws"
  shows "hasSnapshotBefore r st \<longleftrightarrow> (\<exists>w \<in> set ws. fst w < r)"
proof -
  have k: "fst ` set (activeTransactionSnapshots st) = fst ` set ws"
    using assms snapshot_keys by (simp add: consistent_def well_formed_def)
  have "hasSnapshotBefore r st \<longleftrightarrow> (\<exists>s \<in> fst ` set (activeTransactionSnapshots st). s < r)"
    by (force simp: hasSnapshotBefore_def list_ex_iff)
  then show ?thesis unfolding k by auto
qed

lemma tracked_touch:
  assumes "tracked pend st ws"
    and "\<And>n' k'. (n', k') \<noteq> (n, k) \<Longrightarrow> row_at st' n' k' = row_at st n' k'"
    and "rowRevisions st' = rowRevisions st" "rowRevisionTombstones st' = rowRevisionTombstones st"
      "rowRevisionGeneration st' = rowRevisionGeneration st"
  shows "tracked (insert (n, k) pend) st' ws"
  unfolding tracked_def
proof (intro allI)
  fix n' k'
  note t = trackedD [OF assms(1), of n' k']
  show "row_tracked (rowRevisionGeneration st') ws n' k' ((n', k') \<notin> insert (n, k) pend)
     (row_at st' n' k') (revision_at st' n' k') (tombstone_at st' n' k')"
  proof (cases "(n', k') = (n, k)")
    case True
    then show ?thesis using row_tracked_pending [OF t] by (simp add: assms(3-5))
  next
    case False
    with t assms(2) [OF False] show ?thesis by (simp add: assms(3-5))
  qed
qed

lemma set_row_frame [simp]:
  "rowRevisions (set_row n k v st) = rowRevisions st"
  "rowRevisionTombstones (set_row n k v st) = rowRevisionTombstones st"
  "activeTransactionSnapshots (set_row n k v st) = activeTransactionSnapshots st"
  "rowRevisionGeneration (set_row n k v st) = rowRevisionGeneration st"
  "rowRevisions (delete_row n k st) = rowRevisions st"
  "rowRevisionTombstones (delete_row n k st) = rowRevisionTombstones st"
  "activeTransactionSnapshots (delete_row n k st) = activeTransactionSnapshots st"
  "rowRevisionGeneration (delete_row n k st) = rowRevisionGeneration st"
  by (simp_all add: set_row_def delete_row_def)

lemma set_row_lookup:
  "row_at (set_row n k v st) n' k' = (if n' = n \<and> k' = k then Some v else row_at st n' k')"
  "row_at (delete_row n k st) n' k' = (if n' = n \<and> k' = k then None else row_at st n' k')"
  by (simp_all add: set_row_def delete_row_def lookup2_put2) (simp add: lookup2_def map_simps)

lemma consistent_set_row:
  assumes "consistent pend st ws" and "safe_name n" and "good_row v"
  shows "consistent (insert (n, k) pend) (set_row n k v st) ws"
proof -
  have "tracked (insert (n, k) pend) (set_row n k v st) ws"
    using assms(1) by (intro tracked_touch) (auto simp: consistent_def set_row_lookup)
  moreover have "good_rows (collections (set_row n k v st))"
    using assms by (simp add: set_row_def consistent_good)
  ultimately show ?thesis using assms(1) by (simp add: consistent_def well_formed_def)
qed

lemma consistent_delete_row:
  assumes "consistent pend st ws" and "safe_name n"
  shows "consistent (insert (n, k) pend) (delete_row n k st) ws"
proof -
  have "tracked (insert (n, k) pend) (delete_row n k st) ws"
    using assms(1) by (intro tracked_touch) (auto simp: consistent_def set_row_lookup)
  moreover have "good_rows (collections (delete_row n k st))"
    using assms by (simp add: delete_row_def consistent_good)
  ultimately show ?thesis using assms(1) by (simp add: consistent_def well_formed_def)
qed

lemma record_frame [simp]:
  "collections (recordRowRevision n k r b st) = collections st"
  "activeTransactionSnapshots (recordRowRevision n k r b st) = activeTransactionSnapshots st"
  "rowRevisionGeneration (recordRowRevision n k r b st) = rowRevisionGeneration st"
  "stats (recordRowRevision n k r b st) = stats st"
  by (simp_all add: recordRowRevision_def Let_def)

lemma record_lookup:
  "revision_at (recordRowRevision n k r b st) n' k' =
     (if n' = n \<and> k' = k then (if b \<or> hasSnapshotBefore r st then Some r else None) else revision_at st n' k')"
  "tombstone_at (recordRowRevision n k r b st) n' k' =
     (if n' = n \<and> k' = k then (if \<not> b \<and> hasSnapshotBefore r st then Some r else None) else tombstone_at st n' k')"
  by (simp_all add: recordRowRevision_def Let_def map_simps hasSnapshotBefore_def)

lemma record_wf:
  "wf2 (rowRevisions st) \<Longrightarrow> wf2 (rowRevisions (recordRowRevision n k r b st))"
  "wf2 (rowRevisionTombstones st) \<Longrightarrow> wf2 (rowRevisionTombstones (recordRowRevision n k r b st))"
  by (simp_all add: recordRowRevision_def Let_def)

text \<open>A revision newer than every snapshot, and not beyond the counter.\<close>

definition fresh_revision :: "nat \<Rightarrow> memory_store \<Rightarrow> watcher list \<Rightarrow> bool" where
  "fresh_revision r st ws = (r \<le> rowRevisionGeneration st \<and> (\<forall>w \<in> set ws. fst w < r))"

lemma consistent_record:
  assumes "consistent pend st ws" and "fresh_revision r st ws" and "b = (row_at st n k \<noteq> None)"
  shows "consistent (pend - {(n, k)}) (recordRowRevision n k r b st) ws"
proof -
  note h = hasSnapshotBefore_iff [OF assms(1)]
  have f: "r \<le> rowRevisionGeneration st" "\<And>w. w \<in> set ws \<Longrightarrow> fst w < r"
    using assms(2) by (auto simp: fresh_revision_def)
  have "well_formed (recordRowRevision n k r b st) ws"
    using assms(1) by (simp add: consistent_def well_formed_def record_wf)
  moreover have "tracked (pend - {(n, k)}) (recordRowRevision n k r b st) ws"
  proof (unfold tracked_def record_frame, intro allI)
    fix n' k'
    have t: "row_tracked (rowRevisionGeneration st) ws n' k' ((n', k') \<notin> pend)
       (row_at st n' k') (revision_at st n' k') (tombstone_at st n' k')"
      using assms(1) by (simp add: consistent_def trackedD)
    show "row_tracked (rowRevisionGeneration st) ws n' k' ((n', k') \<notin> pend - {(n, k)}) (row_at st n' k')
       (revision_at (recordRowRevision n k r b st) n' k') (tombstone_at (recordRowRevision n k r b st) n' k')"
    proof (cases "n' = n \<and> k' = k")
      case True
      then show ?thesis using assms(3) f unfolding record_lookup h row_tracked_def newer_revision_def by auto
    next
      case False
      then show ?thesis using t unfolding record_lookup by auto
    qed
  qed
  ultimately show ?thesis by (simp add: consistent_def)
qed

lemma fresh_frame [simp]:
  "fresh_revision r (recordRowRevision n k q b st) ws = fresh_revision r st ws"
  "fresh_revision r (set_row n k v st) ws = fresh_revision r st ws"
  "fresh_revision r (delete_row n k st) ws = fresh_revision r st ws"
  by (simp_all add: fresh_revision_def set_row_def delete_row_def)

lemma consistent_write:
  assumes "consistent pend st ws" and "safe_name n" and "good_row v" and "fresh_revision r st ws"
  shows "consistent (pend - {(n, k)}) (recordRowRevision n k r True (set_row n k v st)) ws"
proof -
  have "consistent (insert (n, k) pend - {(n, k)}) (recordRowRevision n k r True (set_row n k v st)) ws"
    using consistent_set_row [OF assms(1-3), of k] assms(4)
    by (intro consistent_record) (simp_all add: set_row_lookup)
  then show ?thesis by simp
qed

lemma consistent_remove:
  assumes "consistent pend st ws" and "safe_name n" and "fresh_revision r st ws"
  shows "consistent (pend - {(n, k)}) (recordRowRevision n k r False (delete_row n k st)) ws"
proof -
  have "consistent (insert (n, k) pend - {(n, k)}) (recordRowRevision n k r False (delete_row n k st)) ws"
    using consistent_delete_row [OF assms(1,2), of k] assms(3)
    by (intro consistent_record) (simp_all add: set_row_lookup)
  then show ?thesis by simp
qed

lemma reserve_frame:
  assumes "reserveRowRevisions a st = Inr (f, st')"
  shows "st' = st\<lparr>rowRevisionGeneration := rowRevisionGeneration st + a\<rparr>" "f = rowRevisionGeneration st + 1"
    "rowRevisionGeneration st + a \<le> MAX_ROW_REVISION"
  using assms by (auto simp: reserveRowRevisions_def split: if_splits)

lemma consistent_reserve:
  assumes "consistent pend st ws" and "reserveRowRevisions a st = Inr (f, st')"
  shows "consistent pend st' ws" and "i < a \<Longrightarrow> fresh_revision (f + i) st' ws"
proof -
  note e = reserve_frame [OF assms(2)]
  have "tracked pend st' ws"
    by (rule tracked_weaken [where st = st and p = pend]) (use assms(1) e(1) in \<open>simp_all add: consistent_def\<close>)
  moreover have "well_formed st' ws"
    using assms(1) e(3) unfolding consistent_def well_formed_def e(1) by (auto intro: trans_le_add1)
  ultimately show "consistent pend st' ws" by (simp add: consistent_def)
  show "fresh_revision (f + i) st' ws" if "i < a"
    using that consistent_snapshot [OF assms(1)] unfolding fresh_revision_def e(1,2)
    by (auto simp: less_Suc_eq_le intro: trans_le_add1)
qed

section \<open>Transactions that begin and end\<close>

lemma consistent_begin:
  assumes "consistent {} st ws" and "beginTransactionSnapshot st = (s, st')"
  shows "consistent {} st' ((s, collections st) # ws)" and "s = rowRevisionGeneration st"
    and "collections st' = collections st"
proof -
  let ?uses = "case map_of (activeTransactionSnapshots st) s of None \<Rightarrow> 0 | Some n \<Rightarrow> n"
  have s: "s = rowRevisionGeneration st"
    and st': "st' = st\<lparr>activeTransactionSnapshots := AList.update s (?uses + 1) (activeTransactionSnapshots st)\<rparr>"
    using assms(2) by (auto simp: beginTransactionSnapshot_def Let_def)
  have c: "well_formed st ws" "tracked {} st ws" using assms(1) by (simp_all add: consistent_def)
  have m: "map_of (activeTransactionSnapshots st) = snapshot_uses ws" using c(1) by (simp add: well_formed_def)
  have "map_of (activeTransactionSnapshots st') = snapshot_uses ((s, collections st) # ws)"
    by (rule ext) (simp add: st' map_simps m snapshot_uses_def Let_def)
  then have "well_formed st' ((s, collections st) # ws)"
    using c(1) by (simp add: well_formed_def st' s)
  moreover have "tracked {} st' ((s, collections st) # ws)"
    using c(2) by (auto simp: tracked_def row_tracked_def st')
  ultimately show "consistent {} st' ((s, collections st) # ws)" by (simp add: consistent_def)
  show "s = rowRevisionGeneration st" by (rule s)
  show "collections st' = collections st" by (simp add: st')
qed

lemma row_tracked_compact:
  assumes "row_tracked gen ws n k True row revision tombstone" and "set ws' \<subseteq> set ws"
    and "\<And>m. oldest = Some m \<Longrightarrow> m \<in> fst ` set ws' \<and> (\<forall>w \<in> set ws'. m \<le> fst w)"
    and "oldest = None \<Longrightarrow> ws' = []"
  shows "row_tracked gen ws' n k True row (compact_revision oldest tombstone revision)
           (compact_tombstone oldest tombstone)"
proof (cases "\<exists>r. tombstone = Some r \<and> expired oldest r")
  case True
  then obtain r where r: "tombstone = Some r" "expired oldest r" by blast
  from assms(1) r(1) have e: "row = None" "revision = Some r"
    by (auto simp: row_tracked_def split: if_splits)
  have "\<not> newer_revision (fst w) revision" if w: "w \<in> set ws'" for w
  proof (cases oldest)
    case None
    with assms(4) w show ?thesis by simp
  next
    case (Some m)
    with assms(3) [OF Some] w have "m \<le> fst w" by blast
    with r(2) e(2) Some show ?thesis by (simp add: expired_def newer_revision_def)
  qed
  then have "row = lookup2 (snd w) n k" if "w \<in> set ws'" for w
    using assms(1,2) that unfolding row_tracked_def by blast
  then show ?thesis using r e by (simp add: row_tracked_def compact_revision_def compact_tombstone_def)
next
  case False
  then have e: "compact_revision oldest tombstone revision = revision" "compact_tombstone oldest tombstone = tombstone"
    by (auto simp: compact_revision_def compact_tombstone_def split: option.splits)
  have "\<exists>w \<in> set ws'. fst w < r" if r: "tombstone = Some r" for r
  proof -
    from r False have "\<not> expired oldest r" by blast
    then obtain m where m: "oldest = Some m" "m < r" by (auto simp: expired_def split: option.splits)
    from assms(3) [OF m(1)] m(2) show ?thesis by auto
  qed
  then show ?thesis unfolding e using assms(1,2) by (auto simp: row_tracked_def)
qed

lemma consistent_release:
  assumes "consistent {} st ws" and "set ws' \<subseteq> set ws"
    and "\<And>x. count_list (map fst ws) x = count_list (map fst ws') x + (if x = s then 1 else 0)"
  shows "consistent {} (releaseTransactionSnapshot s st) ws'"
proof -
  have c: "well_formed st ws" "tracked {} st ws" using assms(1) by (simp_all add: consistent_def)
  define act where "act = (case snapshot_uses ws s of
       None \<Rightarrow> activeTransactionSnapshots st
     | Some uses \<Rightarrow> if uses = 1 then AList.delete s (activeTransactionSnapshots st)
         else AList.update s (uses - 1) (activeTransactionSnapshots st))"
  define st1 where "st1 = st\<lparr>activeTransactionSnapshots := act\<rparr>"
  have m: "map_of (activeTransactionSnapshots st) = snapshot_uses ws" using c(1) by (simp add: well_formed_def)
  have r: "releaseTransactionSnapshot s st = compactRowRevisionTombstones st1"
    by (auto simp: releaseTransactionSnapshot_def m act_def st1_def split: option.splits)
  have use: "snapshot_uses ws s = Some (count_list (map fst ws') s + 1)"
    using assms(3) [of s] by (simp add: snapshot_uses_def)
  have act: "map_of act = snapshot_uses ws'"
  proof
    fix x
    show "map_of act x = snapshot_uses ws' x"
      using assms(3) [of x] unfolding act_def use
      by (auto simp: map_simps m snapshot_uses_def Let_def)
  qed
  have w: "wf2 (rowRevisions st1)" "wf2 (rowRevisionTombstones st1)" and g: "good_rows (collections st1)"
    using c(1) by (simp_all add: st1_def well_formed_def)
  have d: "distinct (map fst act)" using c(1) by (auto simp: act_def well_formed_def split: option.splits)
  have keys: "fst ` set (activeTransactionSnapshots st1) = fst ` set ws'"
    using snapshot_keys [OF act] by (simp add: st1_def)
  have "well_formed (compactRowRevisionTombstones st1) ws'"
    using c(1) w g d act assms(2) compact_wf [OF w] by (auto simp: well_formed_def st1_def)
  moreover have "tracked {} (compactRowRevisionTombstones st1) ws'"
    unfolding tracked_def compact_lookup [OF w(2)] compact_frame
  proof (intro allI)
    fix n k
    have t: "row_tracked (rowRevisionGeneration st1) ws n k True (row_at st1 n k) (revision_at st1 n k)
      (tombstone_at st1 n k)" using trackedD [OF c(2), of n k] by (simp add: st1_def)
    have o: "m \<in> fst ` set ws' \<and> (\<forall>w \<in> set ws'. m \<le> fst w)" if "oldestSnapshot st1 = Some m" for m
      using oldest_Some [OF that] unfolding keys by blast
    have n: "ws' = []" if "oldestSnapshot st1 = None"
    proof -
      from that have "activeTransactionSnapshots st1 = []" by (simp add: oldest_None)
      with keys show ?thesis by simp
    qed
    show "row_tracked (rowRevisionGeneration st1) ws' n k ((n, k) \<notin> {}) (row_at st1 n k)
        (compact_revision (oldestSnapshot st1) (tombstone_at st1 n k) (revision_at st1 n k))
        (compact_tombstone (oldestSnapshot st1) (tombstone_at st1 n k))"
      using row_tracked_compact [OF t assms(2) o n] by simp
  qed
  ultimately show ?thesis unfolding r by (simp add: consistent_def)
qed

lemma release_frame [simp]:
  "collections (releaseTransactionSnapshot s st) = collections st"
  "rowRevisionGeneration (releaseTransactionSnapshot s st) = rowRevisionGeneration st"
  by (simp_all add: releaseTransactionSnapshot_def split: option.splits)

end
