(* ===== verification/StoreOperations.thy ===== *)
theory StoreOperations
  imports StoreInvariant
begin

text \<open>
  What the operations of the memory store do to its rows, stated by lookup, and that each of them
  preserves the invariant of \<open>StoreInvariant\<close>. Everything later argues from these lemmas.
\<close>

declare assertSafeSchemaIdentifier.simps(1) [simp del]

section \<open>Collections\<close>

lemma good_rows_open:
  assumes "good_rows m" and "safe_name n" and "map_of m n = None"
  shows "good_rows (AList.update n [] m)"
  using assms by (intro good_rows_outer) simp_all

lemma existing_iff:
  "existingCollection n st = Inr rows \<longleftrightarrow> safe_name n \<and> rows = mget (collections st) n"
  by (auto simp: existingCollection_def rbind_Inr_iff safe_name_iff)

lemma has_row: "mhas (mget (collections st) n) k \<longleftrightarrow> row_at st n k \<noteq> None"
  by (simp add: mhas_def lookup2_def)

lemma get_row: "map_of (mget (collections st) n) k = row_at st n k"
  by (simp add: lookup2_def)

lemma collection_Inr:
  assumes "collection n st = Inr st'"
  shows "safe_name n" "row_at st' n' k = row_at st n' k" "rowRevisions st' = rowRevisions st"
    "rowRevisionTombstones st' = rowRevisionTombstones st"
    "activeTransactionSnapshots st' = activeTransactionSnapshots st"
    "rowRevisionGeneration st' = rowRevisionGeneration st" "stats st' = stats st"
  using assms by (auto simp: collection_def rbind_Inr_iff safe_name_iff lookup2_def map_simps
      mhas_def mget_def split: if_splits)

lemma collection_safe: "safe_name n \<Longrightarrow> \<exists>st'. collection n st = Inr st'"
  by (simp add: collection_def safe_name_def)

lemma consistent_collection:
  assumes "consistent pend st ws" and "collection n st = Inr st'"
  shows "consistent pend st' ws"
proof -
  note c = collection_Inr [OF assms(2)]
  have "good_rows (collections st')"
    using assms consistent_good [OF assms(1)] c(1)
    by (auto simp: collection_def rbind_Inr_iff safe_name_iff mhas_def intro: good_rows_open split: if_splits)
  moreover have "tracked pend st' ws"
    using assms(1) unfolding consistent_def tracked_def c(2-6) by simp
  ultimately show ?thesis using assms(1) by (simp add: consistent_def well_formed_def c)
qed

section \<open>Outcomes\<close>

lemma settle_cases:
  assumes "settle st r = (q, st')"
  obtains (failed) e where "q = Inl e" "st' = st" "r = Inl e" | (success) "q = Inr ()" "r = Inr st'"
  using assms by (cases r) (auto simp: settle_def)

lemma consistent_settle:
  assumes "settle st r = (q, st')" and "consistent {} st ws" and "r = Inr st' \<Longrightarrow> consistent {} st' ws"
  shows "consistent {} st' ws"
  by (rule settle_cases [OF assms(1)]) (use assms(2,3) in auto)

text \<open>\<open>wrote n k v st st'\<close>: the row at \<open>(n, k)\<close> became \<open>v\<close> under a fresh revision and nothing else changed;
  \<open>removed\<close> likewise for a row that went away.\<close>

definition wrote :: "string \<Rightarrow> string \<Rightarrow> jsval \<Rightarrow> memory_store \<Rightarrow> memory_store \<Rightarrow> bool" where
  "wrote n k v st st' = (safe_name n \<and> (\<exists>r st1 st2. reserveRowRevisions 1 st = Inr (r, st1)
     \<and> (st2 = st1 \<or> collection n st1 = Inr st2) \<and> st' = recordRowRevision n k r True (set_row n k v st2)))"

definition removed :: "string \<Rightarrow> string \<Rightarrow> memory_store \<Rightarrow> memory_store \<Rightarrow> bool" where
  "removed n k st st' = (safe_name n \<and> (\<exists>r st1. reserveRowRevisions 1 st = Inr (r, st1)
     \<and> st' = recordRowRevision n k r False (delete_row n k st1)))"

lemma reserve_collections: "reserveRowRevisions a st = Inr (r, st1) \<Longrightarrow> collections st1 = collections st"
  by (auto dest: reserve_frame(1))

lemma wrote_rows: "wrote n k v st st' \<Longrightarrow> row_at st' n' k' = (if n' = n \<and> k' = k then Some v else row_at st n' k')"
  unfolding wrote_def using collection_Inr(2) reserve_collections by (auto simp: set_row_lookup)

lemma removed_rows: "removed n k st st' \<Longrightarrow> row_at st' n' k' = (if n' = n \<and> k' = k then None else row_at st n' k')"
  unfolding removed_def using reserve_collections by (auto simp: set_row_lookup)

lemma wrote_good:
  assumes "wrote n k v st st'" and "good_rows (collections st)" and "good_row v"
  shows "good_rows (collections st')"
proof -
  from assms(1) obtain r st1 st2 where s: "safe_name n" "reserveRowRevisions 1 st = Inr (r, st1)"
      "st2 = st1 \<or> collection n st1 = Inr st2" "st' = recordRowRevision n k r True (set_row n k v st2)"
    by (auto simp: wrote_def)
  have "good_rows (collections st1)" using assms(2) reserve_collections [OF s(2)] by simp
  then have "good_rows (collections st2)"
    using s(1,3) by (auto simp: collection_def rbind_Inr_iff safe_name_iff mhas_def intro: good_rows_open split: if_splits)
  then show ?thesis using s(1,4) assms(3) by (simp add: set_row_def)
qed

lemma removed_good:
  assumes "removed n k st st'" and "good_rows (collections st)"
  shows "good_rows (collections st')"
  using assms reserve_collections by (auto simp: removed_def delete_row_def)

lemma consistent_wrote:
  assumes "consistent {} st ws" and "wrote n k v st st'" and "good_row v"
  shows "consistent {} st' ws"
proof -
  from assms(2) obtain r st1 st2 where s: "safe_name n" "reserveRowRevisions 1 st = Inr (r, st1)"
      "st2 = st1 \<or> collection n st1 = Inr st2" "st' = recordRowRevision n k r True (set_row n k v st2)"
    by (auto simp: wrote_def)
  note c = consistent_reserve [OF assms(1) s(2)]
  have f: "fresh_revision r st2 ws"
    using c(2) [of 0] s(3) collection_Inr(6) by (auto simp: fresh_revision_def)
  have "consistent {} st2 ws" using c(1) s(3) consistent_collection by blast
  from consistent_write [OF this s(1) assms(3) f, of k] show ?thesis unfolding s(4) by simp
qed

lemma consistent_removed:
  assumes "consistent {} st ws" and "removed n k st st'"
  shows "consistent {} st' ws"
proof -
  from assms(2) obtain r st1 where s: "safe_name n" "reserveRowRevisions 1 st = Inr (r, st1)"
      "st' = recordRowRevision n k r False (delete_row n k st1)"
    by (auto simp: removed_def)
  note c = consistent_reserve [OF assms(1) s(2)]
  from consistent_remove [OF c(1) s(1) c(2) [of 0], of k] show ?thesis unfolding s(3) by simp
qed

lemma counts_frame [simp]:
  "collections (count_get st) = collections st"
  "collections (count_getMany st) = collections st"
  "collections (count_create st) = collections st"
  "collections (count_update st) = collections st"
  "collections (count_delete st) = collections st"
  "collections (mergeStats x st) = collections st"
  "collections (resetStats st) = collections st"
  "rowRevisionGeneration (mergeStats x st) = rowRevisionGeneration st"
  by (simp_all add: count_get_def count_getMany_def count_create_def count_update_def
      count_delete_def mergeStats_def resetStats_def)

section \<open>Reads\<close>

lemma store_get_frame: "store_get m ident options st = (r, st') \<Longrightarrow> collections st' = collections st"
  by (auto simp: store_get_def Let_def split: sum.splits)

lemma consistent_get:
  "store_get m ident options st = (r, st') \<Longrightarrow> consistent pend st' ws = consistent pend st ws"
  by (auto simp: store_get_def Let_def split: sum.splits)

lemma store_getMany_frame: "store_getMany m ids options st = (r, st') \<Longrightarrow> collections st' = collections st"
  by (auto simp: store_getMany_def Let_def split: sum.splits)

lemma consistent_getMany:
  "store_getMany m ids options st = (r, st') \<Longrightarrow> consistent pend st' ws = consistent pend st ws"
  by (auto simp: store_getMany_def Let_def split: sum.splits)

section \<open>Writes\<close>

lemma store_create_done:
  assumes "store_create m ident data options st = (Inr u, st')"
  obtains clean key where "clonePortableDataObject data = Inr clean" "assertStoreDataMatchesId m ident clean = Inr ()"
    "entityIdKey ident = Inr key" "row_at st (m_name m) key = None" "wrote (m_name m) key clean (count_create st) st'"
  using assms
  by (fastforce simp: store_create_def Let_def settle_def existing_iff has_row wrote_def rbind_Inr_iff
      split: sum.splits if_splits prod.splits)

lemma store_create_failed: "store_create m ident data options st = (Inl e, st') \<Longrightarrow> st' = st \<or> st' = count_create st"
  by (auto simp: store_create_def Let_def settle_def split: sum.splits)

lemma consistent_create:
  assumes "store_create m ident data options st = (r, st')" and "consistent {} st ws" and "symbol_free data"
  shows "consistent {} st' ws"
proof (cases r)
  case (Inl e)
  with assms store_create_failed show ?thesis by fastforce
next
  case (Inr u)
  with assms(1) obtain clean key where w: "clonePortableDataObject data = Inr clean"
      "wrote (m_name m) key clean (count_create st) st'" using store_create_done by metis
  show ?thesis by (rule consistent_wrote [OF _ w(2) good_stored [OF w(1) assms(3)]]) (simp add: assms(2))
qed

definition expects :: "StoreWriteOptions \<Rightarrow> jsval option \<Rightarrow> bool" where
  "expects opts row = (case wo_expectedVersion opts of None \<Rightarrow> True | Some v \<Rightarrow> memoryVersionMatches row v)"

lemma store_update_done:
  assumes "store_update m ident data options st = (Inr u, st')"
  obtains opts clean key where "normalizeStoreWriteOptions options = Inr opts"
    "clonePortableDataObject data = Inr clean" "assertStoreDataMatchesId m ident clean = Inr ()"
    "entityIdKey ident = Inr key" "row_at st (m_name m) key \<noteq> None" "expects opts (row_at st (m_name m) key)"
    "wrote (m_name m) key clean (count_update st) st'"
  using assms
  by (fastforce simp: store_update_def Let_def settle_def existing_iff has_row get_row wrote_def rbind_Inr_iff expects_def
      rejectUnsupportedStoreWriteMetadata_def split: sum.splits if_splits prod.splits option.splits)

lemma store_update_failed: "store_update m ident data options st = (Inl e, st') \<Longrightarrow> st' = st \<or> st' = count_update st"
  by (auto simp: store_update_def Let_def settle_def split: sum.splits)

lemma consistent_update:
  assumes "store_update m ident data options st = (r, st')" and "consistent {} st ws" and "symbol_free data"
  shows "consistent {} st' ws"
proof (cases r)
  case (Inl e)
  with assms store_update_failed show ?thesis by fastforce
next
  case (Inr u)
  with assms(1) obtain clean key where w: "clonePortableDataObject data = Inr clean"
      "wrote (m_name m) key clean (count_update st) st'" using store_update_done by metis
  show ?thesis by (rule consistent_wrote [OF _ w(2) good_stored [OF w(1) assms(3)]]) (simp add: assms(2))
qed

lemma store_delete_done:
  assumes "store_delete m ident options st = (Inr u, st')"
  obtains (missing) opts key where "normalizeStoreWriteOptions options = Inr opts" "entityIdKey ident = Inr key"
      "safe_name (m_name m)" "row_at st (m_name m) key = None" "wo_expectedVersion opts = None" "st' = count_delete st"
  | (present) opts key where "normalizeStoreWriteOptions options = Inr opts" "entityIdKey ident = Inr key"
      "row_at st (m_name m) key \<noteq> None" "expects opts (row_at st (m_name m) key)"
      "removed (m_name m) key (count_delete st) st'"
proof -
  from assms obtain opts key where o: "normalizeStoreWriteOptions options = Inr opts" "entityIdKey ident = Inr key"
      "safe_name (m_name m)"
    and rest: "rbind (case wo_expectedVersion opts of
                 None \<Rightarrow> Inr ()
               | Some v \<Rightarrow>
                   if map_of (mget (collections st) (m_name m)) key = None then Inl ActiveTsNotFoundError
                   else if \<not> memoryVersionMatches (map_of (mget (collections st) (m_name m)) key) v
                   then Inl ActiveTsConflictError
                   else Inr ()) (\<lambda>_.
          if mhas (mget (collections st) (m_name m)) key
          then rbind (reserveRowRevisions 1 (count_delete st)) (\<lambda>(revision, st2).
            Inr (recordRowRevision (m_name m) key revision False (delete_row (m_name m) key st2)))
          else Inr (count_delete st)) = Inr st'"
    by (auto simp: store_delete_def Let_def settle_def existing_iff rbind_Inr_iff
      rejectUnsupportedStoreWriteMetadata_def split: sum.splits if_splits)
  note rest = rest [unfolded get_row has_row]
  show ?thesis
  proof (cases "row_at st (m_name m) key")
    case None
    with rest o missing show ?thesis by (auto simp: rbind_Inr_iff split: option.splits if_splits)
  next
    case (Some row)
    with rest have "expects opts (row_at st (m_name m) key)"
      by (auto simp: rbind_Inr_iff expects_def split: option.splits if_splits)
    moreover from rest Some o(3) have "removed (m_name m) key (count_delete st) st'"
      by (auto simp: rbind_Inr_iff removed_def split: prod.splits)
    ultimately show ?thesis using present o Some by blast
  qed
qed

lemma store_delete_failed: "store_delete m ident options st = (Inl e, st') \<Longrightarrow> st' = st \<or> st' = count_delete st"
  by (auto simp: store_delete_def Let_def settle_def split: sum.splits)

lemma consistent_delete:
  assumes "store_delete m ident options st = (r, st')" and "consistent {} st ws"
  shows "consistent {} st' ws"
proof (cases r)
  case (Inl e)
  with assms store_delete_failed show ?thesis by fastforce
next
  case (Inr u)
  with assms(1) have d: "store_delete m ident options st = (Inr u, st')" by simp
  show ?thesis
    by (rule store_delete_done [OF d]) (use assms(2) consistent_removed [of "count_delete st"] in auto)
qed

section \<open>Seeding and resetting\<close>

lemma seed_rows_good:
  assumes "rlist (seed_row m) rows = Inr prepared" and "\<And>row. row \<in> set rows \<Longrightarrow> symbol_free row"
    and "(k, v) \<in> set prepared"
  shows "good_row v"
proof -
  from rlist_member [OF assms(1,3)] obtain row where "row \<in> set rows" "seed_row m row = Inr (k, v)" by blast
  with assms(2) show ?thesis by (auto simp: seed_row_def rbind_Inr_iff intro: good_stored)
qed

lemma consistent_record_rows:
  assumes "consistent {} st ws" and "safe_name n" and "\<And>k v. (k, v) \<in> set rows \<Longrightarrow> good_row v"
    and "\<And>i. i < length rows \<Longrightarrow> fresh_revision (r + i) st ws"
  shows "consistent {} (record_rows n rows r st) ws"
  using assms
proof (induction rows arbitrary: r st)
  case (Cons x rows)
  obtain k v where x: "x = (k, v)" by force
  let ?st = "recordRowRevision n k r True (set_row n k v st)"
  have "fresh_revision r st ws" using Cons.prems(4) [of 0] by simp
  with consistent_write [OF Cons.prems(1,2), of v r k] Cons.prems(3) [of k v] x
  have c: "consistent {} ?st ws" by simp
  have "consistent {} (record_rows n rows (r + 1) ?st) ws"
  proof (rule Cons.IH [OF c Cons.prems(2)])
    show "good_row v'" if "(k', v') \<in> set rows" for k' v' using Cons.prems(3) that by (meson list.set_intros(2))
    show "fresh_revision (r + 1 + i) ?st ws" if "i < length rows" for i
      using Cons.prems(4) [of "Suc i"] that by simp
  qed
  then show ?case by (simp add: x)
qed simp

lemma snapshot_members:
  assumes "snapshotArrayInput v = Inr xs" and "symbol_free v" and "x \<in> set xs"
  shows "symbol_free x"
proof -
  from assms(1) have a: "is_array v" and
    r: "rlist (\<lambda>slot. case slot of
            None \<Rightarrow> Inl ActiveTsValidationError
          | Some p \<Rightarrow> if \<not> is_data p then Inl ActiveTsValidationError else Inr (prop_val p)) (slots v) = Inr xs"
    by (auto simp: snapshotArrayInput_def rbind_Inr_iff split: if_splits)
  from rlist_member [OF r assms(3)] obtain slot where "slot \<in> set (slots v)"
    "(case slot of
            None \<Rightarrow> Inl ActiveTsValidationError
          | Some p \<Rightarrow> if \<not> is_data p then Inl ActiveTsValidationError else Inr (prop_val p)) = Inr x" by blast
  then have "\<exists>p. Some p \<in> set (slots v) \<and> x = prop_val p"
    by (metis (mono_tags, lifting) Inl_Inr_False Inr_inject option.case_eq_if option.exhaust_sel)
  then obtain p where p: "Some p \<in> set (slots v)" "x = prop_val p" by blast
  from a assms(2) p show ?thesis by (cases v) (fastforce simp: list_all_iff)+
qed

lemma consistent_seed:
  assumes "store_seed m rows st = (q, st')" and "consistent {} st ws" and "symbol_free rows"
  shows "consistent {} st' ws"
  using assms(1)[unfolded store_seed_def] assms(2)
proof (rule consistent_settle)
  let ?prep = "\<lambda>n f. rlist (seed_row \<lparr>m_name = n, m_idField = f\<rparr>)"
  assume "(if \<not> is_array rows then Inl ActiveTsValidationError
     else rbind (snapshotArrayInput rows) (\<lambda>safeRows.
       rbind (assertSafeSchemaIdentifier (Str (m_name m))) (\<lambda>modelName.
       rbind (assertSafeTopLevelField (Str (m_idField m))) (\<lambda>idField.
       rbind (?prep modelName idField safeRows) (\<lambda>prepared.
       if \<not> distinct (map fst prepared) then Inl ActiveTsConflictError
       else if \<exists>(key, row) \<in> set prepared. mhas (mget (collections st) modelName) key
       then Inl ActiveTsConflictError
       else rbind (if prepared = [] then Inr (0, st) else reserveRowRevisions (length prepared) st)
         (\<lambda>(firstRevision, st1).
         rbind (collection modelName st1) (\<lambda>st2. Inr (record_rows modelName prepared firstRevision st2))))))))
    = Inr st'"
  then obtain f safeRows prepared r st1 st2 where s: "snapshotArrayInput rows = Inr safeRows"
      "?prep (m_name m) f safeRows = Inr prepared"
      "(if prepared = [] then Inr (0, st) else reserveRowRevisions (length prepared) st) = Inr (r, st1)"
      "collection (m_name m) st1 = Inr st2" "st' = record_rows (m_name m) prepared r st2"
    by (fastforce simp: rbind_Inr_iff safe_name_iff split: if_splits prod.splits)
  have good: "good_row v" if "(k, v) \<in> set prepared" for k v
    using s(2) seed_rows_good snapshot_members [OF s(1) assms(3)] that by blast
  have c1: "consistent {} st1 ws" and f: "i < length prepared \<Longrightarrow> fresh_revision (r + i) st1 ws" for i
    using s(3) assms(2) consistent_reserve by (auto split: if_splits)
  have "consistent {} st2 ws" by (rule consistent_collection [OF c1 s(4)])
  then show "consistent {} st' ws" unfolding s(5)
    using collection_Inr(1,6) [OF s(4)] good f
    by (intro consistent_record_rows) (auto simp: fresh_revision_def)
qed

lemma consistent_clear:
  assumes "consistent {} st ws" and "good_rows c"
    and "\<And>n k. (n, k) \<notin> gone \<Longrightarrow> lookup2 c n k = row_at st n k"
  shows "consistent gone (st\<lparr>collections := c\<rparr>) ws"
proof -
  have "tracked gone (st\<lparr>collections := c\<rparr>) ws"
    unfolding tracked_def
  proof (intro allI)
    fix n k
    have t: "row_tracked (rowRevisionGeneration st) ws n k True (row_at st n k) (revision_at st n k) (tombstone_at st n k)"
      using assms(1) trackedD [of "{}" st ws n k] by (simp add: consistent_def)
    then show "row_tracked (rowRevisionGeneration (st\<lparr>collections := c\<rparr>)) ws n k ((n, k) \<notin> gone)
       (row_at (st\<lparr>collections := c\<rparr>) n k) (revision_at (st\<lparr>collections := c\<rparr>) n k)
       (tombstone_at (st\<lparr>collections := c\<rparr>) n k)"
      using assms(3) [of n k] row_tracked_pending [OF t] by (cases "(n, k) \<in> gone") auto
  qed
  then show ?thesis using assms(1,2) by (simp add: consistent_def well_formed_def)
qed

lemma consistent_record_removed:
  assumes "consistent (set ks) st ws" and "\<And>n k. (n, k) \<in> set ks \<Longrightarrow> row_at st n k = None"
    and "\<And>i. i < length ks \<Longrightarrow> fresh_revision (r + i) st ws"
  shows "consistent {} (record_removed ks r st) ws"
  using assms
proof (induction ks arbitrary: r st)
  case (Cons x ks)
  obtain n k where x: "x = (n, k)" by force
  let ?st = "recordRowRevision n k r False st"
  have f: "fresh_revision r st ws" using Cons.prems(3) [of 0] by simp
  have none: "row_at st n k = None" using Cons.prems(2) x by simp
  have "consistent (set (x # ks) - {(n, k)}) ?st ws"
    by (rule consistent_record [OF Cons.prems(1) f]) (simp add: none)
  then have "consistent (set ks) ?st ws" by (rule consistent_mono) (auto simp: x)
  then have "consistent {} (record_removed ks (r + 1) ?st) ws"
  proof (rule Cons.IH)
    show "row_at ?st n' k' = None" if "(n', k') \<in> set ks" for n' k' using Cons.prems(2) that by simp
    show "fresh_revision (r + 1 + i) ?st ws" if "i < length ks" for i
      using Cons.prems(3) [of "Suc i"] that by simp
  qed
  then show ?case by (simp add: x)
qed simp

lemma record_removed_frame [simp]:
  "collections (record_removed ks r st) = collections st"
  by (induction ks arbitrary: r st) auto

lemma consistent_take_away:
  assumes "consistent {} st ws" and "good_rows c"
    and "\<And>n k. lookup2 c n k = (if (n, k) \<in> set gone then None else row_at st n k)"
    and "(if gone = [] then Inr (0, st) else reserveRowRevisions (length gone) st) = Inr (r, st1)"
  shows "consistent {} (record_removed gone r (st1\<lparr>collections := c\<rparr>)) ws"
proof -
  have c1: "consistent {} st1 ws" and e: "collections st1 = collections st"
    and f: "i < length gone \<Longrightarrow> fresh_revision (r + i) st1 ws" for i
    using assms(1,4) consistent_reserve reserve_collections by (auto split: if_splits)
  have "consistent (set gone) (st1\<lparr>collections := c\<rparr>) ws"
    by (rule consistent_clear [OF c1 assms(2)]) (simp add: assms(3) e)
  then show ?thesis
    by (rule consistent_record_removed) (use f in \<open>auto simp: assms(3) fresh_revision_def\<close>)
qed

lemma reset_model_rows:
  assumes "store_reset_model n st = (Inr u, st')"
  shows "safe_name n" and "row_at st' n' k = (if n' = n then None else row_at st n' k)"
  using assms
  by (auto simp: store_reset_model_def Let_def settle_def rbind_Inr_iff safe_name_iff lookup2_def mget_delete
      dest: reserve_collections split: sum.splits if_splits prod.splits)

lemma consistent_reset_model:
  assumes "store_reset_model n st = (q, st')" and "consistent {} st ws"
  shows "consistent {} st' ws"
  using assms(1)[unfolded store_reset_model_def] assms(2)
proof (rule consistent_settle)
  let ?gone = "map (\<lambda>(key, row). (n, key)) (mget (collections st) n)"
  assume "rbind (assertSafeSchemaIdentifier (Str n)) (\<lambda>name.
     let rows = mget (collections st) name in
     rbind (if rows = [] then Inr (0, st) else reserveRowRevisions (length rows) st) (\<lambda>(firstRevision, st1).
     Inr (resetStats (record_removed (map (\<lambda>(key, row). (name, key)) rows) firstRevision
       (st1\<lparr>collections := AList.delete name (collections st1)\<rparr>))))) = Inr st'"
  then obtain r st1 where s: "(if ?gone = [] then Inr (0, st) else reserveRowRevisions (length ?gone) st) = Inr (r, st1)"
      "st' = resetStats (record_removed ?gone r (st1\<lparr>collections := AList.delete n (collections st1)\<rparr>))"
    by (auto simp: rbind_Inr_iff safe_name_iff Let_def split: if_splits prod.splits)
  have e: "collections st1 = collections st" using s(1) reserve_collections by (auto split: if_splits)
  have "(n', k) \<in> set ?gone \<longleftrightarrow> n' = n \<and> row_at st n' k \<noteq> None" for n' k
    unfolding lookup2_def map_of_eq_None_iff by force
  then have "lookup2 (AList.delete n (collections st)) n' k =
      (if (n', k) \<in> set ?gone then None else row_at st n' k)" for n' k
    by (simp add: lookup2_def mget_delete)
  from consistent_take_away [OF assms(2) _ this s(1)] consistent_good [OF assms(2)]
  show "consistent {} st' ws" unfolding s(2) e by simp
qed

lemma reset_rows: "store_reset st = (Inr u, st') \<Longrightarrow> collections st' = []"
  by (auto simp: store_reset_def Let_def settle_def rbind_Inr_iff split: sum.splits if_splits prod.splits)

lemma consistent_reset:
  assumes "store_reset st = (q, st')" and "consistent {} st ws"
  shows "consistent {} st' ws"
  using assms(1)[unfolded store_reset_def] assms(2)
proof (rule consistent_settle)
  let ?gone = "map (\<lambda>(name, key, row). (name, key)) (entries2 (collections st))"
  assume "(let removed = ?gone in
     rbind (if removed = [] then Inr (0, st) else reserveRowRevisions (length removed) st) (\<lambda>(firstRevision, st1).
     Inr (resetStats (record_removed removed firstRevision (st1\<lparr>collections := []\<rparr>))))) = Inr st'"
  then obtain r st1 where s: "(if ?gone = [] then Inr (0, st) else reserveRowRevisions (length ?gone) st) = Inr (r, st1)"
      "st' = resetStats (record_removed ?gone r (st1\<lparr>collections := []\<rparr>))"
    by (auto simp: rbind_Inr_iff Let_def split: prod.splits)
  have "(n, k) \<in> set ?gone \<longleftrightarrow> row_at st n k \<noteq> None" for n k
    using entries2_iff [OF good_rows_wf [OF consistent_good [OF assms(2)]], of n k] by (force simp: image_iff)
  then have "lookup2 [] n k = (if (n, k) \<in> set ?gone then None else row_at st n k)" for n k
    by (simp add: lookup2_def mget_def)
  from consistent_take_away [OF assms(2) good_rows_Nil this s(1)]
  show "consistent {} st' ws" unfolding s(2) by simp
qed

end
