(* ===== verification/TransactionInvariant.thy ===== *)
theory TransactionInvariant
  imports StoreOperations
begin

text \<open>
  The invariant of a running transaction: the rows it sees are the rows it began with, overlaid by the
  changes in its book, and each booked change fits the row it began with. Savepoints hold books and rows
  in the same relation. No operation inside a transaction breaks it.
\<close>

section \<open>The overlay\<close>

definition version_fits :: "jsnum option \<Rightarrow> jsval option \<Rightarrow> bool" where
  "version_fits expected row = (case expected of None \<Rightarrow> True | Some v \<Rightarrow> memoryVersionMatches row v)"

definition entry_fits :: "jsval option \<Rightarrow> jsval option \<Rightarrow> DirtyChange option \<Rightarrow> bool" where
  "entry_fits base row change = (case change of
     None \<Rightarrow> row = base
   | Some (DirtyCreate v) \<Rightarrow> base = None \<and> row = Some v
   | Some (DirtyUpdate v e) \<Rightarrow> base \<noteq> None \<and> row = Some v \<and> version_fits e base
   | Some (DirtyDelete e) \<Rightarrow> base \<noteq> None \<and> row = None \<and> version_fits e base)"

definition overlay :: "jsval nested \<Rightarrow> jsval nested \<Rightarrow> DirtyChange nested \<Rightarrow> bool" where
  "overlay base rows dirty = (wf2 dirty
     \<and> (\<forall>n k. entry_fits (lookup2 base n k) (lookup2 rows n k) (lookup2 dirty n k)))"

definition books_ok :: "jsval nested \<Rightarrow> bool \<Rightarrow> checkpoint \<Rightarrow> bool" where
  "books_ok base readOnly = (\<lambda>(rows, dirty, reads). good_rows rows \<and> wf2 reads \<and> overlay base rows dirty
     \<and> (readOnly \<longrightarrow> dirty = []))"

definition tx_ok :: "transaction \<Rightarrow> bool" where
  "tx_ok t = (good_rows (tx_base t)
     \<and> (\<forall>c \<in> set ((collections (tx_store t), tx_dirty t, tx_reads t) # tx_saves t).
          books_ok (tx_base t) (tx_readOnly t) c))"

lemma overlayD: "overlay base rows dirty \<Longrightarrow> entry_fits (lookup2 base n k) (lookup2 rows n k) (lookup2 dirty n k)"
  by (simp add: overlay_def)

lemma overlay_wf: "overlay base rows dirty \<Longrightarrow> wf2 dirty"
  by (simp add: overlay_def)

lemma overlay_change:
  assumes "overlay base rows dirty" and "wf2 dirty'"
    and "\<And>n' k'. lookup2 rows' n' k' = (if n' = n \<and> k' = k then row else lookup2 rows n' k')"
    and "\<And>n' k'. lookup2 dirty' n' k' = (if n' = n \<and> k' = k then change else lookup2 dirty n' k')"
    and "entry_fits (lookup2 base n k) row change"
  shows "overlay base rows' dirty'"
  using assms by (simp add: overlay_def)

lemma overlay_same:
  assumes "overlay base rows dirty" and "\<And>n k. lookup2 rows' n k = lookup2 rows n k"
  shows "overlay base rows' dirty"
  using assms by (simp add: overlay_def)

lemma overlay_create:
  assumes "overlay base rows dirty" and "lookup2 rows n k = None"
    and "\<And>n' k'. lookup2 rows' n' k' = (if n' = n \<and> k' = k then Some v else lookup2 rows n' k')"
  shows "overlay base rows' (markCreate n k v dirty)"
proof (rule overlay_change [OF assms(1) _ assms(3)])
  show "wf2 (markCreate n k v dirty)" using overlay_wf [OF assms(1)] by (simp add: markCreate_def)
  show "lookup2 (markCreate n k v dirty) n' k' = (if n' = n \<and> k' = k
      then Some (case lookup2 dirty n k of Some (DirtyDelete e) \<Rightarrow> DirtyUpdate v e | _ \<Rightarrow> DirtyCreate v)
      else lookup2 dirty n' k')" for n' k'
    by (simp add: markCreate_def map_simps)
  show "entry_fits (lookup2 base n k) (Some v)
      (Some (case lookup2 dirty n k of Some (DirtyDelete e) \<Rightarrow> DirtyUpdate v e | _ \<Rightarrow> DirtyCreate v))"
    using overlayD [OF assms(1), of n k] assms(2)
    by (auto simp: entry_fits_def split: option.splits DirtyChange.splits)
qed

lemma overlay_update:
  assumes "overlay base rows dirty" and "lookup2 rows n k \<noteq> None" and "version_fits e (lookup2 rows n k)"
    and "\<And>n' k'. lookup2 rows' n' k' = (if n' = n \<and> k' = k then Some v else lookup2 rows n' k')"
  shows "overlay base rows' (markUpdate n k v e dirty)"
proof (rule overlay_change [OF assms(1) _ assms(4)])
  let ?change = "case lookup2 dirty n k of
        Some (DirtyCreate _) \<Rightarrow> DirtyCreate v
      | Some (DirtyUpdate _ e') \<Rightarrow> DirtyUpdate v e'
      | Some (DirtyDelete e') \<Rightarrow> DirtyUpdate v e'
      | None \<Rightarrow> DirtyUpdate v e"
  show "wf2 (markUpdate n k v e dirty)" using overlay_wf [OF assms(1)] by (simp add: markUpdate_def)
  show "lookup2 (markUpdate n k v e dirty) n' k' =
      (if n' = n \<and> k' = k then Some ?change else lookup2 dirty n' k')" for n' k'
    by (simp add: markUpdate_def map_simps)
  show "entry_fits (lookup2 base n k) (Some v) (Some ?change)"
    using overlayD [OF assms(1), of n k] assms(2,3)
    by (auto simp: entry_fits_def split: option.splits DirtyChange.splits)
qed

lemma overlay_delete:
  assumes "overlay base rows dirty" and "existed = (lookup2 rows n k \<noteq> None)"
    and "existed \<Longrightarrow> version_fits e (lookup2 rows n k)"
    and "\<And>n' k'. lookup2 rows' n' k' = (if n' = n \<and> k' = k then None else lookup2 rows n' k')"
  shows "overlay base rows' (markDelete n k existed e dirty)"
proof (rule overlay_change [OF assms(1) _ assms(4)])
  let ?change = "case lookup2 dirty n k of
        Some (DirtyCreate _) \<Rightarrow> None
      | Some (DirtyUpdate _ e') \<Rightarrow> Some (DirtyDelete e')
      | Some (DirtyDelete e') \<Rightarrow> Some (DirtyDelete e')
      | None \<Rightarrow> if existed then Some (DirtyDelete e) else None"
  show "wf2 (markDelete n k existed e dirty)"
    using overlay_wf [OF assms(1)] by (simp add: markDelete_def split: option.splits DirtyChange.splits)
  show "lookup2 (markDelete n k existed e dirty) n' k' =
      (if n' = n \<and> k' = k then ?change else lookup2 dirty n' k')" for n' k'
    by (auto simp: markDelete_def map_simps split: option.splits DirtyChange.splits)
      (auto simp: lookup2_def map_simps mget_def split: if_splits option.splits)
  show "entry_fits (lookup2 base n k) None ?change"
    using overlayD [OF assms(1), of n k] assms(2,3)
    by (auto simp: entry_fits_def split: option.splits DirtyChange.splits)
qed

lemma overlay_row:
  assumes "overlay base rows dirty"
  shows "lookup2 dirty n k = Some (DirtyCreate v) \<Longrightarrow> lookup2 rows n k = Some v"
    "lookup2 dirty n k = Some (DirtyUpdate v e) \<Longrightarrow> lookup2 rows n k = Some v"
  using overlayD [OF assms, of n k] by (simp_all add: entry_fits_def)

lemma overlay_good:
  assumes "overlay base rows dirty" and "good_rows rows" and "lookup2 dirty n k = Some c"
  shows "c = DirtyCreate v \<or> c = DirtyUpdate v e \<Longrightarrow> good_row v \<and> safe_name n"
  using overlay_row [OF assms(1), of n k] good_rows_row [OF assms(2), of n k] good_rows_name [OF assms(2), of n k]
    assms(3) by auto

lemma overlay_clone:
  assumes "overlay base rows dirty" and "good_rows rows"
  shows "cloneDirty dirty = Inr dirty"
proof -
  have "cloneChange change = Inr change" if "(n, t) \<in> set dirty" "(k, change) \<in> set t" for n t k change
    using overlay_good [OF assms lookup2_member [OF overlay_wf [OF assms(1)] that]]
    by (cases change) (auto simp: cloneChange_def good_clone)
  then have "rlist (\<lambda>(key, change). rbind (cloneChange change) (\<lambda>c. Inr (key, c))) t = Inr (map id t)"
    if "(n, t) \<in> set dirty" for n t
    using that by (intro rlist_map_Inr) fastforce
  then have "cloneDirty dirty = Inr (map id dirty)"
    unfolding cloneDirty_def by (intro rlist_map_Inr) auto
  then show ?thesis by simp
qed

section \<open>Operations\<close>

lemma tx_ok_change:
  assumes "tx_ok t" and "books_ok (tx_base t) (tx_readOnly t) (collections (tx_store t'), tx_dirty t', tx_reads t')"
    and "tx_base t' = tx_base t" "tx_readOnly t' = tx_readOnly t" "set (tx_saves t') \<subseteq> set (tx_saves t)"
  shows "tx_ok t'"
  using assms by (auto simp: tx_ok_def)

lemma tx_books: "tx_ok t \<Longrightarrow> books_ok (tx_base t) (tx_readOnly t) (collections (tx_store t), tx_dirty t, tx_reads t)"
  by (simp add: tx_ok_def)

lemma tx_good: "tx_ok t \<Longrightarrow> good_rows (collections (tx_store t))"
  using tx_books by (auto simp: books_ok_def)

lemma tx_overlay: "tx_ok t \<Longrightarrow> overlay (tx_base t) (collections (tx_store t)) (tx_dirty t)"
  using tx_books by (auto simp: books_ok_def)

lemma tx_reads_wf: "tx_ok t \<Longrightarrow> wf2 (tx_reads t)"
  using tx_books by (auto simp: books_ok_def)

lemma tx_ok_store:
  assumes "tx_ok t" and "collections st = collections (tx_store t)"
  shows "tx_ok (t\<lparr>tx_store := st\<rparr>)"
  by (rule tx_ok_change [OF assms(1)]) (use tx_books [OF assms(1)] assms(2) in simp_all)

lemma tx_ok_reads:
  assumes "tx_ok t" and "wf2 reads"
  shows "tx_ok (t\<lparr>tx_reads := reads\<rparr>)"
  by (rule tx_ok_change [OF assms(1)]) (use tx_books [OF assms(1)] assms(2) in \<open>simp_all add: books_ok_def\<close>)

lemma tx_get_ok:
  assumes "tx_get m ident options t = (r, t')" and "tx_ok t"
  shows "tx_ok t'"
  using assms tx_ok_store [OF assms(2)] tx_ok_reads tx_reads_wf [OF assms(2)]
  by (auto simp: tx_get_def Let_def recordPointRead_def dest: store_get_frame split: sum.splits prod.splits)

lemma record_reads_wf: "record_reads n ids reads = Inr reads' \<Longrightarrow> wf2 reads \<Longrightarrow> wf2 reads'"
  by (induction ids arbitrary: reads) (auto simp: rbind_Inr_iff recordPointRead_def)

lemma tx_getMany_ok:
  assumes "tx_getMany m ids options t = (r, t')" and "tx_ok t"
  shows "tx_ok t'"
  using assms tx_ok_store [OF assms(2)] tx_ok_reads tx_reads_wf [OF assms(2)] record_reads_wf
  by (auto simp: tx_getMany_def Let_def dest: store_getMany_frame split: sum.splits prod.splits)

lemma tx_ok_book:
  assumes "tx_ok t" and "good_rows (collections st)" and "overlay (tx_base t) (collections st) dirty"
    and "\<not> tx_readOnly t"
  shows "tx_ok (t\<lparr>tx_store := st, tx_dirty := dirty\<rparr>)"
  by (rule tx_ok_change [OF assms(1)]) (use tx_books [OF assms(1)] assms(2-) in \<open>simp_all add: books_ok_def\<close>)

lemma written_options:
  assumes "normalizeStoreWriteOptions (write_options_value opts) = Inr opts'"
  shows "wo_expectedVersion opts' = wo_expectedVersion opts"
proof -
  let ?v = "case wo_expectedVersion opts of None \<Rightarrow> Undef | Some v \<Rightarrow> Num v"
  have p: "assertPlainOptions (write_options_value opts) [''expectedVersion'', ''meta''] =
      rbind (assertKnownOptionKeys (write_options_value opts) [''expectedVersion'', ''meta''])
        (\<lambda>_. Inr (Some (write_options_value opts)))"
    by (simp add: assertPlainOptions_def write_options_value_def js_object_def)
  have e: "ownOptionValue (write_options_value opts) ''expectedVersion'' = Inr ?v"
    by (simp add: ownOptionValue_def write_options_value_def js_object_def dataP_def)
  from assms show ?thesis
    unfolding normalizeStoreWriteOptions_def p
    by (auto simp: rbind_Inr_iff e split: option.splits if_splits)
qed

lemma tx_create_ok:
  assumes "tx_create m ident data options t = (r, t')" and "tx_ok t" and "symbol_free data" and "\<not> tx_readOnly t"
  shows "tx_ok t'"
proof -
  consider "t' = t" | clean st q where "clonePortableDataObject data = Inr clean"
      "store_create m ident clean Undef (tx_store t) = (q, st)"
      "t' = t\<lparr>tx_store := st\<rparr> \<and> (\<forall>u. q = Inr u \<longrightarrow> (\<exists>e. entityIdKey ident = Inl e))
       \<or> (\<exists>key. q = Inr () \<and> entityIdKey ident = Inr key
            \<and> t' = t\<lparr>tx_store := st, tx_dirty := markCreate (m_name m) key clean (tx_dirty t)\<rparr>)"
    using assms(1)
    by (auto simp: tx_create_def Let_def rbind_Inr_iff rbind_Inl_iff split: sum.splits prod.splits)
  then show ?thesis
  proof cases
    case 1
    with assms(2) show ?thesis by simp
  next
    case 2
    have clean: "good_row clean" by (rule good_stored [OF 2(1) assms(3)])
    show ?thesis
    proof (cases q)
      case (Inl e)
      with 2(2) have "collections st = collections (tx_store t)" using store_create_failed by fastforce
      with 2(3) Inl tx_ok_store [OF assms(2)] show ?thesis by auto
    next
      case (Inr u)
      with 2(2) have d: "store_create m ident clean Undef (tx_store t) = (Inr u, st)" by simp
      obtain clean' key where k: "clonePortableDataObject clean = Inr clean'" "entityIdKey ident = Inr key"
          "row_at (tx_store t) (m_name m) key = None" "wrote (m_name m) key clean' (count_create (tx_store t)) st"
        by (rule store_create_done [OF d])
      note same = good_portable [OF clean k(1)]
      have rows: "row_at st n' k' = (if n' = m_name m \<and> k' = key then Some clean else row_at (tx_store t) n' k')" for n' k'
        using wrote_rows [OF k(4)] same by simp
      have "good_rows (collections st)"
        using wrote_good [OF k(4)] tx_good [OF assms(2)] clean same by simp
      then show ?thesis
        using 2(3) Inr k(2) tx_ok_book [OF assms(2) _ overlay_create [OF tx_overlay [OF assms(2)] k(3) rows] assms(4)]
        by auto
    qed
  qed
qed

lemma tx_update_ok:
  assumes "tx_update m ident data options t = (r, t')" and "tx_ok t" and "symbol_free data" and "\<not> tx_readOnly t"
  shows "tx_ok t'"
proof -
  consider "t' = t" | clean opts st q where "clonePortableDataObject data = Inr clean"
      "store_update m ident clean (write_options_value opts) (tx_store t) = (q, st)"
      "t' = t\<lparr>tx_store := st\<rparr> \<and> (\<forall>u. q = Inr u \<longrightarrow> (\<exists>e. entityIdKey ident = Inl e))
       \<or> (\<exists>key. q = Inr () \<and> entityIdKey ident = Inr key
            \<and> t' = t\<lparr>tx_store := st,
                 tx_dirty := markUpdate (m_name m) key clean (wo_expectedVersion opts) (tx_dirty t)\<rparr>)"
    using assms(1)
    by (auto simp: tx_update_def Let_def rbind_Inr_iff rbind_Inl_iff split: sum.splits prod.splits)
  then show ?thesis
  proof cases
    case 1
    with assms(2) show ?thesis by simp
  next
    case 2
    have clean: "good_row clean" by (rule good_stored [OF 2(1) assms(3)])
    show ?thesis
    proof (cases q)
      case (Inl e)
      with 2(2) have "collections st = collections (tx_store t)" using store_update_failed by fastforce
      with 2(3) Inl tx_ok_store [OF assms(2)] show ?thesis by auto
    next
      case (Inr u)
      with 2(2) have d: "store_update m ident clean (write_options_value opts) (tx_store t) = (Inr u, st)" by simp
      obtain opts' clean' key where k: "clonePortableDataObject clean = Inr clean'" "entityIdKey ident = Inr key"
          "row_at (tx_store t) (m_name m) key \<noteq> None" "wrote (m_name m) key clean' (count_update (tx_store t)) st"
        and o: "normalizeStoreWriteOptions (write_options_value opts) = Inr opts'"
          "expects opts' (row_at (tx_store t) (m_name m) key)"
        by (rule store_update_done [OF d])
      note same = good_portable [OF clean k(1)]
      have rows: "row_at st n' k' = (if n' = m_name m \<and> k' = key then Some clean else row_at (tx_store t) n' k')" for n' k'
        using wrote_rows [OF k(4)] same by simp
      have v: "version_fits (wo_expectedVersion opts) (row_at (tx_store t) (m_name m) key)"
        using o(2) written_options [OF o(1)] by (simp add: expects_def version_fits_def)
      have "good_rows (collections st)"
        using wrote_good [OF k(4)] tx_good [OF assms(2)] clean same by simp
      then show ?thesis
        using 2(3) Inr k(2) tx_ok_book [OF assms(2) _ overlay_update [OF tx_overlay [OF assms(2)] k(3) v rows] assms(4)]
        by auto
    qed
  qed
qed

lemma tx_delete_ok:
  assumes "tx_delete m ident options t = (r, t')" and "tx_ok t" and "\<not> tx_readOnly t"
  shows "tx_ok t'"
proof -
  consider "t' = t" | key opts st q where "entityIdKey ident = Inr key"
      "store_delete m ident (write_options_value opts) (tx_store t) = (q, st)"
      "t' = t\<lparr>tx_store := st\<rparr> \<and> (\<exists>e. q = Inl e)
       \<or> (q = Inr () \<and> t' = t\<lparr>tx_store := st,
            tx_dirty := markDelete (m_name m) key (row_at (tx_store t) (m_name m) key \<noteq> None)
              (wo_expectedVersion opts) (tx_dirty t)\<rparr>)"
    using assms(1)
    by (auto simp: tx_delete_def Let_def rbind_Inr_iff rbind_Inl_iff existing_iff has_row
        split: sum.splits prod.splits)
  then show ?thesis
  proof cases
    case 1
    with assms(2) show ?thesis by simp
  next
    case 2
    let ?n = "m_name m"
    show ?thesis
    proof (cases q)
      case (Inl e)
      with 2(2) have "collections st = collections (tx_store t)" using store_delete_failed by fastforce
      with 2(3) Inl tx_ok_store [OF assms(2)] show ?thesis by auto
    next
      case (Inr u)
      with 2(2) have d: "store_delete m ident (write_options_value opts) (tx_store t) = (Inr u, st)" by simp
      have "good_rows (collections st)
          \<and> (row_at (tx_store t) ?n key \<noteq> None \<longrightarrow> version_fits (wo_expectedVersion opts) (row_at (tx_store t) ?n key))
          \<and> (\<forall>n' k'. row_at st n' k' = (if n' = ?n \<and> k' = key then None else row_at (tx_store t) n' k'))"
      proof (rule store_delete_done [OF d])
        fix opts' key'
        assume "entityIdKey ident = Inr key'" "row_at (tx_store t) ?n key' = None" "st = count_delete (tx_store t)"
        with 2(1) tx_good [OF assms(2)] show ?thesis by simp
      next
        fix opts' key'
        assume o: "normalizeStoreWriteOptions (write_options_value opts) = Inr opts'" "entityIdKey ident = Inr key'"
          "expects opts' (row_at (tx_store t) ?n key')" and w: "removed ?n key' (count_delete (tx_store t)) st"
        with 2(1) have "version_fits (wo_expectedVersion opts) (row_at (tx_store t) ?n key)"
          using written_options [OF o(1)] by (simp add: expects_def version_fits_def)
        with o(2) 2(1) w removed_rows [OF w] removed_good [OF w] tx_good [OF assms(2)] show ?thesis by simp
      qed
      then show ?thesis
        using 2(3) Inr tx_ok_book [OF assms(2) _ overlay_delete [OF tx_overlay [OF assms(2)] refl] assms(3)]
        by auto
    qed
  qed
qed

section \<open>Savepoints\<close>

lemma savepoint_begin_done:
  assumes "tx_ok t"
  shows "savepoint_begin t = (Inr (), t\<lparr>tx_saves := (collections (tx_store t), tx_dirty t, tx_reads t) # tx_saves t\<rparr>)"
  using good_rows_clone [OF tx_good [OF assms]] overlay_clone [OF tx_overlay [OF assms] tx_good [OF assms]]
  by (simp add: savepoint_begin_def)

lemma savepoint_begin_ok:
  assumes "savepoint_begin t = (r, t')" and "tx_ok t"
  shows "tx_ok t'"
  using assms savepoint_begin_done [OF assms(2)] by (auto simp: tx_ok_def)

lemma savepoint_release_ok: "tx_ok t \<Longrightarrow> tx_ok (savepoint_release t)"
  by (cases "tx_saves t") (auto simp: tx_ok_def savepoint_release_def)

lemma savepoint_restore_ok: "tx_ok t \<Longrightarrow> tx_ok (savepoint_restore t)"
  by (auto simp: tx_ok_def savepoint_restore_def replaceCollections_def split: list.splits)

end
