(* ===== verification/MemorySystem.thy ===== *)
theory MemorySystem
  imports TransactionInvariant
begin

text \<open>
  A memory store together with its running transactions, as a state machine. An event is one call of the
  store, the begin of a transaction, one call inside a running transaction, or its end; events come in any
  order, so the transactions interleave freely with each other and with direct writes. Transactions are
  named by handles in the order they begin. A call on a transaction that has ended is rejected, as the
  close-guarded adapter does.
\<close>

section \<open>Events\<close>

datatype store_event =
    SGet model_meta jsval jsval
  | SGetMany model_meta jsval jsval
  | SCreate model_meta jsval jsval jsval
  | SUpdate model_meta jsval jsval jsval
  | SDelete model_meta jsval jsval
  | SSeed model_meta jsval
  | SResetModel string
  | SReset
  | SResetStats

datatype tx_event =
    TGet model_meta jsval jsval
  | TGetMany model_meta jsval jsval
  | TCreate model_meta jsval jsval jsval
  | TUpdate model_meta jsval jsval jsval
  | TDelete model_meta jsval jsval
  | TSavepoint
  | TSavepointDone
  | TSavepointFailed

datatype event =
    OnStore store_event
  | Begin jsval
  | InTx nat tx_event
  | Commit nat
  | Abort nat

record memory_system =
  main_store :: memory_store
  running :: "(nat \<times> transaction) list"
  next_handle :: nat

definition new_system :: memory_system where
  "new_system = \<lparr>main_store = new_store, running = [], next_handle = 0\<rparr>"

definition outcome :: "'a res \<times> 's \<Rightarrow> unit res \<times> 's" where
  "outcome = (\<lambda>(r, s). (rbind r (\<lambda>_. Inr ()), s))"

fun perform_store :: "store_event \<Rightarrow> memory_store \<Rightarrow> unit res \<times> memory_store" where
  "perform_store (SGet m ident options) st = outcome (store_get m ident options st)"
| "perform_store (SGetMany m ids options) st = outcome (store_getMany m ids options st)"
| "perform_store (SCreate m ident data options) st = store_create m ident data options st"
| "perform_store (SUpdate m ident data options) st = store_update m ident data options st"
| "perform_store (SDelete m ident options) st = store_delete m ident options st"
| "perform_store (SSeed m rows) st = store_seed m rows st"
| "perform_store (SResetModel name) st = store_reset_model name st"
| "perform_store SReset st = store_reset st"
| "perform_store SResetStats st = (Inr (), resetStats st)"

fun perform_tx :: "tx_event \<Rightarrow> transaction \<Rightarrow> unit res \<times> transaction" where
  "perform_tx (TGet m ident options) t = outcome (tx_get m ident options t)"
| "perform_tx (TGetMany m ids options) t = outcome (tx_getMany m ids options t)"
| "perform_tx (TCreate m ident data options) t =
     (if tx_readOnly t then (Inl ActiveTsConfigurationError, t) else tx_create m ident data options t)"
| "perform_tx (TUpdate m ident data options) t =
     (if tx_readOnly t then (Inl ActiveTsConfigurationError, t) else tx_update m ident data options t)"
| "perform_tx (TDelete m ident options) t =
     (if tx_readOnly t then (Inl ActiveTsConfigurationError, t) else tx_delete m ident options t)"
| "perform_tx TSavepoint t = savepoint_begin t"
| "perform_tx TSavepointDone t = (Inr (), savepoint_release t)"
| "perform_tx TSavepointFailed t = (Inr (), savepoint_restore t)"

definition commit_transaction :: "transaction \<Rightarrow> memory_store \<Rightarrow> unit res \<times> memory_store" where
  "commit_transaction t st = (case applyDirty (tx_dirty t) (tx_reads t) (tx_snapshot t) st of
     (r, st') \<Rightarrow> (r, finish_transaction t st'))"

fun perform :: "event \<Rightarrow> memory_system \<Rightarrow> unit res \<times> memory_system" where
  "perform (OnStore e) s = (case perform_store e (main_store s) of
     (r, st) \<Rightarrow> (r, s\<lparr>main_store := st\<rparr>))"
| "perform (Begin options) s = (case begin_transaction options (main_store s) of
     (Inl e, st) \<Rightarrow> (Inl e, s\<lparr>main_store := st\<rparr>)
   | (Inr t, st) \<Rightarrow> (Inr (), s\<lparr>main_store := st, running := (next_handle s, t) # running s,
        next_handle := next_handle s + 1\<rparr>))"
| "perform (InTx i e) s = (case map_of (running s) i of
     None \<Rightarrow> (Inl ActiveTsConfigurationError, s)
   | Some t \<Rightarrow> (case perform_tx e t of (r, t') \<Rightarrow> (r, s\<lparr>running := AList.update i t' (running s)\<rparr>)))"
| "perform (Commit i) s = (case map_of (running s) i of
     None \<Rightarrow> (Inl ActiveTsConfigurationError, s)
   | Some t \<Rightarrow> (case commit_transaction t (main_store s) of
       (r, st) \<Rightarrow> (r, s\<lparr>main_store := st, running := AList.delete i (running s)\<rparr>)))"
| "perform (Abort i) s = (case map_of (running s) i of
     None \<Rightarrow> (Inl ActiveTsConfigurationError, s)
   | Some t \<Rightarrow> (Inr (), s\<lparr>main_store := finish_transaction t (main_store s),
        running := AList.delete i (running s)\<rparr>))"

text \<open>Data comes without symbol-keyed properties: the symbol of the entity key descriptor is internal.\<close>

fun store_event_data :: "store_event \<Rightarrow> jsval" where
  "store_event_data (SCreate m ident data options) = data"
| "store_event_data (SUpdate m ident data options) = data"
| "store_event_data (SSeed m rows) = rows"
| "store_event_data e = Undef"

fun tx_event_data :: "tx_event \<Rightarrow> jsval" where
  "tx_event_data (TCreate m ident data options) = data"
| "tx_event_data (TUpdate m ident data options) = data"
| "tx_event_data e = Undef"

fun admissible :: "event \<Rightarrow> bool" where
  "admissible (OnStore e) = symbol_free (store_event_data e)"
| "admissible (InTx i e) = symbol_free (tx_event_data e)"
| "admissible e = True"

inductive reachable :: "memory_system \<Rightarrow> bool" where
  reachable_new: "reachable new_system"
| reachable_step: "reachable s \<Longrightarrow> admissible e \<Longrightarrow> perform e s = (r, s') \<Longrightarrow> reachable s'"

section \<open>The invariant of the system\<close>

definition watchers :: "(nat \<times> transaction) list \<Rightarrow> watcher list" where
  "watchers ts = map (\<lambda>(i, t). (tx_snapshot t, tx_base t)) ts"

definition system_ok :: "memory_system \<Rightarrow> bool" where
  "system_ok s = (consistent {} (main_store s) (watchers (running s))
     \<and> distinct (map fst (running s)) \<and> (\<forall>(i, t) \<in> set (running s). i < next_handle s \<and> tx_ok t))"

lemma system_consistent: "system_ok s \<Longrightarrow> consistent {} (main_store s) (watchers (running s))"
  by (simp add: system_ok_def)

lemma system_tx: "system_ok s \<Longrightarrow> map_of (running s) i = Some t \<Longrightarrow> tx_ok t"
  by (auto simp: system_ok_def dest: map_of_SomeD)

lemma system_watches:
  "map_of (running s) i = Some t \<Longrightarrow> (tx_snapshot t, tx_base t) \<in> set (watchers (running s))"
  by (force simp: watchers_def dest: map_of_SomeD)

lemma perform_store_consistent:
  assumes "perform_store e st = (r, st')" and "consistent {} st ws" and "symbol_free (store_event_data e)"
  shows "consistent {} st' ws"
  using assms consistent_create consistent_update consistent_delete consistent_seed consistent_reset
    consistent_reset_model consistent_get consistent_getMany
  by (cases e) (auto simp: outcome_def split: prod.splits)

lemma perform_tx_ok:
  assumes "perform_tx e t = (r, t')" and "tx_ok t" and "symbol_free (tx_event_data e)"
  shows "tx_ok t'"
  using assms tx_get_ok tx_getMany_ok tx_create_ok tx_update_ok tx_delete_ok savepoint_begin_ok
    savepoint_release_ok savepoint_restore_ok
  by (cases e) (auto simp: outcome_def split: prod.splits if_splits)

text \<open>What a transaction began with, and whether it may write, never changes.\<close>

lemma perform_tx_frame:
  assumes "perform_tx e t = (r, t')"
  shows "tx_snapshot t' = tx_snapshot t" "tx_base t' = tx_base t" "tx_readOnly t' = tx_readOnly t"
  using assms
  by (cases e; auto simp: outcome_def tx_get_def tx_getMany_def tx_create_def tx_update_def tx_delete_def
      savepoint_begin_def savepoint_release_def savepoint_restore_def Let_def
      split: prod.splits if_splits sum.splits list.splits)+

section \<open>Publishing\<close>

definition published :: "DirtyChange option \<Rightarrow> jsval option \<Rightarrow> jsval option" where
  "published change row = (case change of
     None \<Rightarrow> row
   | Some (DirtyCreate v) \<Rightarrow> Some v
   | Some (DirtyUpdate v e) \<Rightarrow> Some v
   | Some (DirtyDelete e) \<Rightarrow> None)"

definition change_value :: "DirtyChange \<Rightarrow> jsval option" where
  "change_value change = published (Some change) None"

definition storable :: "string \<times> string \<times> DirtyChange \<Rightarrow> bool" where
  "storable = (\<lambda>(n, k, c). \<forall>v. change_value c = Some v \<longrightarrow> good_row v \<and> safe_name n)"

lemma mutates_frame:
  assumes "(n, k) \<notin> fst ` set (keys2 cs)" and "\<And>n' k'. (n', k') \<noteq> (n, k) \<Longrightarrow> row_at st' n' k' = row_at st n' k'"
  shows "filter (mutates (collections st')) cs = filter (mutates (collections st)) cs"
  using assms(1)
proof (induction cs)
  case (Cons x cs)
  obtain n' k' c where x: "x = (n', k', c)" by (cases x) auto
  with Cons.prems assms(2) [of n' k'] have "mutates (collections st') x = mutates (collections st) x"
    by (auto simp: mutates_def split: DirtyChange.splits)
  with Cons x show ?case by auto
qed simp

lemma publish_row_store:
  assumes "consistent {} st ws" and "good_row v" and "safe_name n" and "fresh_revision r st ws"
  obtains st' where "publish_row n k v r st = (Inr (), st')" "consistent {} st' ws"
    "\<And>n' k'. row_at st' n' k' = (if n' = n \<and> k' = k then Some v else row_at st n' k')"
    "\<And>q. fresh_revision q st' ws = fresh_revision q st ws"
proof -
  obtain st1 where c: "collection n st = Inr st1" using collection_safe [OF assms(3)] by blast
  note f = collection_Inr [OF c]
  let ?st = "recordRowRevision n k r True (set_row n k v st1)"
  have "fresh_revision r st1 ws" using assms(4) f by (simp add: fresh_revision_def)
  from consistent_write [OF consistent_collection [OF assms(1) c] assms(3,2) this, of k]
  have "consistent {} ?st ws" by simp
  moreover have "publish_row n k v r st = (Inr (), ?st)"
    using assms(2) by (simp add: publish_row_def c good_clone)
  ultimately show ?thesis using that [of ?st] f by (simp add: set_row_lookup fresh_revision_def)
qed

lemma published_value: "lookup2 d n k = Some c \<Longrightarrow> published (Some c) row = change_value c"
  by (simp add: published_def change_value_def split: DirtyChange.splits)

lemma apply_changes_store:
  assumes "consistent {} st ws" and "distinct (map fst (keys2 cs))" and "\<And>x. x \<in> set cs \<Longrightarrow> storable x"
    and "\<And>i. i < length (filter (mutates (collections st)) cs) \<Longrightarrow> fresh_revision (r + i) st ws"
  shows "\<exists>st'. apply_changes cs r st = (Inr (), st') \<and> consistent {} st' ws
    \<and> (\<forall>n k. row_at st' n k = published (map_of (keys2 cs) (n, k)) (row_at st n k))"
  using assms
proof (induction cs arbitrary: r st)
  case Nil
  then show ?case by (simp add: keys2_def published_def)
next
  case (Cons x cs)
  obtain n k c where x: "x = (n, k, c)" by (cases x) auto
  have d: "distinct (map fst (keys2 cs))" "(n, k) \<notin> fst ` set (keys2 cs)" and s: "\<And>y. y \<in> set cs \<Longrightarrow> storable y"
    using Cons.prems(2,3) x by auto
  have m: "map_of (keys2 cs) (n, k) = None" using d(2) by (simp add: map_of_eq_None_iff)
  have step: ?case if e: "apply_changes (x # cs) r st = apply_changes cs r' st1" "consistent {} st1 ws"
      "\<And>n' k'. row_at st1 n' k' = (if n' = n \<and> k' = k then change_value c else row_at st n' k')"
      "\<And>q. fresh_revision q st1 ws = fresh_revision q st ws" "r' = r + (if mutates (collections st) x then 1 else 0)"
    for st1 r'
  proof -
    have "fresh_revision (r' + i) st1 ws" if i: "i < length (filter (mutates (collections st1)) cs)" for i
    proof -
      have "row_at st1 n' k' = row_at st n' k'" if "(n', k') \<noteq> (n, k)" for n' k'
        using that e(3) by auto
      then have "length (filter (mutates (collections st1)) cs) = length (filter (mutates (collections st)) cs)"
        using mutates_frame [OF d(2), of st1 st] by simp
      with i Cons.prems(4) [of "if mutates (collections st) x then Suc i else i"] show ?thesis
        unfolding e(4,5) by (auto split: if_splits)
    qed
    from Cons.IH [OF e(2) d(1) s this] obtain st' where "apply_changes cs r' st1 = (Inr (), st')" "consistent {} st' ws"
      "\<forall>n k. row_at st' n k = published (map_of (keys2 cs) (n, k)) (row_at st1 n k)" by blast
    then show ?thesis using e(1,3) m x
      by (auto simp: published_def change_value_def split: DirtyChange.splits)
  qed
  show ?case
  proof (cases "mutates (collections st) x")
    case False
    then obtain e where c: "c = DirtyDelete e" "row_at st n k = None" by (cases c) (auto simp: mutates_def x)
    show ?thesis by (rule step [of r st]) (use False c Cons.prems(1) x in \<open>auto simp: change_value_def published_def\<close>)
  next
    case True
    then have f: "fresh_revision r st ws" using Cons.prems(4) [of 0] by simp
    show ?thesis
    proof (cases "change_value c")
      case None
      then obtain e where c: "c = DirtyDelete e" by (cases c) (auto simp: change_value_def published_def)
      with True x obtain v where v: "row_at st n k = Some v" by (auto simp: mutates_def)
      have n: "safe_name n" using good_rows_name [OF consistent_good [OF Cons.prems(1)] v] .
      show ?thesis
        by (rule step [of "r + 1" "recordRowRevision n k r False (delete_row n k st)"])
          (use True c x v None consistent_remove [OF Cons.prems(1) n f, of k] in
            \<open>auto simp: set_row_lookup\<close>)
    next
      case (Some v)
      with Cons.prems(3) [of x] x have g: "good_row v" "safe_name n" by (auto simp: storable_def)
      obtain st1 where p: "publish_row n k v r st = (Inr (), st1)" "consistent {} st1 ws"
        "\<And>n' k'. row_at st1 n' k' = (if n' = n \<and> k' = k then Some v else row_at st n' k')"
        "\<And>q. fresh_revision q st1 ws = fresh_revision q st ws"
        by (rule publish_row_store [OF Cons.prems(1) g f, where k = k]) (rule that)
      have "apply_changes (x # cs) r st = apply_changes cs (r + 1) st1"
        using Some p(1) by (cases c) (auto simp: x change_value_def published_def)
      then show ?thesis by (intro step [of "r + 1" st1]) (use p True Some in auto)
    qed
  qed
qed

lemma check_change_Inr:
  "check_change rows (n, k, c) = Inr u \<longleftrightarrow> (case c of
     DirtyCreate v \<Rightarrow> lookup2 rows n k = None
   | DirtyUpdate v e \<Rightarrow> lookup2 rows n k \<noteq> None \<and> version_fits e (lookup2 rows n k)
   | DirtyDelete e \<Rightarrow> version_fits e (lookup2 rows n k) \<and> (e \<noteq> None \<longrightarrow> lookup2 rows n k \<noteq> None))"
  by (auto simp: check_change_def Let_def version_fits_def split: DirtyChange.splits option.splits if_splits)

lemma check_change_error:
  "check_change rows x = Inl e \<Longrightarrow> e = ActiveTsConflictError \<or> e = ActiveTsNotFoundError"
  by (auto simp: check_change_def Let_def split: DirtyChange.splits option.splits if_splits prod.splits)

lemma check_read_Inr:
  "check_read revs s (n, k, b) = Inr u \<longleftrightarrow> \<not> newer_revision s (lookup2 revs n k)"
  by (auto simp: check_read_def newer_revision_def split: option.splits if_splits)

lemma check_read_error: "check_read revs s x = Inl e \<Longrightarrow> e = ActiveTsConflictError"
  by (auto simp: check_read_def split: option.splits if_splits prod.splits)

lemma reach_error: "reach f xs = Inl e \<Longrightarrow> \<exists>x \<in> set xs. f x = Inl e"
  by (induction xs) (auto simp: rbind_Inl_iff)

lemma overlay_storable:
  assumes "overlay base rows dirty" and "good_rows rows" and "x \<in> set (entries2 dirty)"
  shows "storable x"
proof -
  obtain n k c where x: "x = (n, k, c)" by (cases x) auto
  with assms(3) have l: "lookup2 dirty n k = Some c" using entries2_iff [OF overlay_wf [OF assms(1)]] by simp
  from overlay_good [OF assms(1,2) l] show ?thesis
    by (cases c) (auto simp: x storable_def change_value_def published_def)
qed

text \<open>A commit that is accepted publishes every booked change and nothing else; a commit that is refused
  leaves the store as it was.\<close>

lemma applyDirty_cases:
  assumes "consistent {} st ws" and "overlay base rows dirty" and "good_rows rows" and "wf2 reads"
    and "applyDirty dirty reads snapshot st = (r, st')"
  obtains (refused) e where "r = Inl e" "st' = st"
      "e \<in> {ActiveTsConflictError, ActiveTsNotFoundError, ActiveTsConfigurationError}"
  | (accepted) "r = Inr ()" "consistent {} st' ws"
      "\<And>n k. row_at st' n k = published (lookup2 dirty n k) (row_at st n k)"
      "\<And>n k c. lookup2 dirty n k = Some c \<Longrightarrow> check_change (collections st) (n, k, c) = Inr ()"
      "\<And>n k b. lookup2 reads n k = Some b \<Longrightarrow> \<not> newer_revision snapshot (revision_at st n k)"
proof -
  let ?es = "entries2 dirty"
  let ?count = "length (filter (mutates (collections st)) ?es)"
  let ?reserve = "if ?count = 0 then Inr (0, st) else reserveRowRevisions ?count st"
  have wd: "wf2 dirty" by (rule overlay_wf [OF assms(2)])
  show thesis
  proof (cases "reach (check_change (collections st)) ?es")
    case (Inl e)
    then have "e = ActiveTsConflictError \<or> e = ActiveTsNotFoundError"
      using reach_error [OF Inl] check_change_error by blast
    with assms(5) Inl refused [of e] show thesis by (auto simp add: applyDirty_def)
  next
    case changes: (Inr u1)
    show thesis
    proof (cases "reach (check_read (rowRevisions st) snapshot) (entries2 reads)")
      case (Inl e)
      then have "e = ActiveTsConflictError" using reach_error [OF Inl] check_read_error by blast
      with assms(5) changes Inl refused [of e] show thesis by (simp add: applyDirty_def)
    next
      case reads: (Inr u2)
      show thesis
      proof (cases ?reserve)
        case (Inl e)
        then have "e = ActiveTsConfigurationError" by (auto simp: reserveRowRevisions_def split: if_splits)
        with assms(5) changes reads Inl refused [of e] show thesis by (auto simp add: applyDirty_def Let_def)
      next
        case (Inr p)
        obtain first st1 where p: "p = (first, st1)" by force
        note res = Inr [unfolded p]
        have c1: "consistent {} st1 ws" and e: "collections st1 = collections st"
          and f: "i < ?count \<Longrightarrow> fresh_revision (first + i) st1 ws" for i
          using assms(1) res consistent_reserve reserve_collections by (auto split: if_splits)
        obtain st2 where a: "apply_changes ?es first st1 = (Inr (), st2)" "consistent {} st2 ws"
            "\<forall>n k. row_at st2 n k = published (map_of (keys2 ?es) (n, k)) (row_at st1 n k)"
          using apply_changes_store [OF c1 entries2_keys_distinct [OF wd] overlay_storable [OF assms(2,3)]] f e
          by fastforce
        have "r = Inr ()" "st' = st2"
          using assms(5) changes reads res a(1) by (simp_all add: applyDirty_def Let_def)
        moreover have "check_change (collections st) (n, k, c) = Inr ()" if "lookup2 dirty n k = Some c" for n k c
          using reachD [OF changes] entries2_iff [OF wd] that by blast
        moreover have "\<not> newer_revision snapshot (revision_at st n k)" if "lookup2 reads n k = Some b" for n k b
          using reachD [OF reads] entries2_iff [OF assms(4)] that check_read_Inr by blast
        ultimately show thesis using accepted a(2,3) e entries2_lookup [OF wd] by simp
      qed
    qed
  qed
qed

section \<open>The invariant holds in every reachable state\<close>

lemma watchers_update:
  assumes "map_of ts i = Some t" and "tx_snapshot t' = tx_snapshot t" and "tx_base t' = tx_base t"
  shows "watchers (AList.update i t' ts) = watchers ts"
  using assms(1)
proof (induction ts)
  case (Cons x ts)
  then show ?case using assms(2,3) by (cases x) (auto simp: watchers_def split: if_splits)
qed simp

lemma watchers_delete:
  assumes "map_of ts i = Some t" and "distinct (map fst ts)"
  shows "set (watchers (AList.delete i ts)) \<subseteq> set (watchers ts)"
    and "count_list (map fst (watchers ts)) x =
      count_list (map fst (watchers (AList.delete i ts))) x + (if x = tx_snapshot t then 1 else 0)"
proof -
  show "set (watchers (AList.delete i ts)) \<subseteq> set (watchers ts)"
    using set_delete_sub [of i ts] by (auto simp: watchers_def)
  show "count_list (map fst (watchers ts)) x =
      count_list (map fst (watchers (AList.delete i ts))) x + (if x = tx_snapshot t then 1 else 0)"
    using assms
  proof (induction ts)
    case (Cons y ts)
    obtain j u where y: "y = (j, u)" by force
    show ?case
    proof (cases "j = i")
      case True
      with Cons.prems(2) y have "i \<notin> fst ` set ts" by simp
      then have "AList.delete i ts = ts" by (force simp: AList.delete_eq filter_id_conv)
      with Cons.prems(1) True y show ?thesis by (auto simp: watchers_def)
    next
      case False
      with Cons y show ?thesis by (simp add: watchers_def)
    qed
  qed simp
qed

lemma consistent_finish:
  assumes "consistent {} st (watchers ts)" and "map_of ts i = Some t" and "distinct (map fst ts)"
  shows "consistent {} (finish_transaction t st) (watchers (AList.delete i ts))"
proof -
  have "consistent {} (mergeStats (stats (tx_store t)) st) (watchers ts)" using assms(1) by simp
  from consistent_release [OF this watchers_delete(1) [OF assms(2,3)] watchers_delete(2) [OF assms(2,3)]]
  show ?thesis by (simp add: finish_transaction_def)
qed

lemma begin_done:
  assumes "begin_transaction options st = (Inr t, st')" and "consistent {} st ws"
  shows "tx_ok t" and "consistent {} st' ((tx_snapshot t, tx_base t) # ws)"
    and "tx_snapshot t = rowRevisionGeneration st" and "tx_base t = collections st"
    and "collections (tx_store t) = collections st" and "tx_dirty t = []" and "tx_reads t = []"
    and "collections st' = collections st"
proof -
  have c: "cloneCollections st = Inr (collections st)" by (rule good_rows_clone [OF consistent_good [OF assms(2)]])
  from assms(1) obtain snapshot readOnly where b: "beginTransactionSnapshot st = (snapshot, st')"
    and t: "t = \<lparr>tx_store = replaceCollections (collections st) new_store, tx_dirty = [], tx_reads = [],
                tx_snapshot = snapshot, tx_readOnly = readOnly, tx_saves = [], tx_base = collections st\<rparr>"
    by (auto simp: begin_transaction_def rbind_Inr_iff c split: sum.splits prod.splits if_splits)
  note k = consistent_begin [OF assms(2) b]
  show "tx_ok t" using consistent_good [OF assms(2)]
    by (simp add: tx_ok_def t books_ok_def overlay_def entry_fits_def replaceCollections_def)
      (simp add: lookup2_def mget_def)
  show "consistent {} st' ((tx_snapshot t, tx_base t) # ws)" using k(1) by (simp add: t)
  show "tx_snapshot t = rowRevisionGeneration st" using k(2) by (simp add: t)
  show "collections st' = collections st" by (rule k(3))
  show "tx_base t = collections st" "collections (tx_store t) = collections st" "tx_dirty t = []" "tx_reads t = []"
    by (simp_all add: t replaceCollections_def)
qed

lemma begin_failed: "begin_transaction options st = (Inl e, st') \<Longrightarrow> st' = st"
  by (auto simp: begin_transaction_def split: sum.splits prod.splits)

lemma commit_cases:
  assumes "system_ok s" and "map_of (running s) i = Some t" and "commit_transaction t (main_store s) = (r, st')"
  obtains (refused) e where "r = Inl e" "st' = finish_transaction t (main_store s)"
      "e \<in> {ActiveTsConflictError, ActiveTsNotFoundError, ActiveTsConfigurationError}"
  | (accepted) st where "r = Inr ()" "st' = finish_transaction t st" "consistent {} st (watchers (running s))"
      "\<And>n k. row_at st n k = published (lookup2 (tx_dirty t) n k) (row_at (main_store s) n k)"
      "\<And>n k c. lookup2 (tx_dirty t) n k = Some c \<Longrightarrow> check_change (collections (main_store s)) (n, k, c) = Inr ()"
      "\<And>n k b. lookup2 (tx_reads t) n k = Some b \<Longrightarrow> \<not> newer_revision (tx_snapshot t) (revision_at (main_store s) n k)"
proof -
  note ok = system_tx [OF assms(1,2)]
  obtain st where a: "applyDirty (tx_dirty t) (tx_reads t) (tx_snapshot t) (main_store s) = (r, st)"
    and f: "st' = finish_transaction t st"
    using assms(3) by (auto simp: commit_transaction_def split: prod.splits)
  show thesis
    by (rule applyDirty_cases [OF system_consistent [OF assms(1)] tx_overlay [OF ok] tx_good [OF ok] tx_reads_wf [OF ok] a])
      (use f refused accepted in blast)+
qed

lemma system_perform:
  assumes "system_ok s" and "admissible e" and "perform e s = (r, s')"
  shows "system_ok s'"
proof -
  note c = system_consistent [OF assms(1)]
  have d: "distinct (map fst (running s))" and b: "\<And>i t. (i, t) \<in> set (running s) \<Longrightarrow> i < next_handle s \<and> tx_ok t"
    using assms(1) by (auto simp: system_ok_def)
  show ?thesis
  proof (cases e)
    case (OnStore x)
    with assms c perform_store_consistent show ?thesis by (auto simp: system_ok_def split: prod.splits)
  next
    case (Begin options)
    obtain q st where q: "begin_transaction options (main_store s) = (q, st)" by force
    show ?thesis
    proof (cases q)
      case (Inl x)
      then have "s' = s" using q Begin assms(3) begin_failed [of options "main_store s" x st] by auto
      with assms(1) show ?thesis by simp
    next
      case (Inr t)
      note bd = begin_done [OF q [unfolded Inr] c]
      from b have "next_handle s \<notin> fst ` set (running s)" by force
      with bd(1,2) d b Begin assms(3) q Inr show ?thesis
        by (fastforce simp: system_ok_def watchers_def)
    qed
  next
    case (InTx i x)
    show ?thesis
    proof (cases "map_of (running s) i")
      case None
      with InTx assms show ?thesis by simp
    next
      case (Some t)
      obtain q t' where q: "perform_tx x t = (q, t')" by force
      have ok: "tx_ok t'" using perform_tx_ok [OF q system_tx [OF assms(1) Some]] assms(2) InTx by simp
      have s': "s' = s\<lparr>running := AList.update i t' (running s)\<rparr>" using assms(3) InTx Some q by simp
      have "i < next_handle s" using b Some by (auto dest: map_of_SomeD)
      with ok b d c set_update_sub [of i t' "running s"] watchers_update [OF Some perform_tx_frame(1,2) [OF q]]
      show ?thesis by (auto simp: system_ok_def s')
    qed
  next
    case (Commit i)
    show ?thesis
    proof (cases "map_of (running s) i")
      case None
      with Commit assms show ?thesis by simp
    next
      case (Some t)
      obtain q st where q: "commit_transaction t (main_store s) = (q, st)" by force
      have "consistent {} st (watchers (AList.delete i (running s)))"
        by (rule commit_cases [OF assms(1) Some q]) (use consistent_finish [OF _ Some d] c in auto)
      then show ?thesis using assms(3) Commit Some q b d set_delete_sub [of i "running s"]
        by (auto simp: system_ok_def)
    qed
  next
    case (Abort i)
    show ?thesis
    proof (cases "map_of (running s) i")
      case None
      with Abort assms show ?thesis by simp
    next
      case (Some t)
      with assms(3) Abort b d consistent_finish [OF c Some d] set_delete_sub [of i "running s"]
      show ?thesis by (auto simp: system_ok_def)
    qed
  qed
qed

lemma system_new: "system_ok new_system"
  by (simp add: system_ok_def new_system_def consistent_def well_formed_def tracked_def row_tracked_def
      new_store_def watchers_def snapshot_uses_def lookup2_def mget_def fun_eq_iff)

lemma reachable_ok: "reachable s \<Longrightarrow> system_ok s"
  by (induction rule: reachable.induct) (auto intro: system_new system_perform)

end
