(* ===== verification/StoreContract.thy ===== *)
theory StoreContract
  imports MemorySystem
begin

text \<open>
  What a client of a \<open>StoreAdapter\<close> relies on, whoever provides it: reads show the rows, an accepted write
  changes exactly one row and a rejected one none. The memory store provides the contract, and so does the
  adapter it hands to the callback of a transaction; the laws of a client are proved once.
\<close>

locale store_adapter =
  fixes ok :: "'s \<Rightarrow> bool"
    and rows :: "'s \<Rightarrow> string \<Rightarrow> string \<Rightarrow> jsval option"
    and get :: "model_meta \<Rightarrow> jsval \<Rightarrow> jsval \<Rightarrow> 's \<Rightarrow> jsval res \<times> 's"
    and create :: "model_meta \<Rightarrow> jsval \<Rightarrow> jsval \<Rightarrow> jsval \<Rightarrow> 's \<Rightarrow> unit res \<times> 's"
    and update :: "model_meta \<Rightarrow> jsval \<Rightarrow> jsval \<Rightarrow> jsval \<Rightarrow> 's \<Rightarrow> unit res \<times> 's"
    and delete :: "model_meta \<Rightarrow> jsval \<Rightarrow> jsval \<Rightarrow> 's \<Rightarrow> unit res \<times> 's"
  assumes get_row: "ok s \<Longrightarrow> assertSafeEntityId ident = Inr () \<Longrightarrow> entityIdKey ident = Inr key \<Longrightarrow>
      safe_name (m_name m) \<Longrightarrow>
      fst (get m ident Undef s) = Inr (case rows s (m_name m) key of None \<Rightarrow> Null | Some v \<Rightarrow> v)"
    and get_keeps: "ok s \<Longrightarrow> get m ident options s = (r, s') \<Longrightarrow> ok s' \<and> rows s' = rows s"
    and create_writes: "ok s \<Longrightarrow> symbol_free data \<Longrightarrow> create m ident data options s = (Inr u, s') \<Longrightarrow>
      \<exists>clean key. clonePortableDataObject data = Inr clean \<and> assertSafeEntityId ident = Inr ()
        \<and> entityIdKey ident = Inr key \<and> safe_name (m_name m) \<and> rows s (m_name m) key = None \<and> ok s'
        \<and> (\<forall>n k. rows s' n k = (if n = m_name m \<and> k = key then Some clean else rows s n k))"
    and update_writes: "ok s \<Longrightarrow> symbol_free data \<Longrightarrow> update m ident data options s = (Inr u, s') \<Longrightarrow>
      \<exists>clean key. clonePortableDataObject data = Inr clean \<and> assertSafeEntityId ident = Inr ()
        \<and> entityIdKey ident = Inr key \<and> safe_name (m_name m) \<and> rows s (m_name m) key \<noteq> None \<and> ok s'
        \<and> (\<forall>n k. rows s' n k = (if n = m_name m \<and> k = key then Some clean else rows s n k))"
    and delete_writes: "ok s \<Longrightarrow> delete m ident options s = (Inr u, s') \<Longrightarrow>
      \<exists>key. assertSafeEntityId ident = Inr () \<and> entityIdKey ident = Inr key \<and> safe_name (m_name m) \<and> ok s'
        \<and> (\<forall>n k. rows s' n k = (if n = m_name m \<and> k = key then None else rows s n k))"
    and write_rejected: "ok s \<Longrightarrow> symbol_free data \<Longrightarrow>
      create m ident data options s = (Inl e, s') \<or> update m ident data options s = (Inl e, s')
        \<or> delete m ident options s = (Inl e, s') \<Longrightarrow> ok s' \<and> rows s' = rows s"
begin

lemma read_after_create:
  assumes "ok s" and "symbol_free data" and "create m ident data options s = (Inr u, s')"
  shows "fst (get m ident Undef s') = clonePortableDataObject data"
  using create_writes [OF assms] get_row by fastforce

lemma read_after_update:
  assumes "ok s" and "symbol_free data" and "update m ident data options s = (Inr u, s')"
  shows "fst (get m ident Undef s') = clonePortableDataObject data"
  using update_writes [OF assms] get_row by fastforce

lemma read_after_delete:
  assumes "ok s" and "delete m ident options s = (Inr u, s')"
  shows "fst (get m ident Undef s') = Inr Null"
  using delete_writes [OF assms] get_row by fastforce

lemma create_after_create:
  assumes "ok s" and "symbol_free data" and "symbol_free data'"
    and "create m ident data options s = (Inr u, s')"
  shows "\<exists>e. fst (create m ident data' options' s') = Inl e"
proof (cases "fst (create m ident data' options' s')")
  case (Inr u')
  obtain s'' where c: "create m ident data' options' s' = (Inr u', s'')" using Inr by (metis prod.collapse)
  show ?thesis using create_writes [OF assms(1,2,4)] create_writes [OF _ assms(3) c] by fastforce
qed simp

lemma other_rows_kept:
  assumes "ok s" and "symbol_free data" and "entityIdKey ident = Inr key" and "n \<noteq> m_name m \<or> k \<noteq> key"
    and "create m ident data options s = (r, s') \<or> update m ident data options s = (r, s')
      \<or> delete m ident options s = (r, s')"
  shows "rows s' n k = rows s n k"
proof (cases r)
  case (Inl e)
  with write_rejected [OF assms(1,2)] assms(5) show ?thesis by metis
next
  case (Inr u)
  with assms(5) consider "create m ident data options s = (Inr u, s')"
    | "update m ident data options s = (Inr u, s')" | "delete m ident options s = (Inr u, s')" by blast
  then show ?thesis
  proof cases
    case 1
    from create_writes [OF assms(1,2) 1] assms(3,4) show ?thesis by auto
  next
    case 2
    from update_writes [OF assms(1,2) 2] assms(3,4) show ?thesis by auto
  next
    case 3
    from delete_writes [OF assms(1) 3] assms(3,4) show ?thesis by auto
  qed
qed

end

section \<open>The memory store\<close>

definition store_good :: "memory_store \<Rightarrow> bool" where
  "store_good st = good_rows (collections st)"

lemma read_options_none: "rejectUnsupportedStoreReadOptions Undef = Inr \<lparr>ro_select = None, ro_native = None, ro_meta = None\<rparr>"
  by (simp add: rejectUnsupportedStoreReadOptions_def normalizeStoreReadOptions_def assertPlainOptions_def)

lemma stored_row_read: "good_rows (collections st) \<Longrightarrow>
    cloneRow (row_at st n k) = Inr (case row_at st n k of None \<Rightarrow> Null | Some v \<Rightarrow> v)"
  using good_rows_row [of "collections st" n k] good_clone good_not_null
  by (auto simp: cloneRow_def split: option.splits)

lemma store_get_row:
  assumes "store_good st" and "assertSafeEntityId ident = Inr ()" and "entityIdKey ident = Inr key"
    and "safe_name (m_name m)"
  shows "fst (store_get m ident Undef st) = Inr (case row_at st (m_name m) key of None \<Rightarrow> Null | Some v \<Rightarrow> v)"
proof -
  have "existingCollection (m_name m) (count_get st) = Inr (mget (collections (count_get st)) (m_name m))"
    using assms(4) by (simp add: existing_iff)
  then show ?thesis
    using assms stored_row_read [of "count_get st"]
    by (simp add: store_get_def read_options_none store_good_def Let_def get_row)
qed

lemma create_safe_id: "store_create m ident data options st = (Inr u, st') \<Longrightarrow> assertSafeEntityId ident = Inr ()"
  by (auto simp: store_create_def rbind_Inr_iff split: sum.splits)

lemma update_safe_id: "store_update m ident data options st = (Inr u, st') \<Longrightarrow> assertSafeEntityId ident = Inr ()"
  by (auto simp: store_update_def rbind_Inr_iff split: sum.splits)

lemma delete_safe_id: "store_delete m ident options st = (Inr u, st') \<Longrightarrow> assertSafeEntityId ident = Inr ()"
  by (auto simp: store_delete_def rbind_Inr_iff split: sum.splits)

lemma store_create_writes:
  assumes "store_good st" and "symbol_free data" and "store_create m ident data options st = (Inr u, st')"
  shows "\<exists>clean key. clonePortableDataObject data = Inr clean \<and> assertSafeEntityId ident = Inr ()
        \<and> entityIdKey ident = Inr key \<and> safe_name (m_name m) \<and> row_at st (m_name m) key = None \<and> store_good st'
        \<and> (\<forall>n k. row_at st' n k = (if n = m_name m \<and> k = key then Some clean else row_at st n k))"
proof -
  obtain clean key where w: "clonePortableDataObject data = Inr clean" "entityIdKey ident = Inr key"
      "row_at st (m_name m) key = None" "wrote (m_name m) key clean (count_create st) st'"
    by (rule store_create_done [OF assms(3)])
  from w(4) have "safe_name (m_name m)" by (simp add: wrote_def)
  with w wrote_rows [OF w(4)] wrote_good [OF w(4)] good_stored [OF w(1) assms(2)] assms(1) create_safe_id [OF assms(3)]
  show ?thesis by (simp add: store_good_def)
qed

lemma store_update_writes:
  assumes "store_good st" and "symbol_free data" and "store_update m ident data options st = (Inr u, st')"
  shows "\<exists>clean key. clonePortableDataObject data = Inr clean \<and> assertSafeEntityId ident = Inr ()
        \<and> entityIdKey ident = Inr key \<and> safe_name (m_name m) \<and> row_at st (m_name m) key \<noteq> None \<and> store_good st'
        \<and> (\<forall>n k. row_at st' n k = (if n = m_name m \<and> k = key then Some clean else row_at st n k))"
proof -
  obtain opts clean key where w: "clonePortableDataObject data = Inr clean" "entityIdKey ident = Inr key"
      "row_at st (m_name m) key \<noteq> None" "wrote (m_name m) key clean (count_update st) st'"
    by (rule store_update_done [OF assms(3)])
  from w(4) have "safe_name (m_name m)" by (simp add: wrote_def)
  with w wrote_rows [OF w(4)] wrote_good [OF w(4)] good_stored [OF w(1) assms(2)] assms(1) update_safe_id [OF assms(3)]
  show ?thesis by (simp add: store_good_def)
qed

lemma store_delete_writes:
  assumes "store_good st" and "store_delete m ident options st = (Inr u, st')"
  shows "\<exists>key. assertSafeEntityId ident = Inr () \<and> entityIdKey ident = Inr key \<and> safe_name (m_name m) \<and> store_good st'
        \<and> (\<forall>n k. row_at st' n k = (if n = m_name m \<and> k = key then None else row_at st n k))"
proof (rule store_delete_done [OF assms(2)])
  fix key
  assume "entityIdKey ident = Inr key" "safe_name (m_name m)" "row_at st (m_name m) key = None" "st' = count_delete st"
  with assms(1) delete_safe_id [OF assms(2)] show ?thesis by (simp add: store_good_def)
next
  fix key
  assume k: "entityIdKey ident = Inr key" and r: "removed (m_name m) key (count_delete st) st'"
  from r have "safe_name (m_name m)" by (simp add: removed_def)
  with k removed_rows [OF r] removed_good [OF r] assms(1) delete_safe_id [OF assms(2)]
  show ?thesis by (simp add: store_good_def)
qed

lemma store_write_rejected:
  assumes "store_create m ident data options st = (Inl e, st') \<or> store_update m ident data options st = (Inl e, st')
        \<or> store_delete m ident options st = (Inl e, st')"
  shows "collections st' = collections st"
  using assms store_create_failed store_update_failed store_delete_failed counts_frame by metis

interpretation direct: store_adapter store_good row_at store_get store_create store_update store_delete
proof (unfold_locales, goal_cases)
  case (1 s ident key m)
  then show ?case by (rule store_get_row)
next
  case (2 s m ident options r s')
  then show ?case using store_get_frame by (simp add: store_good_def)
next
  case (3 s data m ident options u s')
  then show ?case by (rule store_create_writes)
next
  case (4 s data m ident options u s')
  then show ?case by (rule store_update_writes)
next
  case (5 s m ident options u s')
  then show ?case by (rule store_delete_writes)
next
  case (6 s data m ident options e s')
  then show ?case using store_write_rejected by (metis store_good_def)
qed

section \<open>The adapter of a transaction\<close>

definition tx_writable :: "transaction \<Rightarrow> bool" where
  "tx_writable t = (tx_ok t \<and> \<not> tx_readOnly t)"

definition tx_rows :: "transaction \<Rightarrow> string \<Rightarrow> string \<Rightarrow> jsval option" where
  "tx_rows t = row_at (tx_store t)"

lemma tx_store_good: "tx_ok t \<Longrightarrow> store_good (tx_store t)"
  by (simp add: store_good_def tx_good)

lemma tx_get_row:
  assumes "tx_ok t" and "assertSafeEntityId ident = Inr ()" and "entityIdKey ident = Inr key"
    and "safe_name (m_name m)"
  shows "fst (tx_get m ident Undef t) = Inr (case tx_rows t (m_name m) key of None \<Rightarrow> Null | Some v \<Rightarrow> v)"
proof -
  obtain r st where g: "store_get m ident Undef (tx_store t) = (r, st)" by force
  with store_get_row [OF tx_store_good [OF assms(1)] assms(2-4)]
  have "r = Inr (case row_at (tx_store t) (m_name m) key of None \<Rightarrow> Null | Some v \<Rightarrow> v)" by simp
  with g assms(2,3) show ?thesis by (simp add: tx_get_def tx_rows_def Let_def)
qed

lemma tx_get_keeps:
  assumes "tx_get m ident options t = (r, t')"
  shows "tx_rows t' = tx_rows t" "tx_readOnly t' = tx_readOnly t"
  using assms by (auto simp: tx_get_def tx_rows_def Let_def fun_eq_iff dest: store_get_frame split: sum.splits prod.splits)

lemma tx_create_store:
  assumes "tx_create m ident data options t = (r, t')"
  shows "tx_readOnly t' = tx_readOnly t"
    and "r = Inr u \<Longrightarrow> \<exists>clean. clonePortableDataObject data = Inr clean
      \<and> store_create m ident clean Undef (tx_store t) = (Inr (), tx_store t')"
    and "r = Inl e \<Longrightarrow> tx_store t' = tx_store t \<or> (\<exists>clean q. clonePortableDataObject data = Inr clean
      \<and> store_create m ident clean Undef (tx_store t) = (q, tx_store t')
      \<and> ((\<exists>e. q = Inl e) \<or> (\<exists>e. entityIdKey ident = Inl e)))"
  using assms
  by (auto simp: tx_create_def Let_def rbind_Inr_iff rbind_Inl_iff split: sum.splits prod.splits)

lemma tx_update_store:
  assumes "tx_update m ident data options t = (r, t')"
  shows "tx_readOnly t' = tx_readOnly t"
    and "r = Inr u \<Longrightarrow> \<exists>clean opts. clonePortableDataObject data = Inr clean
      \<and> store_update m ident clean opts (tx_store t) = (Inr (), tx_store t')"
    and "r = Inl e \<Longrightarrow> tx_store t' = tx_store t \<or> (\<exists>clean opts q. clonePortableDataObject data = Inr clean
      \<and> store_update m ident clean opts (tx_store t) = (q, tx_store t')
      \<and> ((\<exists>e. q = Inl e) \<or> (\<exists>e. entityIdKey ident = Inl e)))"
  using assms
  by (auto simp: tx_update_def Let_def rbind_Inr_iff rbind_Inl_iff split: sum.splits prod.splits) blast

lemma tx_delete_store:
  assumes "tx_delete m ident options t = (r, t')"
  shows "tx_readOnly t' = tx_readOnly t"
    and "r = Inr u \<Longrightarrow> \<exists>opts. store_delete m ident opts (tx_store t) = (Inr (), tx_store t')"
    and "r = Inl e \<Longrightarrow> tx_store t' = tx_store t
      \<or> (\<exists>opts e. store_delete m ident opts (tx_store t) = (Inl e, tx_store t'))"
  using assms
  by (auto simp: tx_delete_def Let_def rbind_Inr_iff rbind_Inl_iff split: sum.splits prod.splits)

lemma tx_create_writes:
  assumes "tx_writable t" and "symbol_free data" and "tx_create m ident data options t = (Inr u, t')"
  shows "\<exists>clean key. clonePortableDataObject data = Inr clean \<and> assertSafeEntityId ident = Inr ()
        \<and> entityIdKey ident = Inr key \<and> safe_name (m_name m) \<and> tx_rows t (m_name m) key = None \<and> tx_writable t'
        \<and> (\<forall>n k. tx_rows t' n k = (if n = m_name m \<and> k = key then Some clean else tx_rows t n k))"
proof -
  have ok: "tx_ok t" "\<not> tx_readOnly t" using assms(1) by (simp_all add: tx_writable_def)
  obtain clean where c: "clonePortableDataObject data = Inr clean"
    "store_create m ident clean Undef (tx_store t) = (Inr (), tx_store t')"
    using tx_create_store(2) [OF assms(3) refl] by blast
  have g: "good_row clean" by (rule good_stored [OF c(1) assms(2)])
  from store_create_writes [OF tx_store_good [OF ok(1)] good_symbol_free [OF g] c(2)] good_portable [OF g]
    tx_create_ok [OF assms(3) ok(1) assms(2) ok(2)] tx_create_store(1) [OF assms(3)] ok c(1)
  show ?thesis by (fastforce simp: tx_writable_def tx_rows_def)
qed

lemma tx_update_writes:
  assumes "tx_writable t" and "symbol_free data" and "tx_update m ident data options t = (Inr u, t')"
  shows "\<exists>clean key. clonePortableDataObject data = Inr clean \<and> assertSafeEntityId ident = Inr ()
        \<and> entityIdKey ident = Inr key \<and> safe_name (m_name m) \<and> tx_rows t (m_name m) key \<noteq> None \<and> tx_writable t'
        \<and> (\<forall>n k. tx_rows t' n k = (if n = m_name m \<and> k = key then Some clean else tx_rows t n k))"
proof -
  have ok: "tx_ok t" "\<not> tx_readOnly t" using assms(1) by (simp_all add: tx_writable_def)
  obtain clean opts where c: "clonePortableDataObject data = Inr clean"
    "store_update m ident clean opts (tx_store t) = (Inr (), tx_store t')"
    using tx_update_store(2) [OF assms(3) refl] by blast
  have g: "good_row clean" by (rule good_stored [OF c(1) assms(2)])
  from store_update_writes [OF tx_store_good [OF ok(1)] good_symbol_free [OF g] c(2)] good_portable [OF g]
    tx_update_ok [OF assms(3) ok(1) assms(2) ok(2)] tx_update_store(1) [OF assms(3)] ok c(1)
  show ?thesis by (fastforce simp: tx_writable_def tx_rows_def)
qed

lemma tx_delete_writes:
  assumes "tx_writable t" and "tx_delete m ident options t = (Inr u, t')"
  shows "\<exists>key. assertSafeEntityId ident = Inr () \<and> entityIdKey ident = Inr key \<and> safe_name (m_name m) \<and> tx_writable t'
        \<and> (\<forall>n k. tx_rows t' n k = (if n = m_name m \<and> k = key then None else tx_rows t n k))"
proof -
  have ok: "tx_ok t" "\<not> tx_readOnly t" using assms(1) by (simp_all add: tx_writable_def)
  obtain opts where "store_delete m ident opts (tx_store t) = (Inr (), tx_store t')"
    using tx_delete_store(2) [OF assms(2) refl] by blast
  from store_delete_writes [OF tx_store_good [OF ok(1)] this] tx_delete_ok [OF assms(2) ok]
    tx_delete_store(1) [OF assms(2)] ok
  show ?thesis by (auto simp: tx_writable_def tx_rows_def)
qed

lemma create_has_key: "store_create m ident data options st = (Inr u, st') \<Longrightarrow> entityIdKey ident \<noteq> Inl e"
  by (erule store_create_done) simp

lemma update_has_key: "store_update m ident data options st = (Inr u, st') \<Longrightarrow> entityIdKey ident \<noteq> Inl e"
  by (erule store_update_done) simp

lemma rejected_rows:
  assumes "tx_create m ident data options t = (Inl e, t') \<or> tx_update m ident data options t = (Inl e, t')
        \<or> tx_delete m ident options t = (Inl e, t')"
  shows "tx_rows t' = tx_rows t"
proof -
  have "collections (tx_store t') = collections (tx_store t)"
    using assms
  proof (elim disjE)
    assume "tx_create m ident data options t = (Inl e, t')"
    from tx_create_store(3) [OF this refl] show ?thesis
      using store_create_failed create_has_key counts_frame
      by (metis sum.exhaust)
  next
    assume "tx_update m ident data options t = (Inl e, t')"
    from tx_update_store(3) [OF this refl] show ?thesis
      using store_update_failed update_has_key counts_frame
      by (metis sum.exhaust)
  next
    assume "tx_delete m ident options t = (Inl e, t')"
    from tx_delete_store(3) [OF this refl] show ?thesis
      using store_delete_failed counts_frame by metis
  qed
  then show ?thesis by (simp add: tx_rows_def fun_eq_iff)
qed

interpretation transactional: store_adapter tx_writable tx_rows tx_get tx_create tx_update tx_delete
proof (unfold_locales, goal_cases)
  case (1 s ident key m)
  then show ?case using tx_get_row by (simp add: tx_writable_def)
next
  case (2 s m ident options r s')
  then show ?case using tx_get_keeps tx_get_ok by (auto simp: tx_writable_def)
next
  case (3 s data m ident options u s')
  then show ?case by (rule tx_create_writes)
next
  case (4 s data m ident options u s')
  then show ?case by (rule tx_update_writes)
next
  case (5 s m ident options u s')
  then show ?case by (rule tx_delete_writes)
next
  case (6 s data m ident options e s')
  have "tx_readOnly s' = tx_readOnly s" and "tx_ok s'"
    using 6 tx_create_store(1) tx_update_store(1) tx_delete_store(1) tx_create_ok tx_update_ok tx_delete_ok
    unfolding tx_writable_def by metis+
  then show ?case using 6 rejected_rows [OF 6(3)] by (simp add: tx_writable_def)
qed

end
