(* ===== verification/MemoryProperties.thy ===== *)
theory MemoryProperties
  imports StoreContract
begin

text \<open>
  What the memory store promises: the state invariant, the guarantees of a commit (validated reads, exact
  and atomic publication, success in isolation), savepoints, read-only transactions, bookkeeping that goes
  away with the transactions, and the refinement of a plain map by the operations.
\<close>

section \<open>Runs\<close>

definition run_events :: "event list \<Rightarrow> memory_system \<Rightarrow> memory_system" where
  "run_events es s = fold (\<lambda>e s. snd (perform e s)) es s"

lemma run_events_simps [simp]:
  "run_events [] s = s"
  "run_events (e # es) s = run_events es (snd (perform e s))"
  by (simp_all add: run_events_def)

lemma reachable_run: "reachable s \<Longrightarrow> list_all admissible es \<Longrightarrow> reachable (run_events es s)"
proof (induction es arbitrary: s)
  case (Cons e es)
  obtain r s' where "perform e s = (r, s')" by force
  with Cons reachable_step show ?case by auto
qed simp

text \<open>The systems on which the properties are witnessed: a row is created, a transaction reads it, updates
  it and creates another; in \<open>contended_system\<close> the row is written from outside before the commit.\<close>

definition users :: model_meta where
  "users = \<lparr>m_name = ''users'', m_idField = ''id''\<rparr>"

definition user :: "int \<Rightarrow> int \<Rightarrow> jsval" where
  "user i v = js_object [(''id'', js_int i), (''version'', js_int v)]"

definition expecting :: "int \<Rightarrow> jsval" where
  "expecting v = js_object [(''expectedVersion'', js_int v)]"

definition sample_system :: memory_system where
  "sample_system = run_events [OnStore (SCreate users (js_int 1) (user 1 0) Undef), Begin Undef,
     InTx 0 (TGet users (js_int 1) Undef),
     InTx 0 (TUpdate users (js_int 1) (user 1 1) (expecting 0)),
     InTx 0 (TCreate users (js_int 2) (user 2 0) Undef)] new_system"

definition contended_system :: memory_system where
  "contended_system = run_events [OnStore (SUpdate users (js_int 1) (user 1 5) Undef)] sample_system"

definition reader_system :: memory_system where
  "reader_system = run_events [OnStore (SCreate users (js_int 1) (user 1 0) Undef),
     Begin (js_object [(''readOnly'', Bool True)]),
     InTx 0 (TUpdate users (js_int 1) (user 1 1) Undef)] new_system"

definition sample_tx :: transaction where
  "sample_tx = the (map_of (running sample_system) 0)"

lemma samples_reachable: "reachable sample_system" "reachable contended_system" "reachable reader_system"
proof -
  show s: "reachable sample_system"
    unfolding sample_system_def by (rule reachable_run [OF reachable_new]) code_simp
  show "reachable contended_system"
    unfolding contended_system_def by (rule reachable_run [OF s]) code_simp
  show "reachable reader_system"
    unfolding reader_system_def by (rule reachable_run [OF reachable_new]) code_simp
qed

lemma sample_running: "map_of (running sample_system) 0 = Some sample_tx"
  "map_of (running contended_system) 0 = Some sample_tx"
proof -
  have "map_of (running sample_system) 0 \<noteq> None" by code_simp
  then show s: "map_of (running sample_system) 0 = Some sample_tx" by (auto simp: sample_tx_def)
  show "map_of (running contended_system) 0 = Some sample_tx"
    by (simp add: contended_system_def s split: prod.splits)
qed

section \<open>Commit\<close>

lemma commit_event:
  assumes "map_of (running s) i = Some t" and "perform (Commit i) s = (r, s')"
  shows "commit_transaction t (main_store s) = (r, main_store s')"
  using assms by (auto split: prod.splits)

lemma unchanged_since_begin:
  assumes "system_ok s" and "map_of (running s) i = Some t"
    and "\<not> newer_revision (tx_snapshot t) (revision_at (main_store s) n k)"
  shows "row_at (main_store s) n k = lookup2 (tx_base t) n k"
proof (rule ccontr)
  assume "row_at (main_store s) n k \<noteq> lookup2 (tx_base t) n k"
  moreover have "row_tracked (rowRevisionGeneration (main_store s)) (watchers (running s)) n k True
      (row_at (main_store s) n k) (revision_at (main_store s) n k) (tombstone_at (main_store s) n k)"
    using system_consistent [OF assms(1)] trackedD [of "{}" "main_store s" "watchers (running s)" n k]
    by (simp add: consistent_def)
  ultimately show False using system_watches [OF assms(2)] assms(3) by (fastforce simp: row_tracked_def)
qed

lemma accepted_commit_rows:
  assumes "reachable s" and "map_of (running s) i = Some t" and "perform (Commit i) s = (Inr (), s')"
  shows "row_at (main_store s') n k =
     (if lookup2 (tx_dirty t) n k = None then row_at (main_store s) n k else row_at (tx_store t) n k)"
proof -
  note ok = reachable_ok [OF assms(1)]
  have v: "entry_fits (lookup2 (tx_base t) n k) (row_at (tx_store t) n k) (lookup2 (tx_dirty t) n k)"
    by (rule overlayD [OF tx_overlay [OF system_tx [OF ok assms(2)]]])
  show ?thesis
  proof (rule commit_cases [OF ok assms(2) commit_event [OF assms(2,3)]])
    fix st
    assume "main_store s' = finish_transaction t st"
      "\<And>n k. row_at st n k = published (lookup2 (tx_dirty t) n k) (row_at (main_store s) n k)"
    with v show ?thesis
      by (auto simp: finish_transaction_def entry_fits_def published_def split: option.splits DirtyChange.splits)
  qed simp
qed

lemma refused_commit_changes:
  assumes "reachable s" and "map_of (running s) i = Some t" and "perform (Commit i) s = (Inl e, s')"
  shows "collections (main_store s') = collections (main_store s)
     \<and> e \<in> {ActiveTsConflictError, ActiveTsNotFoundError, ActiveTsConfigurationError}
     \<and> map_of (running s') i = None"
proof -
  have "running s' = AList.delete i (running s)" using assms(2,3) by (auto split: prod.splits)
  moreover have "collections (main_store s') = collections (main_store s)
     \<and> e \<in> {ActiveTsConflictError, ActiveTsNotFoundError, ActiveTsConfigurationError}"
    by (rule commit_cases [OF reachable_ok [OF assms(1)] assms(2) commit_event [OF assms(2,3)]])
      (auto simp: finish_transaction_def)
  ultimately show ?thesis by (simp add: map_of_delete)
qed

text \<open>C9. In every state that calls and interleaved transactions can reach, all stored rows are plain
  portable objects that clone to themselves, no revision is beyond the counter, which stays a safe
  integer, and a revision is kept for a missing row exactly while its tombstone is.\<close>

theorem reachable_store_invariant:
  assumes "reachable s"
  shows "(\<forall>n k v. row_at (main_store s) n k = Some v \<longrightarrow> good_row v \<and> cloneSafeDataObject v = Inr v)
    \<and> (\<forall>n k r. revision_at (main_store s) n k = Some r \<longrightarrow> r \<le> rowRevisionGeneration (main_store s))
    \<and> rowRevisionGeneration (main_store s) \<le> MAX_ROW_REVISION
    \<and> (\<forall>n k. tombstone_at (main_store s) n k =
          (if row_at (main_store s) n k = None then revision_at (main_store s) n k else None))"
proof -
  have c: "consistent {} (main_store s) (watchers (running s))"
    by (rule system_consistent [OF reachable_ok [OF assms]])
  have t: "row_tracked (rowRevisionGeneration (main_store s)) (watchers (running s)) n k True
      (row_at (main_store s) n k) (revision_at (main_store s) n k) (tombstone_at (main_store s) n k)" for n k
    using c trackedD [of "{}" "main_store s" "watchers (running s)" n k] by (simp add: consistent_def)
  have "rowRevisionGeneration (main_store s) \<le> MAX_ROW_REVISION" using c by (simp add: consistent_def well_formed_def)
  with t good_rows_row [OF consistent_good [OF c]] good_clone show ?thesis unfolding row_tracked_def by blast
qed

theorem reachable_store_invariant_witness:
  "row_at (main_store contended_system) ''users'' ''number:1'' \<noteq> None
   \<and> cloneSafeDataObject (the (row_at (main_store contended_system) ''users'' ''number:1''))
     = Inr (the (row_at (main_store contended_system) ''users'' ''number:1''))"
proof -
  have "row_at (main_store contended_system) ''users'' ''number:1'' \<noteq> None" by code_simp
  then show ?thesis using reachable_store_invariant [OF samples_reachable(2)] by auto
qed

text \<open>C10. A transaction that commits has read nothing stale: each row it read by id is, at the commit,
  still the row that was committed when the transaction began.\<close>

theorem commit_validates_reads:
  assumes "reachable s" and "map_of (running s) i = Some t" and "perform (Commit i) s = (Inr (), s')"
    and "lookup2 (tx_reads t) n k \<noteq> None"
  shows "row_at (main_store s) n k = lookup2 (tx_base t) n k"
proof -
  note ok = reachable_ok [OF assms(1)]
  show ?thesis
    by (rule commit_cases [OF ok assms(2) commit_event [OF assms(2,3)]])
      (use assms(4) unchanged_since_begin [OF ok assms(2)] in auto)
qed

theorem commit_validates_reads_witness:
  "row_at (main_store sample_system) ''users'' ''number:1'' = lookup2 (tx_base sample_tx) ''users'' ''number:1''
   \<and> fst (perform (Commit 0) contended_system) = Inl ActiveTsConflictError"
proof -
  have c: "perform (Commit 0) sample_system = (Inr (), snd (perform (Commit 0) sample_system))"
    by (rule prod_eqI) (simp_all, code_simp)
  have r: "lookup2 (tx_reads sample_tx) ''users'' ''number:1'' \<noteq> None" by code_simp
  have "fst (perform (Commit 0) contended_system) = Inl ActiveTsConflictError" by code_simp
  with commit_validates_reads [OF samples_reachable(1) sample_running(1) c r] show ?thesis by simp
qed

text \<open>C11. A commit that is accepted publishes the transaction's view of every row it changed and leaves
  every other row as it was.\<close>

theorem commit_publishes:
  assumes "reachable s" and "map_of (running s) i = Some t" and "perform (Commit i) s = (Inr (), s')"
  shows "row_at (main_store s') n k =
     (if lookup2 (tx_dirty t) n k = None then row_at (main_store s) n k else row_at (tx_store t) n k)"
  by (rule accepted_commit_rows [OF assms])

theorem commit_publishes_witness:
  "row_at (main_store (snd (perform (Commit 0) sample_system))) ''users'' ''number:1'' = Some (user 1 1)"
proof -
  have c: "perform (Commit 0) sample_system = (Inr (), snd (perform (Commit 0) sample_system))"
    by (rule prod_eqI) (simp_all, code_simp)
  have d: "lookup2 (tx_dirty sample_tx) ''users'' ''number:1'' \<noteq> None" by code_simp
  have v: "row_at (tx_store sample_tx) ''users'' ''number:1'' = Some (user 1 1)" by code_simp
  show ?thesis
    unfolding commit_publishes [OF samples_reachable(1) sample_running(1) c] v if_not_P [OF d] by (rule refl)
qed

text \<open>C12. A commit that is refused changes no row: the error is a conflict, a missing row or an exhausted
  revision counter, the rows are exactly those before, and the transaction is over.\<close>

theorem refused_commit_changes_nothing:
  assumes "reachable s" and "map_of (running s) i = Some t" and "perform (Commit i) s = (Inl e, s')"
  shows "collections (main_store s') = collections (main_store s)
     \<and> e \<in> {ActiveTsConflictError, ActiveTsNotFoundError, ActiveTsConfigurationError}
     \<and> map_of (running s') i = None"
  by (rule refused_commit_changes [OF assms])

theorem refused_commit_changes_nothing_witness:
  "collections (main_store (snd (perform (Commit 0) contended_system))) = collections (main_store contended_system)
   \<and> fst (perform (Commit 0) contended_system) = Inl ActiveTsConflictError"
proof -
  have e: "fst (perform (Commit 0) contended_system) = Inl ActiveTsConflictError" by code_simp
  then have "perform (Commit 0) contended_system =
      (Inl ActiveTsConflictError, snd (perform (Commit 0) contended_system))"
    by (metis prod.collapse)
  from refused_commit_changes_nothing [OF samples_reachable(2) sample_running(2) this] e show ?thesis by blast
qed

lemma isolated_rows:
  assumes "system_ok s" and "map_of (running s) i = Some t"
    and "rowRevisionGeneration (main_store s) = tx_snapshot t"
  shows "\<not> newer_revision (tx_snapshot t) (revision_at (main_store s) n k)"
    and "row_at (main_store s) n k = lookup2 (tx_base t) n k"
proof -
  have "row_tracked (rowRevisionGeneration (main_store s)) (watchers (running s)) n k True
      (row_at (main_store s) n k) (revision_at (main_store s) n k) (tombstone_at (main_store s) n k)"
    using system_consistent [OF assms(1)] trackedD [of "{}" "main_store s" "watchers (running s)" n k]
    by (simp add: consistent_def)
  then show o: "\<not> newer_revision (tx_snapshot t) (revision_at (main_store s) n k)"
    using assms(3) by (fastforce simp: row_tracked_def newer_revision_def split: option.splits)
  show "row_at (main_store s) n k = lookup2 (tx_base t) n k" by (rule unchanged_since_begin [OF assms(1,2) o])
qed

lemma reserve_room:
  assumes "rowRevisionGeneration st + a \<le> MAX_ROW_REVISION"
  shows "\<exists>p. (if a = 0 then Inr (0, st) else reserveRowRevisions a st) = Inr p"
  using assms by (auto simp: reserveRowRevisions_def)

text \<open>C13. A transaction whose changes no other commit or write preceded succeeds: as long as the revision
  counter has room, its commit is accepted and the committed rows are then exactly the transaction's view.\<close>

theorem isolated_commit_succeeds:
  assumes "reachable s" and "map_of (running s) i = Some t"
    and "rowRevisionGeneration (main_store s) = tx_snapshot t"
    and "tx_snapshot t + length (entries2 (tx_dirty t)) \<le> MAX_ROW_REVISION"
  shows "fst (perform (Commit i) s) = Inr ()
     \<and> (\<forall>n k. row_at (main_store (snd (perform (Commit i) s))) n k = row_at (tx_store t) n k)"
proof -
  note ok = reachable_ok [OF assms(1)]
  note tx = system_tx [OF ok assms(2)]
  note fits = overlayD [OF tx_overlay [OF tx]]
  note rows = isolated_rows [OF ok assms(2,3)]
  have "check_change (collections (main_store s)) (n, k, c) = Inr ()" if "lookup2 (tx_dirty t) n k = Some c" for n k c
    using fits [of n k] that unfolding rows(2) [symmetric]
    by (cases c) (auto simp: check_change_Inr entry_fits_def)
  then have c: "reach (check_change (collections (main_store s))) (entries2 (tx_dirty t)) = Inr ()"
    by (auto simp: reach_Inr_iff entries2_iff [OF overlay_wf [OF tx_overlay [OF tx]]])
  have r: "reach (check_read (rowRevisions (main_store s)) (tx_snapshot t)) (entries2 (tx_reads t)) = Inr ()"
    using rows(1) by (auto simp: reach_Inr_iff check_read_Inr)
  let ?count = "length (filter (mutates (collections (main_store s))) (entries2 (tx_dirty t)))"
  have "?count \<le> length (entries2 (tx_dirty t))" by (rule length_filter_le)
  then have "rowRevisionGeneration (main_store s) + ?count \<le> MAX_ROW_REVISION" using assms(3,4) by linarith
  from reserve_room [OF this] obtain first st where res:
    "(if ?count = 0 then Inr (0, main_store s) else reserveRowRevisions ?count (main_store s)) = Inr (first, st)"
    by (elim exE) (metis prod.collapse)
  obtain q st' where q: "perform (Commit i) s = (q, st')" by force
  have "q = Inr ()"
  proof (rule commit_cases [OF ok assms(2) commit_event [OF assms(2) q]])
    fix e
    assume "q = Inl e"
    then obtain st2 where "applyDirty (tx_dirty t) (tx_reads t) (tx_snapshot t) (main_store s) = (Inl e, st2)"
      using commit_event [OF assms(2) q] by (auto simp: commit_transaction_def split: prod.splits)
    then have "apply_changes (entries2 (tx_dirty t)) first st = (Inl e, st2)"
      by (simp add: applyDirty_def c r Let_def res del: length_0_conv)
    moreover have "\<exists>st2. apply_changes (entries2 (tx_dirty t)) first st = (Inr (), st2)"
    proof -
      have c1: "consistent {} st (watchers (running s))" and e: "collections st = collections (main_store s)"
        and f: "j < ?count \<Longrightarrow> fresh_revision (first + j) st (watchers (running s))" for j
        using system_consistent [OF ok] res consistent_reserve reserve_collections by (auto split: if_splits)
      from apply_changes_store [OF c1 entries2_keys_distinct [OF overlay_wf [OF tx_overlay [OF tx]]]
          overlay_storable [OF tx_overlay [OF tx] tx_good [OF tx]]] f e
      show ?thesis by fastforce
    qed
    ultimately show ?thesis by simp
  qed
  with q have p: "perform (Commit i) s = (Inr (), st')" by simp
  have "row_at (main_store st') n k = row_at (tx_store t) n k" for n k
    using accepted_commit_rows [OF assms(1,2) p, of n k] fits [of n k] rows(2) [of n k]
    by (auto simp: entry_fits_def split: if_splits)
  with p show ?thesis by simp
qed

theorem isolated_commit_succeeds_witness:
  "fst (perform (Commit 0) sample_system) = Inr ()
   \<and> row_at (main_store (snd (perform (Commit 0) sample_system))) ''users'' ''number:2'' = Some (user 2 0)"
proof -
  have "rowRevisionGeneration (main_store sample_system) = tx_snapshot sample_tx" by code_simp
  moreover have "tx_snapshot sample_tx + length (entries2 (tx_dirty sample_tx)) = 3" by code_simp
  ultimately have p: "fst (perform (Commit 0) sample_system) = Inr ()
     \<and> (\<forall>n k. row_at (main_store (snd (perform (Commit 0) sample_system))) n k = row_at (tx_store sample_tx) n k)"
    by (intro isolated_commit_succeeds [OF samples_reachable(1) sample_running(1)]) (simp_all add: MAX_ROW_REVISION_def)
  have "row_at (tx_store sample_tx) ''users'' ''number:2'' = Some (user 2 0)" by code_simp
  with p show ?thesis by metis
qed

text \<open>C14. What a transaction commits for a row under an expected version is checked against the row that is
  committed then, not the one it saw: no accepted commit overwrites or deletes a row of another version.\<close>

theorem commit_respects_versions:
  assumes "reachable s" and "map_of (running s) i = Some t" and "perform (Commit i) s = (Inr (), s')"
    and "lookup2 (tx_dirty t) n k = Some c" and "c = DirtyUpdate v (Some e) \<or> c = DirtyDelete (Some e)"
  shows "memoryVersionMatches (row_at (main_store s) n k) e"
proof (rule commit_cases [OF reachable_ok [OF assms(1)] assms(2) commit_event [OF assms(2,3)]])
  assume "\<And>n k c. lookup2 (tx_dirty t) n k = Some c \<Longrightarrow> check_change (collections (main_store s)) (n, k, c) = Inr ()"
  from this [OF assms(4)] assms(5) show ?thesis by (auto simp: check_change_Inr version_fits_def)
qed simp

theorem commit_respects_versions_witness:
  "memoryVersionMatches (row_at (main_store sample_system) ''users'' ''number:1'') (num_of_int 0)
   \<and> \<not> memoryVersionMatches (row_at (main_store contended_system) ''users'' ''number:1'') (num_of_int 0)"
proof -
  have c: "perform (Commit 0) sample_system = (Inr (), snd (perform (Commit 0) sample_system))"
    by (rule prod_eqI) (simp_all, code_simp)
  have d: "lookup2 (tx_dirty sample_tx) ''users'' ''number:1'' = Some (DirtyUpdate (user 1 1) (Some (num_of_int 0)))"
    by code_simp
  have "\<not> memoryVersionMatches (row_at (main_store contended_system) ''users'' ''number:1'') (num_of_int 0)"
    by code_simp
  with commit_respects_versions [OF samples_reachable(1) sample_running(1) c d disjI1 [OF refl]] show ?thesis by blast
qed

section \<open>Inside a transaction\<close>

definition run_tx :: "tx_event list \<Rightarrow> transaction \<Rightarrow> transaction" where
  "run_tx es t = fold (\<lambda>e t. snd (perform_tx e t)) es t"

lemma run_tx_simps [simp]:
  "run_tx [] t = t"
  "run_tx (e # es) t = run_tx es (snd (perform_tx e t))"
  "run_tx (es @ fs) t = run_tx fs (run_tx es t)"
  by (simp_all add: run_tx_def)

text \<open>Calls in which every savepoint that is taken is also left, starting with \<open>d\<close> savepoints open.\<close>

fun balanced :: "nat \<Rightarrow> tx_event list \<Rightarrow> bool" where
  "balanced d [] = (d = 0)"
| "balanced d (e # es) = (case e of
     TSavepoint \<Rightarrow> balanced (Suc d) es
   | TSavepointDone \<Rightarrow> 0 < d \<and> balanced (d - 1) es
   | TSavepointFailed \<Rightarrow> 0 < d \<and> balanced (d - 1) es
   | _ \<Rightarrow> balanced d es)"

lemma perform_tx_saves:
  assumes "tx_ok t"
  shows "tx_saves (snd (perform_tx e t)) = (case e of
     TSavepoint \<Rightarrow> (collections (tx_store t), tx_dirty t, tx_reads t) # tx_saves t
   | TSavepointDone \<Rightarrow> tl (tx_saves t)
   | TSavepointFailed \<Rightarrow> tl (tx_saves t)
   | _ \<Rightarrow> tx_saves t)"
  using savepoint_begin_done [OF assms]
  by (auto simp: outcome_def tx_get_def tx_getMany_def tx_create_def tx_update_def tx_delete_def Let_def
      savepoint_release_def savepoint_restore_def split: tx_event.splits sum.splits prod.splits list.splits)

lemma run_tx_ok:
  assumes "tx_ok t" and "list_all (\<lambda>e. symbol_free (tx_event_data e)) es"
  shows "tx_ok (run_tx es t)"
  using assms
proof (induction es arbitrary: t)
  case (Cons e es)
  obtain r t' where "perform_tx e t = (r, t')" by force
  with Cons perform_tx_ok show ?case by auto
qed simp

lemma run_tx_saves:
  assumes "tx_ok t" and "list_all (\<lambda>e. symbol_free (tx_event_data e)) es" and "balanced d es"
    and "tx_saves t = opened @ saves" and "length opened = d"
  shows "tx_saves (run_tx es t) = saves"
  using assms
proof (induction es arbitrary: t d opened)
  case (Cons e es)
  let ?t = "snd (perform_tx e t)"
  obtain r t' where p: "perform_tx e t = (r, t')" by force
  have ok: "tx_ok ?t" using perform_tx_ok [OF p] Cons.prems(1,2) p by simp
  have es: "list_all (\<lambda>e. symbol_free (tx_event_data e)) es" using Cons.prems(2) by simp
  have "\<exists>d' opened'. balanced d' es \<and> tx_saves ?t = opened' @ saves \<and> length opened' = d'"
  proof (cases "e = TSavepoint")
    case True
    with Cons.prems perform_tx_saves [OF Cons.prems(1), of e] show ?thesis
      by (intro exI [of _ "Suc d"] exI [of _ "(collections (tx_store t), tx_dirty t, tx_reads t) # opened"]) simp
  next
    case False
    show ?thesis
    proof (cases "e = TSavepointDone \<or> e = TSavepointFailed")
      case True
      with Cons.prems(3-5) obtain c cs where "opened = c # cs" by (cases opened) auto
      with True Cons.prems perform_tx_saves [OF Cons.prems(1), of e] show ?thesis
        by (intro exI [of _ "d - 1"] exI [of _ cs]) auto
    next
      case no: False
      with False have "balanced d es" "tx_saves ?t = tx_saves t"
        using Cons.prems(3) perform_tx_saves [OF Cons.prems(1), of e] by (cases e; simp)+
      with Cons.prems(4,5) show ?thesis by metis
    qed
  qed
  then obtain d' opened' where "balanced d' es" "tx_saves ?t = opened' @ saves" "length opened' = d'" by blast
  from Cons.IH [OF ok es this] show ?case by simp
qed simp

text \<open>C15. A savepoint that fails undoes everything since it began, nested savepoints included: the rows the
  transaction sees, the changes it will publish and the reads it will validate are those of its begin.\<close>

theorem failed_savepoint_restores:
  assumes "reachable s" and "map_of (running s) i = Some t"
    and "list_all (\<lambda>e. symbol_free (tx_event_data e)) es" and "balanced 0 es"
  shows "collections (tx_store (run_tx (TSavepoint # es @ [TSavepointFailed]) t)) = collections (tx_store t)
     \<and> tx_dirty (run_tx (TSavepoint # es @ [TSavepointFailed]) t) = tx_dirty t
     \<and> tx_reads (run_tx (TSavepoint # es @ [TSavepointFailed]) t) = tx_reads t
     \<and> tx_saves (run_tx (TSavepoint # es @ [TSavepointFailed]) t) = tx_saves t"
proof -
  have ok: "tx_ok t" by (rule system_tx [OF reachable_ok [OF assms(1)] assms(2)])
  let ?t = "snd (perform_tx TSavepoint t)"
  have b: "?t = t\<lparr>tx_saves := (collections (tx_store t), tx_dirty t, tx_reads t) # tx_saves t\<rparr>"
    using savepoint_begin_done [OF ok] by simp
  have "tx_ok ?t" using savepoint_begin_done [OF ok] savepoint_begin_ok [OF _ ok] by simp
  from run_tx_saves [OF this assms(3,4), of "[]"]
  have "tx_saves (run_tx es ?t) = tx_saves ?t" by simp
  then show ?thesis unfolding b by (simp add: savepoint_restore_def replaceCollections_def savepoint_begin_done [OF ok])
qed

theorem failed_savepoint_restores_witness:
  "tx_dirty (run_tx (TSavepoint # [TDelete users (js_int 1) Undef, TSavepoint, TSavepointDone] @ [TSavepointFailed])
     sample_tx) = tx_dirty sample_tx"
proof -
  have "list_all (\<lambda>e. symbol_free (tx_event_data e)) [TDelete users (js_int 1) Undef, TSavepoint, TSavepointDone]"
    by simp
  from failed_savepoint_restores [OF samples_reachable(1) sample_running(1) this] show ?thesis by simp
qed

text \<open>C16. A transaction reads its own writes: after a create or an update that was accepted a read by id
  returns the stored clone of the data, after a delete null.\<close>

theorem transaction_reads_own_writes:
  assumes "reachable s" and "map_of (running s) i = Some t" and "\<not> tx_readOnly t" and "symbol_free data"
  shows "(tx_create m ident data options t = (Inr (), t1) \<longrightarrow> fst (tx_get m ident Undef t1) = clonePortableDataObject data)
    \<and> (tx_update m ident data options t = (Inr (), t2) \<longrightarrow> fst (tx_get m ident Undef t2) = clonePortableDataObject data)
    \<and> (tx_delete m ident options t = (Inr (), t3) \<longrightarrow> fst (tx_get m ident Undef t3) = Inr Null)"
proof -
  have "tx_writable t" using system_tx [OF reachable_ok [OF assms(1)] assms(2)] assms(3) by (simp add: tx_writable_def)
  then show ?thesis
    using transactional.read_after_create transactional.read_after_update transactional.read_after_delete assms(4)
    by blast
qed

theorem transaction_reads_own_writes_witness:
  "fst (tx_get users (js_int 1) Undef (snd (tx_delete users (js_int 1) Undef sample_tx))) = Inr Null"
proof -
  have w: "\<not> tx_readOnly sample_tx" by code_simp
  have f: "symbol_free Null" by simp
  have "fst (tx_delete users (js_int 1) Undef sample_tx) = Inr ()" by code_simp
  then have d: "tx_delete users (js_int 1) Undef sample_tx = (Inr (), snd (tx_delete users (js_int 1) Undef sample_tx))"
    by (metis prod.collapse)
  from transaction_reads_own_writes [OF samples_reachable(1) sample_running(1) w f] d show ?thesis by blast
qed

text \<open>C17. A read-only transaction rejects every write and its end, by commit or abort, leaves all rows as
  they were.\<close>

theorem read_only_changes_nothing:
  assumes "reachable s" and "map_of (running s) i = Some t" and "tx_readOnly t"
    and "e \<in> {Commit i, Abort i, InTx i (TCreate m ident data options), InTx i (TUpdate m ident data options),
               InTx i (TDelete m ident options)}"
  shows "row_at (main_store (snd (perform e s))) n k = row_at (main_store s) n k
    \<and> (e \<notin> {Commit i, Abort i} \<longrightarrow> fst (perform e s) = Inl ActiveTsConfigurationError)"
proof -
  note ok = reachable_ok [OF assms(1)]
  have d: "tx_dirty t = []" using tx_books [OF system_tx [OF ok assms(2)]] assms(3) by (auto simp: books_ok_def)
  have "row_at (main_store (snd (perform (Commit i) s))) n k = row_at (main_store s) n k"
  proof (cases "fst (perform (Commit i) s)")
    case (Inl e)
    then have "perform (Commit i) s = (Inl e, snd (perform (Commit i) s))" by (metis prod.collapse)
    from refused_commit_changes [OF assms(1,2) this] show ?thesis by simp
  next
    case (Inr u)
    then have "perform (Commit i) s = (Inr (), snd (perform (Commit i) s))" by (metis prod.collapse old.unit.exhaust)
    from accepted_commit_rows [OF assms(1,2) this, of n k] d show ?thesis by (simp add: lookup2_def mget_def)
  qed
  moreover have "row_at (main_store (snd (perform (Abort i) s))) n k = row_at (main_store s) n k"
    by (simp add: assms(2) finish_transaction_def)
  ultimately show ?thesis using assms(2-4) by (auto simp del: perform.simps simp add: perform.simps(3))
qed

theorem read_only_changes_nothing_witness:
  "fst (perform (InTx 0 (TDelete users (js_int 1) Undef)) reader_system) = Inl ActiveTsConfigurationError"
proof -
  let ?t = "the (map_of (running reader_system) 0)"
  have "map_of (running reader_system) 0 \<noteq> None" by code_simp
  then have t: "map_of (running reader_system) 0 = Some ?t" by auto
  have r: "tx_readOnly ?t" by code_simp
  from read_only_changes_nothing [OF samples_reachable(3) t r,
    of "InTx 0 (TDelete users (js_int 1) Undef)" users "js_int 1" Undef Undef] show ?thesis by simp
qed

section \<open>Bookkeeping\<close>

text \<open>C18. Nothing of a transaction outlives it: once no transaction runs the store holds no snapshot and no
  tombstone, and it keeps revisions only for rows that exist.\<close>

theorem no_bookkeeping_left:
  assumes "reachable s" and "running s = []"
  shows "activeTransactionSnapshots (main_store s) = []
     \<and> tombstone_at (main_store s) n k = None
     \<and> (row_at (main_store s) n k = None \<longrightarrow> revision_at (main_store s) n k = None)"
proof -
  have c: "consistent {} (main_store s) []"
    using system_consistent [OF reachable_ok [OF assms(1)]] assms(2) by (simp add: watchers_def)
  have "row_tracked (rowRevisionGeneration (main_store s)) [] n k True
      (row_at (main_store s) n k) (revision_at (main_store s) n k) (tombstone_at (main_store s) n k)"
    using c trackedD [of "{}" "main_store s" "[]" n k] by (simp add: consistent_def)
  moreover have "fst ` set (activeTransactionSnapshots (main_store s)) = fst ` set ([] :: watcher list)"
    using c by (intro snapshot_keys) (simp add: consistent_def well_formed_def)
  ultimately show ?thesis by (auto simp: row_tracked_def split: if_splits)
qed

definition ended_system :: memory_system where
  "ended_system = run_events [OnStore (SDelete users (js_int 1) Undef), Abort 0] sample_system"

theorem no_bookkeeping_left_witness:
  "tombstone_at (main_store ended_system) ''users'' ''number:1'' = None
   \<and> revision_at (main_store ended_system) ''users'' ''number:1'' = None"
proof -
  have r: "reachable ended_system"
    unfolding ended_system_def by (rule reachable_run [OF samples_reachable(1)]) code_simp
  have e: "running ended_system = []" by code_simp
  have "row_at (main_store ended_system) ''users'' ''number:1'' = None" by code_simp
  with no_bookkeeping_left [OF r e, of "''users''" "''number:1''"] show ?thesis by blast
qed

section \<open>Refinement of a map\<close>

text \<open>What a client may assume a store to be: a map from model and key to a row.\<close>

type_synonym row_map = "string \<times> string \<Rightarrow> jsval option"

definition spec_create :: "string \<times> string \<Rightarrow> jsval \<Rightarrow> row_map \<Rightarrow> unit res \<times> row_map" where
  "spec_create k v a = (if a k \<noteq> None then (Inl ActiveTsConflictError, a) else (Inr (), a(k \<mapsto> v)))"

definition spec_update :: "string \<times> string \<Rightarrow> jsval \<Rightarrow> jsnum option \<Rightarrow> row_map \<Rightarrow> unit res \<times> row_map" where
  "spec_update k v e a =
     (if a k = None then (Inl ActiveTsNotFoundError, a)
      else if \<not> version_fits e (a k) then (Inl ActiveTsConflictError, a)
      else (Inr (), a(k \<mapsto> v)))"

definition spec_delete :: "string \<times> string \<Rightarrow> jsnum option \<Rightarrow> row_map \<Rightarrow> unit res \<times> row_map" where
  "spec_delete k e a =
     (if e \<noteq> None \<and> a k = None then (Inl ActiveTsNotFoundError, a)
      else if \<not> version_fits e (a k) then (Inl ActiveTsConflictError, a)
      else (Inr (), a(k := None)))"

definition observed :: "unit res \<times> memory_store \<Rightarrow> unit res \<times> row_map" where
  "observed = (\<lambda>(r, st). (r, \<lambda>(n, k). row_at st n k))"

definition valid_write ::
    "model_meta \<Rightarrow> jsval \<Rightarrow> jsval \<Rightarrow> jsval \<Rightarrow> StoreWriteOptions \<Rightarrow> jsval \<Rightarrow> string \<Rightarrow> bool" where
  "valid_write m ident data options opts clean key = (assertSafeEntityId ident = Inr ()
     \<and> normalizeStoreWriteOptions options = Inr opts \<and> wo_meta opts = None
     \<and> clonePortableDataObject data = Inr clean \<and> assertStoreDataMatchesId m ident clean = Inr ()
     \<and> entityIdKey ident = Inr key \<and> safe_name (m_name m))"

lemma valid_writeD:
  assumes "valid_write m ident data options opts clean key"
  shows "assertSafeEntityId ident = Inr ()" "normalizeStoreWriteOptions options = Inr opts"
    "rejectUnsupportedStoreWriteMetadata opts = Inr opts" "clonePortableDataObject data = Inr clean"
    "assertStoreDataMatchesId m ident clean = Inr ()" "entityIdKey ident = Inr key" "safe_name (m_name m)"
  using assms by (simp_all add: valid_write_def rejectUnsupportedStoreWriteMetadata_def)

lemma existing_safe: "safe_name n \<Longrightarrow> existingCollection n st = Inr (mget (collections st) n)"
  by (simp add: existing_iff)

lemma reserve_one:
  assumes "rowRevisionGeneration st < MAX_ROW_REVISION"
  obtains r st1 where "reserveRowRevisions (Suc 0) st = Inr (r, st1)" "collections st1 = collections st"
proof -
  have "reserveRowRevisions (Suc 0) st = Inr (rowRevisionGeneration st + 1,
      st\<lparr>rowRevisionGeneration := rowRevisionGeneration st + 1\<rparr>)"
    using assms by (simp add: reserveRowRevisions_def)
  then show thesis by (rule that) simp
qed

lemma counted_generation [simp]:
  "rowRevisionGeneration (count_create st) = rowRevisionGeneration st"
  "rowRevisionGeneration (count_update st) = rowRevisionGeneration st"
  "rowRevisionGeneration (count_delete st) = rowRevisionGeneration st"
  by (simp_all add: count_create_def count_update_def count_delete_def)

lemma observed_rows: "p = (r, st) \<Longrightarrow> observed p = (r, \<lambda>(n, k). row_at st n k)"
  by (simp add: observed_def)

lemma create_refines:
  assumes "valid_write m ident data options opts clean key" and "wo_expectedVersion opts = None"
    and "rowRevisionGeneration st < MAX_ROW_REVISION"
  shows "observed (store_create m ident data options st) =
    spec_create (m_name m, key) clean (snd (observed (Inr (), st)))"
proof -
  note v = valid_writeD [OF assms(1)]
  have o: "rejectUnsupportedStoreWriteOptions options = Inr opts"
    using v(2,3) assms(2) by (simp add: rejectUnsupportedStoreWriteOptions_def)
  obtain r st1 where res: "reserveRowRevisions (Suc 0) (count_create st) = Inr (r, st1)" "collections st1 = collections st"
    by (rule reserve_one [of "count_create st"]) (use assms(3) in simp_all)
  obtain st2 where c: "collection (m_name m) st1 = Inr st2" using collection_safe [OF v(7)] by blast
  show ?thesis
    by (cases "row_at st (m_name m) key") (simp_all add: store_create_def v o existing_safe has_row res c Let_def
        spec_create_def settle_def observed_rows [OF refl] collection_Inr(2) [OF c] set_row_lookup fun_eq_iff)
qed

lemma update_refines:
  assumes "valid_write m ident data options opts clean key" and "rowRevisionGeneration st < MAX_ROW_REVISION"
  shows "observed (store_update m ident data options st) =
    spec_update (m_name m, key) clean (wo_expectedVersion opts) (snd (observed (Inr (), st)))"
proof -
  note v = valid_writeD [OF assms(1)]
  obtain r st1 where res: "reserveRowRevisions (Suc 0) (count_update st) = Inr (r, st1)" "collections st1 = collections st"
    by (rule reserve_one [of "count_update st"]) (use assms(2) in simp_all)
  show ?thesis
    by (cases "row_at st (m_name m) key"; cases "wo_expectedVersion opts")
      (simp_all add: store_update_def v existing_safe has_row get_row res Let_def spec_update_def settle_def
        observed_rows [OF refl] set_row_lookup fun_eq_iff version_fits_def)
qed

lemma delete_refines:
  assumes "valid_write m ident data options opts clean key" and "rowRevisionGeneration st < MAX_ROW_REVISION"
  shows "observed (store_delete m ident options st) =
    spec_delete (m_name m, key) (wo_expectedVersion opts) (snd (observed (Inr (), st)))"
proof -
  note v = valid_writeD [OF assms(1)]
  obtain r st1 where res: "reserveRowRevisions (Suc 0) (count_delete st) = Inr (r, st1)" "collections st1 = collections st"
    by (rule reserve_one [of "count_delete st"]) (use assms(2) in simp_all)
  show ?thesis
    by (cases "row_at st (m_name m) key"; cases "wo_expectedVersion opts")
      (simp_all add: store_delete_def v existing_safe has_row get_row res Let_def spec_delete_def settle_def
        observed_rows [OF refl] set_row_lookup fun_eq_iff version_fits_def)
qed

text \<open>C19. The memory store refines a map: on well-formed arguments, and while the revision counter has room,
  create, update and delete return exactly the outcome of the map operations, expected versions included,
  and the rows they leave are the map those leave.\<close>

theorem store_refines_map:
  assumes "valid_write m ident data options opts clean key" and "rowRevisionGeneration st < MAX_ROW_REVISION"
  shows "observed (store_update m ident data options st) =
      spec_update (m_name m, key) clean (wo_expectedVersion opts) (snd (observed (Inr (), st)))
    \<and> observed (store_delete m ident options st) =
      spec_delete (m_name m, key) (wo_expectedVersion opts) (snd (observed (Inr (), st)))
    \<and> (wo_expectedVersion opts = None \<longrightarrow>
        observed (store_create m ident data options st) =
        spec_create (m_name m, key) clean (snd (observed (Inr (), st))))"
  using update_refines [OF assms] delete_refines [OF assms] create_refines [OF assms(1) _ assms(2)] by blast

theorem store_refines_map_witness:
  "fst (store_update users (js_int 1) (user 1 1) (expecting 3) new_store) = Inl ActiveTsNotFoundError"
proof -
  have "valid_write users (js_int 1) (user 1 1) (expecting 3)
      \<lparr>wo_expectedVersion = Some (num_of_int 3), wo_meta = None\<rparr> (user 1 1) ''number:1''" by code_simp
  moreover have "rowRevisionGeneration new_store < MAX_ROW_REVISION" by (simp add: new_store_def MAX_ROW_REVISION_def)
  ultimately have "observed (store_update users (js_int 1) (user 1 1) (expecting 3) new_store) =
      spec_update (m_name users, ''number:1'') (user 1 1) (Some (num_of_int 3)) (snd (observed (Inr (), new_store)))"
    using store_refines_map by fastforce
  then show ?thesis
    by (simp add: observed_def spec_update_def new_store_def lookup2_def mget_def split: prod.splits)
qed

end
