(* ===== verification/BatchLoader.thy ===== *)
theory BatchLoader
  imports EntityId "HOL-Library.Multiset"
begin

text \<open>
  \<open>src/core/batch-loader.ts\<close>: loads requested in one turn of the event loop are collected per key and
  sent in chunks. A promise is named by the number of its \<open>load\<close> call; settling it is an entry of the
  list that \<open>flush\<close> returns. \<open>loadMany\<close> is the caller's function, a parameter here; it is given the number
  of the chunk, since it may answer each call differently. The loop that cuts the chunks is a partial
  function: it does not return when the size is 0.
\<close>

section \<open>State\<close>

record pending_batch =
  pb_id :: jsval
  pb_waiters :: "nat list"

record batch_loader =
  bl_pending :: "(string \<times> pending_batch) list"
  bl_scheduled :: bool
  bl_maxSize :: nat
  bl_distinct :: bool
  bl_microtasks :: nat
  bl_promises :: nat

definition new_loader :: "nat \<Rightarrow> bool \<Rightarrow> batch_loader" where
  "new_loader maxSize distinctResults = \<lparr>bl_pending = [], bl_scheduled = False, bl_maxSize = maxSize,
     bl_distinct = distinctResults, bl_microtasks = 0, bl_promises = 0\<rparr>"

section \<open>Operations\<close>

definition schedule :: "batch_loader \<Rightarrow> batch_loader" where
  "schedule l = (if bl_scheduled l then l
     else l\<lparr>bl_scheduled := True, bl_microtasks := bl_microtasks l + 1\<rparr>)"

definition load_entry :: "jsval \<Rightarrow> nat \<Rightarrow> pending_batch option \<Rightarrow> pending_batch" where
  "load_entry ident waiter existing = (case existing of
     None \<Rightarrow> \<lparr>pb_id = ident, pb_waiters = [waiter]\<rparr>
   | Some b \<Rightarrow> b\<lparr>pb_waiters := pb_waiters b @ [waiter]\<rparr>)"

definition load_one :: "jsval \<Rightarrow> batch_loader \<Rightarrow> nat res \<times> batch_loader" where
  "load_one ident l = (case entityIdKey ident of
     Inl e \<Rightarrow> (Inl e, l)
   | Inr key \<Rightarrow>
       let waiter = bl_promises l;
           entry = load_entry ident waiter (map_of (bl_pending l) key)
       in (Inr waiter, schedule (l\<lparr>bl_pending := AList.update key entry (bl_pending l),
             bl_promises := waiter + 1\<rparr>)))"

definition pendingBatches :: "(string \<times> pending_batch) list \<Rightarrow> bool \<Rightarrow> pending_batch list" where
  "pendingBatches pending distinctResults = concat (map (\<lambda>(key, item).
     if distinctResults then map (\<lambda>w. \<lparr>pb_id = pb_id item, pb_waiters = [w]\<rparr>) (pb_waiters item)
     else [item]) pending)"

partial_function (option) chunk_loop :: "'a list \<Rightarrow> nat \<Rightarrow> nat \<Rightarrow> 'a list list option" where
  "chunk_loop items chunkSize index =
     (if index < length items
      then Option.bind (chunk_loop items chunkSize (index + chunkSize)) (\<lambda>chunks.
        Some (map (\<lambda>i. items ! i) [index ..< min (index + chunkSize) (length items)] # chunks))
      else Some [])"

definition chunkItems :: "'a list \<Rightarrow> nat \<Rightarrow> 'a list list option" where
  "chunkItems items chunkSize = chunk_loop items chunkSize 0"

definition chunkIds :: "pending_batch list \<Rightarrow> jsval list" where
  "chunkIds chunk = map pb_id chunk"

definition nullish_value :: "jsval list \<Rightarrow> nat \<Rightarrow> jsval" where
  "nullish_value values index =
     (if index < length values then (if values ! index = Undef then Null else values ! index) else Null)"

definition settle_chunk :: "pending_batch list \<Rightarrow> jsval list res \<Rightarrow> (nat \<times> jsval res) list" where
  "settle_chunk chunk answer = (case answer of
     Inl e \<Rightarrow> concat (map (\<lambda>item. map (\<lambda>w. (w, Inl e)) (pb_waiters item)) chunk)
   | Inr values \<Rightarrow> concat (map (\<lambda>index.
       map (\<lambda>w. (w, Inr (nullish_value values index))) (pb_waiters (chunk ! index))) [0 ..< length chunk]))"

fun settle_chunks ::
    "(nat \<Rightarrow> jsval list \<Rightarrow> jsval list res) \<Rightarrow> nat \<Rightarrow> pending_batch list list \<Rightarrow> (nat \<times> jsval res) list" where
  "settle_chunks loadMany n [] = []"
| "settle_chunks loadMany n (chunk # chunks) =
     settle_chunk chunk (loadMany n (chunkIds chunk)) @ settle_chunks loadMany (n + 1) chunks"

definition flush ::
    "(nat \<Rightarrow> jsval list \<Rightarrow> jsval list res) \<Rightarrow> batch_loader \<Rightarrow> ((nat \<times> jsval res) list \<times> batch_loader) option" where
  "flush loadMany l =
     (let batch = pendingBatches (bl_pending l) (bl_distinct l) in
      Option.bind (chunkItems batch (bl_maxSize l)) (\<lambda>chunks.
        Some (settle_chunks loadMany 0 chunks, l\<lparr>bl_scheduled := False, bl_pending := []\<rparr>)))"

section \<open>Chunks\<close>

lemma chunk_loop_unfold:
  "index < length items \<Longrightarrow> chunk_loop items chunkSize index =
     Option.bind (chunk_loop items chunkSize (index + chunkSize)) (\<lambda>chunks.
       Some (take chunkSize (drop index items) # chunks))"
proof -
  assume "index < length items"
  moreover have "map (\<lambda>i. items ! i) [index ..< min (index + chunkSize) (length items)] = take chunkSize (drop index items)"
  proof (rule nth_equalityI)
    fix i
    assume "i < length (map (\<lambda>i. items ! i) [index ..< min (index + chunkSize) (length items)])"
    then have "i < chunkSize" "index + i < length items" by (auto simp: min_def split: if_splits)
    then show "map (\<lambda>i. items ! i) [index ..< min (index + chunkSize) (length items)] ! i
        = take chunkSize (drop index items) ! i" by simp
  qed (auto simp: min_def)
  ultimately show ?thesis by (subst chunk_loop.simps) simp
qed

lemma chunk_loop_end: "length items \<le> index \<Longrightarrow> chunk_loop items chunkSize index = Some []"
  by (subst chunk_loop.simps) simp

lemma chunk_loop_returns:
  assumes "0 < chunkSize"
  shows "\<exists>cs. chunk_loop items chunkSize index = Some cs \<and> concat cs = drop index items
     \<and> (\<forall>c \<in> set cs. c \<noteq> [] \<and> length c \<le> chunkSize)"
proof (induction "length items - index" arbitrary: index rule: less_induct)
  case less
  show ?case
  proof (cases "index < length items")
    case True
    with assms have "length items - (index + chunkSize) < length items - index" by simp
    from less [OF this] obtain cs where cs:
      "chunk_loop items chunkSize (index + chunkSize) = Some cs" "concat cs = drop (index + chunkSize) items"
      "\<forall>c \<in> set cs. c \<noteq> [] \<and> length c \<le> chunkSize" by blast
    have "take chunkSize (drop index items) @ drop (index + chunkSize) items = drop index items"
      by (metis add.commute append_take_drop_id drop_drop)
    with True cs assms show ?thesis by (simp add: chunk_loop_unfold)
  qed (simp add: chunk_loop_end)
qed

lemma chunk_loop_zero: "index < length items \<Longrightarrow> chunk_loop items 0 index = None"
proof (rule ccontr)
  assume i: "index < length items" and "chunk_loop items 0 index \<noteq> None"
  then obtain cs where "chunk_loop items 0 index = Some cs" by blast
  with chunk_loop_unfold [OF i, of 0] have "cs = [] # cs" by simp
  then show False by (metis not_Cons_self)
qed

lemma chunkItems_returns:
  assumes "0 < chunkSize"
  obtains cs where "chunkItems items chunkSize = Some cs" "concat cs = items"
    "\<And>c. c \<in> set cs \<Longrightarrow> c \<noteq> [] \<and> length c \<le> chunkSize"
  using chunk_loop_returns [OF assms, of items 0] by (auto simp: chunkItems_def)

section \<open>Waiters\<close>

text \<open>The promises of a list of batches, each with the id it asked for.\<close>

definition waiting :: "pending_batch list \<Rightarrow> (nat \<times> jsval) list" where
  "waiting bs = concat (map (\<lambda>b. map (\<lambda>w. (w, pb_id b)) (pb_waiters b)) bs)"

lemma waiting_simps [simp]:
  "waiting [] = []"
  "waiting (b # bs) = map (\<lambda>w. (w, pb_id b)) (pb_waiters b) @ waiting bs"
  "waiting (bs @ cs) = waiting bs @ waiting cs"
  by (simp_all add: waiting_def)

lemma waiting_concat: "waiting (concat bss) = concat (map waiting bss)"
  by (induction bss) simp_all

lemma waiting_pendingBatches: "waiting (pendingBatches pending d) = waiting (map snd pending)"
proof (induction pending)
  case (Cons x pending)
  have "waiting (map (\<lambda>w. \<lparr>pb_id = i, pb_waiters = [w]\<rparr>) ws) = map (\<lambda>w. (w, i)) ws" for i ws
    by (induction ws) simp_all
  with Cons show ?case by (cases x) (simp add: pendingBatches_def)
qed (simp add: pendingBatches_def)

lemma waiting_update:
  assumes "distinct (map fst pending)" and "\<And>b. map_of pending key = Some b \<Longrightarrow> pb_id b = ident"
  shows "mset (waiting (map snd (AList.update key (load_entry ident w (map_of pending key)) pending)))
     = add_mset (w, ident) (mset (waiting (map snd pending)))"
  using assms
proof (induction pending)
  case Nil
  then show ?case by (simp add: load_entry_def)
next
  case (Cons x pending)
  then show ?case by (cases x) (auto simp: load_entry_def)
qed

definition loader_ok :: "jsval list \<Rightarrow> batch_loader \<Rightarrow> bool" where
  "loader_ok ids l = (distinct (map fst (bl_pending l)) \<and> bl_promises l = length ids
     \<and> (\<forall>(key, b) \<in> set (bl_pending l). entityIdKey (pb_id b) = Inr key)
     \<and> mset (waiting (map snd (bl_pending l))) = mset (zip [0 ..< length ids] ids))"

lemma load_entry_id: "pb_id (load_entry ident w existing) = (case existing of None \<Rightarrow> ident | Some b \<Rightarrow> pb_id b)"
  by (simp add: load_entry_def split: option.splits)

lemma load_one_ok:
  assumes "loader_ok ids l" and "entityIdKey ident = Inr key"
  shows "loader_ok (ids @ [ident]) (snd (load_one ident l))"
    and "fst (load_one ident l) = Inr (length ids)"
proof -
  let ?p = "bl_pending l"
  let ?e = "load_entry ident (bl_promises l) (map_of ?p key)"
  have d: "distinct (map fst ?p)" and n: "bl_promises l = length ids"
    and m: "mset (waiting (map snd ?p)) = mset (zip [0 ..< length ids] ids)"
    using assms(1) by (simp_all add: loader_ok_def)
  have same: "pb_id b = ident" if "map_of ?p key = Some b" for b
    using assms that entity.encode_inject by (fastforce simp: loader_ok_def dest: map_of_SomeD)
  have l': "snd (load_one ident l) = schedule (l\<lparr>bl_pending := AList.update key ?e ?p, bl_promises := bl_promises l + 1\<rparr>)"
    using assms(2) by (simp add: load_one_def Let_def)
  have fields: "bl_pending (snd (load_one ident l)) = AList.update key ?e ?p"
      "bl_promises (snd (load_one ident l)) = length ids + 1"
    unfolding l' by (simp_all add: schedule_def n)
  have keys: "entityIdKey (pb_id b) = Inr k" if "(k, b) \<in> set (AList.update key ?e ?p)" for k b
  proof -
    have "map_of (AList.update key ?e ?p) k = Some b" using that d by simp
    then show ?thesis using assms same
      by (fastforce simp: map_of_update load_entry_id loader_ok_def dest: map_of_SomeD split: if_splits option.splits)
  qed
  have "mset (zip [0 ..< Suc (length ids)] (ids @ [ident])) = add_mset (length ids, ident) (mset (zip [0 ..< length ids] ids))"
    by simp
  with waiting_update [OF d same, where w = "length ids"] m n keys d
  show "loader_ok (ids @ [ident]) (snd (load_one ident l))"
    unfolding loader_ok_def fields by auto
  show "fst (load_one ident l) = Inr (length ids)" using assms(2) n by (simp add: load_one_def Let_def)
qed

definition load_all :: "jsval list \<Rightarrow> batch_loader \<Rightarrow> batch_loader" where
  "load_all ids l = fold (\<lambda>ident l. snd (load_one ident l)) ids l"

lemma load_all_ok:
  assumes "loader_ok seen l" and "list_all (\<lambda>i. \<exists>k. entityIdKey i = Inr k) ids"
  shows "loader_ok (seen @ ids) (load_all ids l)"
  using assms
proof (induction ids arbitrary: seen l)
  case (Cons i ids)
  then obtain k where k: "entityIdKey i = Inr k" by auto
  from Cons.IH [OF load_one_ok(1) [OF Cons.prems(1) k]] Cons.prems(2) show ?case by (simp add: load_all_def)
qed (simp add: load_all_def)

lemma load_all_frame: "bl_maxSize (load_all ids l) = bl_maxSize l"
proof (induction ids arbitrary: l)
  case (Cons i ids)
  have "bl_maxSize (snd (load_one i l)) = bl_maxSize l"
    by (simp add: load_one_def Let_def schedule_def split: sum.splits)
  with Cons show ?case by (simp add: load_all_def)
qed (simp add: load_all_def)

lemma settle_chunk_waiters: "map fst (settle_chunk chunk answer) = map fst (waiting chunk)"
proof (cases answer)
  case (Inl e)
  then show ?thesis by (induction chunk) (simp_all add: settle_chunk_def comp_def)
next
  case (Inr vs)
  have "concat (map (\<lambda>index. pb_waiters (chunk ! index)) [0 ..< length chunk]) = concat (map pb_waiters chunk)"
    by (rule arg_cong [where f = concat]) (rule nth_equalityI; simp)
  moreover have "concat (map pb_waiters chunk) = map fst (waiting chunk)"
    by (induction chunk) (simp_all add: comp_def)
  ultimately show ?thesis using Inr by (simp add: settle_chunk_def map_concat comp_def)
qed

lemma settle_chunks_waiters: "map fst (settle_chunks loadMany n chunks) = map fst (waiting (concat chunks))"
  by (induction chunks arbitrary: n) (simp_all add: settle_chunk_waiters)

definition resolved :: "(jsval \<Rightarrow> jsval) \<Rightarrow> nat \<times> jsval \<Rightarrow> nat \<times> jsval res" where
  "resolved f = (\<lambda>(w, ident). (w, Inr (if f ident = Undef then Null else f ident)))"

lemma settle_chunk_values:
  assumes "answer = Inr (map f (chunkIds chunk))"
  shows "settle_chunk chunk answer = map (resolved f) (waiting chunk)"
proof -
  have "map (\<lambda>index. map (\<lambda>w. (w, Inr (nullish_value (map f (chunkIds chunk)) index))) (pb_waiters (chunk ! index)))
      [0 ..< length chunk] = map (\<lambda>b. map (\<lambda>w. resolved f (w, pb_id b)) (pb_waiters b)) chunk"
    by (rule nth_equalityI) (simp_all add: nullish_value_def chunkIds_def resolved_def)
  then show ?thesis
    by (simp add: assms settle_chunk_def waiting_def map_concat comp_def)
qed

lemma settle_chunks_values:
  assumes "\<And>n ids. loadMany n ids = Inr (map f ids)"
  shows "settle_chunks loadMany n chunks = map (resolved f) (waiting (concat chunks))"
  by (induction chunks arbitrary: n) (simp_all add: settle_chunk_values assms)

lemma flush_done:
  assumes "0 < bl_maxSize l"
  obtains cs l' where "flush loadMany l = Some (settle_chunks loadMany 0 cs, l')" "bl_pending l' = []"
    "\<not> bl_scheduled l'" "waiting (concat cs) = waiting (map snd (bl_pending l))"
    "\<And>c. c \<in> set cs \<Longrightarrow> c \<noteq> [] \<and> length c \<le> bl_maxSize l"
proof -
  obtain cs where "chunkItems (pendingBatches (bl_pending l) (bl_distinct l)) (bl_maxSize l) = Some cs"
      "concat cs = pendingBatches (bl_pending l) (bl_distinct l)"
      "\<And>c. c \<in> set cs \<Longrightarrow> c \<noteq> [] \<and> length c \<le> bl_maxSize l"
    by (rule chunkItems_returns [OF assms]) blast
  with that [of cs "l\<lparr>bl_scheduled := False, bl_pending := []\<rparr>"] show thesis
    by (simp add: flush_def Let_def waiting_pendingBatches)
qed

lemma new_loader_ok: "loader_ok [] (new_loader maxSize d)"
  by (simp add: loader_ok_def new_loader_def)

lemma flush_all:
  assumes "0 < maxSize" and "list_all (\<lambda>i. \<exists>k. entityIdKey i = Inr k) ids"
  obtains cs l' where "flush loadMany (load_all ids (new_loader maxSize d)) = Some (settle_chunks loadMany 0 cs, l')"
    "bl_pending l' = []" "mset (waiting (concat cs)) = mset (zip [0 ..< length ids] ids)"
proof -
  let ?l = "load_all ids (new_loader maxSize d)"
  have ok: "loader_ok ids ?l" using load_all_ok [OF new_loader_ok assms(2)] by simp
  have "0 < bl_maxSize ?l" using assms(1) by (simp add: load_all_frame new_loader_def)
  then show thesis
    by (rule flush_done [where loadMany = loadMany]) (use that ok in \<open>auto simp: loader_ok_def\<close>)
qed

section \<open>Properties\<close>

text \<open>C22. Cutting a batch into chunks ends for every positive size, as the context guarantees one: the
  chunks in order are the items, none is empty and none exceeds the size. For size 0 and a non-empty
  batch the loop never ends.\<close>

theorem chunking_terminates:
  assumes "0 < chunkSize"
  shows "\<exists>cs. chunkItems items chunkSize = Some cs \<and> concat cs = items
     \<and> list_all (\<lambda>c. c \<noteq> [] \<and> length c \<le> chunkSize) cs
     \<and> (items \<noteq> [] \<longrightarrow> chunkItems items 0 = None)"
proof -
  obtain cs where "chunkItems items chunkSize = Some cs" "concat cs = items"
      "\<And>c. c \<in> set cs \<Longrightarrow> c \<noteq> [] \<and> length c \<le> chunkSize"
    by (rule chunkItems_returns [OF assms]) blast
  then show ?thesis using chunk_loop_zero [of 0 items] by (auto simp: list_all_iff chunkItems_def)
qed

theorem chunking_terminates_witness:
  "\<exists>cs. chunkItems [1, 2, 3 :: nat] 2 = Some cs \<and> concat cs = [1, 2, 3]"
proof -
  have "(0 :: nat) < 2" by simp
  from chunking_terminates [OF this, of "[1, 2, 3 :: nat]"] show ?thesis by blast
qed

text \<open>C20. Every promise of a turn is settled exactly once by the flush, however the load function answers:
  by a failed chunk with its error, by any other with a value. Nothing stays pending.\<close>

theorem loads_settle_once:
  assumes "0 < maxSize" and "list_all (\<lambda>i. \<exists>k. entityIdKey i = Inr k) ids"
  shows "\<exists>ss l. flush loadMany (load_all ids (new_loader maxSize d)) = Some (ss, l) \<and> bl_pending l = []
     \<and> distinct (map fst ss) \<and> set (map fst ss) = {0 ..< length ids}"
proof -
  obtain cs l where f: "flush loadMany (load_all ids (new_loader maxSize d)) = Some (settle_chunks loadMany 0 cs, l)"
    "bl_pending l = []" "mset (waiting (concat cs)) = mset (zip [0 ..< length ids] ids)"
    by (rule flush_all [OF assms, where loadMany = loadMany and d = d])
  have "mset (map fst (waiting (concat cs))) = mset (map fst (zip [0 ..< length ids] ids))"
    by (simp only: mset_map f(3))
  then have m: "mset (map fst (settle_chunks loadMany 0 cs)) = mset [0 ..< length ids]"
    by (simp add: settle_chunks_waiters del: mset_upt)
  from mset_eq_imp_distinct_iff [OF m] mset_eq_setD [OF m] f(1,2) show ?thesis by auto
qed

theorem loads_settle_once_witness:
  "\<exists>ss l. flush (\<lambda>n ids. Inl (ExternalError n)) (load_all [js_int 7, js_int 7, js_int 9] (new_loader 1 True)) = Some (ss, l)
     \<and> distinct (map fst ss) \<and> set (map fst ss) = {0 ..< 3}"
proof -
  have k: "entityIdKey (js_int 7) = Inr ''number:7''" "entityIdKey (js_int 9) = Inr ''number:9''" by code_simp+
  then have l: "list_all (\<lambda>i. \<exists>k. entityIdKey i = Inr k) [js_int 7, js_int 7, js_int 9]" by simp
  have "(0 :: nat) < 1" by simp
  from loads_settle_once [OF this l, of "\<lambda>n ids. Inl (ExternalError n)" True] show ?thesis
    by (simp add: eval_nat_numeral) blast
qed

text \<open>C21. When the load function answers each id list position by position, every promise resolves to the
  answer for the very id it was asked for (null where that is missing): collecting, sharing a key and
  cutting into chunks never hands a caller the row of another id.\<close>

theorem loads_get_their_own_row:
  assumes "0 < maxSize" and "list_all (\<lambda>i. \<exists>k. entityIdKey i = Inr k) ids"
    and "\<And>n js. loadMany n js = Inr (map f js)" and "i < length ids"
  shows "\<exists>ss l. flush loadMany (load_all ids (new_loader maxSize d)) = Some (ss, l)
     \<and> (i, Inr (if f (ids ! i) = Undef then Null else f (ids ! i))) \<in> set ss"
proof -
  obtain cs l where f: "flush loadMany (load_all ids (new_loader maxSize d)) = Some (settle_chunks loadMany 0 cs, l)"
    "bl_pending l = []" "mset (waiting (concat cs)) = mset (zip [0 ..< length ids] ids)"
    by (rule flush_all [OF assms(1,2), where loadMany = loadMany and d = d])
  have "(i, ids ! i) \<in> set (zip [0 ..< length ids] ids)"
    using assms(4) by (force simp: set_zip)
  then have "(i, ids ! i) \<in> set (waiting (concat cs))" using mset_eq_setD [OF f(3)] by simp
  then have "resolved f (i, ids ! i) \<in> set (settle_chunks loadMany 0 cs)"
    by (simp add: settle_chunks_values [where f = f, OF assms(3)])
  with f(1) show ?thesis by (auto simp: resolved_def)
qed

theorem loads_get_their_own_row_witness:
  "\<exists>ss l. flush (\<lambda>n ids. Inr (map (\<lambda>i. js_array [i]) ids)) (load_all [js_int 7, js_int 9] (new_loader 1 False)) = Some (ss, l)
     \<and> (1, Inr (js_array [js_int 9])) \<in> set ss"
proof -
  have k: "entityIdKey (js_int 7) = Inr ''number:7''" "entityIdKey (js_int 9) = Inr ''number:9''" by code_simp+
  then have l: "list_all (\<lambda>i. \<exists>k. entityIdKey i = Inr k) [js_int 7, js_int 9]" by simp
  have "(0 :: nat) < 1" "(1 :: nat) < length [js_int 7, js_int 9]" by simp_all
  from loads_get_their_own_row [OF this(1) l refl this(2), of "\<lambda>i. js_array [i]" False] show ?thesis
    by (simp add: js_array_def)
qed

end
