(* ===== verification/AdapterSources.thy ===== *)
theory AdapterSources
  imports Prelude
begin

text \<open>
  \<open>src/core/cache-utils.ts\<close> and \<open>src/core/store-utils.ts\<close>: middleware marks the adapter it wraps as the
  source of the wrapper, and the original is found by following the marks. Adapters are named by numbers;
  each module's \<open>WeakMap\<close> is an association list from adapter to source. The loop of the code has no bound;
  it ends because it never visits an adapter twice.
\<close>

type_synonym source_map = "(nat \<times> nat) list"

definition markCacheAdapterSource :: "nat \<Rightarrow> nat \<Rightarrow> source_map \<Rightarrow> source_map" where
  "markCacheAdapterSource adapter source m = AList.update adapter source m"

definition markStoreAdapterSource :: "nat \<Rightarrow> nat \<Rightarrow> source_map \<Rightarrow> source_map" where
  "markStoreAdapterSource adapter source m = AList.update adapter source m"

fun hasSeenSource :: "nat list \<Rightarrow> nat \<Rightarrow> bool" where
  "hasSeenSource [] source = False"
| "hasSeenSource (s # seen) source = (s = source \<or> hasSeenSource seen source)"

lemma hasSeenSource_iff [simp]: "hasSeenSource seen source \<longleftrightarrow> source \<in> set seen"
  by (induction seen) auto

lemma unseen_shrinks:
  assumes "map_of m current = Some n" and "n \<notin> S"
  shows "card (snd ` set m - insert n S) < card (snd ` set m - S)"
proof (rule psubset_card_mono)
  have "n \<in> snd ` set m" using map_of_SomeD [OF assms(1)] by force
  with assms(2) show "snd ` set m - insert n S \<subset> snd ` set m - S" by blast
qed simp

function resolveCacheAdapterSourceChain :: "source_map \<Rightarrow> nat list \<Rightarrow> nat \<Rightarrow> nat list" where
  "resolveCacheAdapterSourceChain m seen current =
     (let seen' = seen @ [current] in
      case map_of m current of
        None \<Rightarrow> seen'
      | Some n \<Rightarrow> if hasSeenSource seen' n then seen' else resolveCacheAdapterSourceChain m seen' n)"
  by pat_completeness auto
termination
  by (relation "measure (\<lambda>(m, seen, current). card (snd ` set m - set (seen @ [current])))")
    (auto intro: unseen_shrinks)

function resolveStoreAdapterSourceChain :: "source_map \<Rightarrow> nat list \<Rightarrow> nat \<Rightarrow> nat list" where
  "resolveStoreAdapterSourceChain m seen current =
     (let seen' = seen @ [current] in
      case map_of m current of
        None \<Rightarrow> seen'
      | Some n \<Rightarrow> if hasSeenSource seen' n then seen' else resolveStoreAdapterSourceChain m seen' n)"
  by pat_completeness auto
termination
  by (relation "measure (\<lambda>(m, seen, current). card (snd ` set m - set (seen @ [current])))")
    (auto intro: unseen_shrinks)

declare resolveCacheAdapterSourceChain.simps [simp del] resolveStoreAdapterSourceChain.simps [simp del]

definition cacheAdapterSourceChain :: "source_map \<Rightarrow> nat \<Rightarrow> nat list" where
  "cacheAdapterSourceChain m adapter = resolveCacheAdapterSourceChain m [] adapter"

definition storeAdapterSourceChain :: "source_map \<Rightarrow> nat \<Rightarrow> nat list" where
  "storeAdapterSourceChain m adapter = resolveStoreAdapterSourceChain m [] adapter"

definition cacheAdapterSource :: "source_map \<Rightarrow> nat \<Rightarrow> nat" where
  "cacheAdapterSource m adapter = last (resolveCacheAdapterSourceChain m [] adapter)"

definition storeAdapterSource :: "source_map \<Rightarrow> nat \<Rightarrow> nat" where
  "storeAdapterSource m adapter = last (resolveStoreAdapterSourceChain m [] adapter)"

text \<open>
  What a chain is: it starts at the adapter, follows the marks, repeats nothing, and stops only where there is
  no mark or where the next adapter has been visited.
\<close>

fun follows_marks :: "source_map \<Rightarrow> nat list \<Rightarrow> bool" where
  "follows_marks m [] = False"
| "follows_marks m [a] = True"
| "follows_marks m (a # b # chain) = (map_of m a = Some b \<and> follows_marks m (b # chain))"

definition source_chain :: "source_map \<Rightarrow> nat \<Rightarrow> nat list \<Rightarrow> bool" where
  "source_chain m adapter chain \<longleftrightarrow>
     chain \<noteq> [] \<and> hd chain = adapter \<and> distinct chain \<and> follows_marks m chain
     \<and> (case map_of m (last chain) of None \<Rightarrow> True | Some n \<Rightarrow> hasSeenSource chain n)"

lemma follows_marks_snoc:
  assumes "follows_marks m xs" and "map_of m (last xs) = Some b"
  shows "follows_marks m (xs @ [b])"
  using assms by (induction m xs rule: follows_marks.induct) auto

lemma store_chain_is_cache_chain: "resolveStoreAdapterSourceChain m seen current = resolveCacheAdapterSourceChain m seen current"
  by (induction m seen current rule: resolveCacheAdapterSourceChain.induct)
    (subst resolveStoreAdapterSourceChain.simps, subst resolveCacheAdapterSourceChain.simps, simp add: Let_def split: option.split)

lemma resolved_chain:
  assumes "distinct (seen @ [current])" and "follows_marks m (seen @ [current])"
  shows "source_chain m (hd (seen @ [current])) (resolveCacheAdapterSourceChain m seen current)"
  using assms
proof (induction m seen current rule: resolveCacheAdapterSourceChain.induct)
  case (1 m seen current)
  show ?case
  proof (cases "map_of m current")
    case None
    with "1.prems" show ?thesis
      by (subst resolveCacheAdapterSourceChain.simps) (simp add: source_chain_def)
  next
    case (Some n)
    show ?thesis
    proof (cases "n \<in> set (seen @ [current])")
      case True
      with Some "1.prems" show ?thesis
        by (subst resolveCacheAdapterSourceChain.simps) (simp add: source_chain_def Let_def)
    next
      case False
      have "follows_marks m ((seen @ [current]) @ [n])"
        by (rule follows_marks_snoc [OF "1.prems"(2)]) (simp add: Some)
      with "1.IH" [OF refl Some] False "1.prems"(1)
      have "source_chain m (hd ((seen @ [current]) @ [n])) (resolveCacheAdapterSourceChain m (seen @ [current]) n)"
        by simp
      moreover have "hd ((seen @ [current]) @ [n]) = hd (seen @ [current])" by (cases seen) simp_all
      moreover have "resolveCacheAdapterSourceChain m seen current = resolveCacheAdapterSourceChain m (seen @ [current]) n"
        using Some False by (subst resolveCacheAdapterSourceChain.simps) simp
      ultimately show ?thesis by simp
    qed
  qed
qed

text \<open>C23. Following the marks from any adapter ends, for any marks at all, cyclic ones included: the chain
  starts at the adapter, follows the marks without visiting an adapter twice, and stops only at an adapter that
  is unmarked or whose source the chain already holds; the source that is reported is its last member.\<close>
theorem source_chain_ends:
  "source_chain m adapter (cacheAdapterSourceChain m adapter)
   \<and> storeAdapterSourceChain m adapter = cacheAdapterSourceChain m adapter
   \<and> cacheAdapterSource m adapter = last (cacheAdapterSourceChain m adapter)
   \<and> storeAdapterSource m adapter = cacheAdapterSource m adapter"
  using resolved_chain [of "[]" adapter m]
  by (simp add: cacheAdapterSourceChain_def storeAdapterSourceChain_def cacheAdapterSource_def storeAdapterSource_def
      store_chain_is_cache_chain)

end
