(* ===== verification/MemoryCache.thy ===== *)
theory MemoryCache
  imports SafeData JsFloat
begin

text \<open>
  The in-memory cache of \<open>src/adapters/cache/memory.ts\<close> with the input snapshots of \<open>src/core/cache-input.ts\<close>.
  \<open>now\<close> is the value of \<open>Date.now()\<close> in the call. Expiry times are computed in doubles, as the code does.
  An operation returns its result and the cache; counters are changed before the validation, as in the code.
\<close>

section \<open>Input snapshots\<close>

definition normalizeCacheKeys :: "(jsval \<Rightarrow> string res) \<Rightarrow> jsval \<Rightarrow> string list res" where
  "normalizeCacheKeys validate keys = rbind (snapshotArrayInput keys) (rlist validate)"

fun cache_entry_list :: "(jsval \<Rightarrow> string res) \<Rightarrow> string list \<Rightarrow> jsval list \<Rightarrow> (string \<times> jsval) list res" where
  "cache_entry_list validate keys [] = Inr []"
| "cache_entry_list validate keys (entry # input) =
     (if \<not> is_array entry \<or> length (slots entry) \<noteq> 2 then Inl ActiveTsValidationError
      else rbind (snapshotArrayInput entry) (\<lambda>tuple.
        rbind (validate (tuple ! 0)) (\<lambda>key.
        if key \<in> set keys then Inl ActiveTsValidationError
        else rbind (cache_entry_list validate (key # keys) input) (\<lambda>rest. Inr ((key, tuple ! 1) # rest)))))"

definition normalizeCacheEntries :: "(jsval \<Rightarrow> string res) \<Rightarrow> jsval \<Rightarrow> (string \<times> jsval) list res" where
  "normalizeCacheEntries validate entries = rbind (snapshotArrayInput entries) (cache_entry_list validate [])"

definition normalizeCacheWriteOptions :: "jsval \<Rightarrow> jsval res" where
  "normalizeCacheWriteOptions options =
     (if options = Undef then Inr Undef
      else if \<not> is_object options \<or> is_array options then Inl ActiveTsValidationError
      else if \<not> is_plain_object options then Inl ActiveTsValidationError
      else if own_symbols options \<noteq> [] then Inl ActiveTsValidationError
      else rbind (reach (\<lambda>key. if key \<noteq> ''ttl'' then Inl ActiveTsValidationError else Inr ()) (own_names options)) (\<lambda>_.
        case own_prop options ''ttl'' of
          None \<Rightarrow> Inr Undef
        | Some p \<Rightarrow>
            if \<not> is_data p then Inl ActiveTsValidationError
            else if \<not> enumerable p then Inl ActiveTsValidationError
            else Inr (prop_val p)))"

section \<open>The cache\<close>

record cache_entry =
  ce_value :: jsval
  ce_expires :: "jsnum option"

record cache_stats =
  cs_getMany :: nat
  cs_setMany :: nat
  cs_deleteMany :: nat
  cs_hits :: nat
  cs_misses :: nat

record memory_cache =
  mc_entries :: "(string \<times> cache_entry) list"
  mc_stats :: cache_stats

definition no_cache_stats :: cache_stats where
  "no_cache_stats = \<lparr>cs_getMany = 0, cs_setMany = 0, cs_deleteMany = 0, cs_hits = 0, cs_misses = 0\<rparr>"

definition new_cache :: memory_cache where
  "new_cache = \<lparr>mc_entries = [], mc_stats = no_cache_stats\<rparr>"

definition cloneCacheValue :: "jsval \<Rightarrow> jsval res" where
  "cloneCacheValue value = (if value = Undef then Inr value else structured_clone value)"

definition num_le :: "jsnum \<Rightarrow> jsnum \<Rightarrow> bool" where
  "num_le a b = (num_less a b \<or> num_eq a b)"

definition expired_at :: "int \<Rightarrow> cache_entry \<Rightarrow> bool" where
  "expired_at now e = (case ce_expires e of None \<Rightarrow> False | Some t \<Rightarrow> num_le t (num_of_int now))"

abbreviation upd_stats :: "(cache_stats \<Rightarrow> cache_stats) \<Rightarrow> memory_cache \<Rightarrow> memory_cache" where
  "upd_stats f c \<equiv> c\<lparr>mc_stats := f (mc_stats c)\<rparr>"

definition hit :: "memory_cache \<Rightarrow> memory_cache" where
  "hit = upd_stats (\<lambda>s. s\<lparr>cs_hits := cs_hits s + 1\<rparr>)"

definition miss :: "memory_cache \<Rightarrow> memory_cache" where
  "miss = upd_stats (\<lambda>s. s\<lparr>cs_misses := cs_misses s + 1\<rparr>)"

definition drop_entry :: "string \<Rightarrow> memory_cache \<Rightarrow> memory_cache" where
  "drop_entry key c = c\<lparr>mc_entries := AList.delete key (mc_entries c)\<rparr>"

definition put_entry :: "string \<times> cache_entry \<Rightarrow> memory_cache \<Rightarrow> memory_cache" where
  "put_entry ke c = c\<lparr>mc_entries := AList.update (fst ke) (snd ke) (mc_entries c)\<rparr>"

text \<open>The body of the loop of \<open>getMany\<close>, and the loop.\<close>

definition get_one :: "int \<Rightarrow> string \<Rightarrow> memory_cache \<Rightarrow> jsval res \<times> memory_cache" where
  "get_one now rawKey c =
     (case assertSafeCacheKey (Str rawKey) of
        Inl e \<Rightarrow> (Inl e, c)
      | Inr key \<Rightarrow>
          (case map_of (mc_entries c) key of
             None \<Rightarrow> (Inr Undef, miss c)
           | Some entry \<Rightarrow>
               if expired_at now entry then (Inr Undef, miss (drop_entry key c))
               else (cloneCacheValue (ce_value entry), hit c)))"

fun get_loop :: "int \<Rightarrow> string list \<Rightarrow> memory_cache \<Rightarrow> jsval list res \<times> memory_cache" where
  "get_loop now [] c = (Inr [], c)"
| "get_loop now (key # keys) c =
     (case get_one now key c of
        (Inl e, c') \<Rightarrow> (Inl e, c')
      | (Inr v, c') \<Rightarrow>
          (case get_loop now keys c' of
             (Inl e, c'') \<Rightarrow> (Inl e, c'')
           | (Inr vs, c'') \<Rightarrow> (Inr (v # vs), c'')))"

definition cache_getMany :: "int \<Rightarrow> jsval \<Rightarrow> memory_cache \<Rightarrow> jsval list res \<times> memory_cache" where
  "cache_getMany now keys c =
     (let c1 = upd_stats (\<lambda>s. s\<lparr>cs_getMany := cs_getMany s + 1\<rparr>) c in
      case normalizeCacheKeys assertSafeCacheKey keys of
        Inl e \<Rightarrow> (Inl e, c1)
      | Inr ks \<Rightarrow> get_loop now ks c1)"

definition expires_at :: "int \<Rightarrow> jsnum option \<Rightarrow> jsnum option" where
  "expires_at now ttl = map_option (\<lambda>t. num_add (num_of_int now) (num_mul t (num_of_int 1000))) ttl"

definition prepare_entry :: "jsnum option \<Rightarrow> string \<times> jsval \<Rightarrow> (string \<times> cache_entry) res" where
  "prepare_entry expires entry =
     rbind (assertSafeCacheKey (Str (fst entry))) (\<lambda>key.
     rbind (assertCacheableValue (snd entry)) (\<lambda>_.
     rbind (cloneCacheValue (snd entry)) (\<lambda>v.
     Inr (key, \<lparr>ce_value = v, ce_expires = expires\<rparr>))))"

definition prepare_entries :: "int \<Rightarrow> jsval \<Rightarrow> jsval \<Rightarrow> (string \<times> cache_entry) list res" where
  "prepare_entries now entries options =
     rbind (normalizeCacheEntries assertSafeCacheKey entries) (\<lambda>kvs.
     rbind (rbind (normalizeCacheWriteOptions options) assertSafeTtl) (\<lambda>ttl.
     rlist (prepare_entry (expires_at now ttl)) kvs))"

definition cache_setMany :: "int \<Rightarrow> jsval \<Rightarrow> jsval \<Rightarrow> memory_cache \<Rightarrow> unit res \<times> memory_cache" where
  "cache_setMany now entries options c =
     (let c1 = upd_stats (\<lambda>s. s\<lparr>cs_setMany := cs_setMany s + 1\<rparr>) c in
      case prepare_entries now entries options of
        Inl e \<Rightarrow> (Inl e, c1)
      | Inr prepared \<Rightarrow> (Inr (), fold put_entry prepared c1))"

fun delete_loop :: "string list \<Rightarrow> memory_cache \<Rightarrow> unit res \<times> memory_cache" where
  "delete_loop [] c = (Inr (), c)"
| "delete_loop (key # keys) c =
     (case assertSafeCacheKey (Str key) of
        Inl e \<Rightarrow> (Inl e, c)
      | Inr k \<Rightarrow> delete_loop keys (drop_entry k c))"

definition cache_deleteMany :: "jsval \<Rightarrow> memory_cache \<Rightarrow> unit res \<times> memory_cache" where
  "cache_deleteMany keys c =
     (let c1 = upd_stats (\<lambda>s. s\<lparr>cs_deleteMany := cs_deleteMany s + 1\<rparr>) c in
      case normalizeCacheKeys assertSafeCacheKey keys of
        Inl e \<Rightarrow> (Inl e, c1)
      | Inr ks \<Rightarrow> delete_loop ks c1)"

definition cache_resetStats :: "memory_cache \<Rightarrow> memory_cache" where
  "cache_resetStats c = c\<lparr>mc_stats := no_cache_stats\<rparr>"

definition cache_clear :: "memory_cache \<Rightarrow> memory_cache" where
  "cache_clear c = cache_resetStats (c\<lparr>mc_entries := []\<rparr>)"

text \<open>\<open>snapshot\<close> walks over a copy of the entries, drops the expired ones and clones the others.\<close>

definition snapshot_entry :: "cache_entry \<Rightarrow> jsval \<Rightarrow> jsval" where
  "snapshot_entry e v = js_object [(''value'', v),
     (''expires'', case ce_expires e of None \<Rightarrow> Undef | Some t \<Rightarrow> Num t)]"

fun snapshot_loop ::
    "int \<Rightarrow> (string \<times> cache_entry) list \<Rightarrow> (string \<times> jsprop) list \<Rightarrow> memory_cache \<Rightarrow> jsval res \<times> memory_cache" where
  "snapshot_loop now [] acc c = (Inr (Obj CPlain acc []), c)"
| "snapshot_loop now ((key, e) # es) acc c =
     (if expired_at now e then snapshot_loop now es acc (drop_entry key c)
      else case structured_clone (ce_value e) of
          Inl err \<Rightarrow> (Inl err, c)
        | Inr v \<Rightarrow> snapshot_loop now es (put_prop key (dataP (snapshot_entry e v)) acc) c)"

definition cache_snapshot :: "int \<Rightarrow> memory_cache \<Rightarrow> jsval res \<times> memory_cache" where
  "cache_snapshot now c = snapshot_loop now (mc_entries c) [] c"

section \<open>What the cache holds\<close>

lemma row_structured_clone: "row_value v \<Longrightarrow> structured_clone v = Inr v"
proof (induction v rule: row_value.induct)
  case (1 c ps ss)
  note r = row_object [OF "1.prems"]
  have m: "structured_clone (prop_val p) = Inr (prop_val p) \<and> dataP (prop_val p) = p \<and> enumerable p"
    if "(k, p) \<in> set ps" for k p
    using "1.IH" [OF that refl] r(3) [OF that] plain_propD(1,3) by blast
  have en: "filter (\<lambda>(k, p). enumerable p) ps = ps" using m by (auto intro: filter_True)
  have "rlist (\<lambda>(k, p). rbind (structured_clone (prop_val p)) (\<lambda>v. Inr (k, dataP v))) ps = Inr ps"
    using m by (intro rlist_self) fastforce
  with en show ?case unfolding r(1,2) by simp
next
  case (2 es ps ss)
  note r = row_array [OF "2.prems"]
  have m: "\<exists>p. e = Some p \<and> structured_clone (prop_val p) = Inr (prop_val p) \<and> dataP (prop_val p) = p \<and> enumerable p"
    if "e \<in> set es" for e
    using r(3) [OF that] "2.IH" [OF that] plain_propD(1,3) by blast
  have "rlist (\<lambda>e. case e of
               None \<Rightarrow> Inr None
             | Some p \<Rightarrow> if enumerable p
                 then rbind (structured_clone (prop_val p)) (\<lambda>v. Inr (Some (dataP v)))
                 else Inr None) es = Inr es"
    using m by (intro rlist_self) fastforce
  then show ?case unfolding r(1,2) by simp
qed simp_all

lemma cacheable_safe: "assertCacheableValue v = Inr () \<Longrightarrow> assertSafeDataKeys v = Inr () \<and> v \<noteq> Undef"
  by (cases v) (auto simp: rbind_Inr_iff assertDefinedCacheValue_def split: if_splits)

lemma cacheable_members:
  assumes "assertCacheableValue (Obj c ps ss) = Inr ()"
  shows "c = CPlain \<or> c = CNull"
    "(k, p) \<in> set ps \<Longrightarrow> enumerable p \<and> \<not> reserved_name k \<and> prop_val p \<noteq> Undef \<and> assertCacheableValue (prop_val p) = Inr ()"
proof -
  have safe: "assertSafeDataKeys (Obj c ps ss) = Inr ()" using cacheable_safe [OF assms] by simp
  show c: "c = CPlain \<or> c = CNull"
    using assms by (cases c) (auto simp: rbind_Inr_iff split: if_splits)
  assume m: "(k, p) \<in> set ps"
  note mem = safe_plain_members [OF safe c m]
  have "reach (\<lambda>(key, p). if prop_val p = Undef then Inl ActiveTsValidationError
            else assertCacheableValue (prop_val p)) (filter (\<lambda>(key, p). enumerable p) ps) = Inr ()"
    using assms c by (auto simp: rbind_Inr_iff)
  from reach_keyD [OF this, of k p] m mem
  show "enumerable p \<and> \<not> reserved_name k \<and> prop_val p \<noteq> Undef \<and> assertCacheableValue (prop_val p) = Inr ()"
    by (simp split: if_splits)
qed

lemma cacheable_slots:
  assumes "assertCacheableValue (Arr es ps ss) = Inr ()" and "e \<in> set es"
  shows "\<exists>p. e = Some p \<and> enumerable p \<and> prop_val p \<noteq> Undef \<and> assertCacheableValue (prop_val p) = Inr ()"
proof -
  have safe: "assertSafeDataKeys (Arr es ps ss) = Inr ()" using cacheable_safe [OF assms(1)] by simp
  obtain p where p: "e = Some p" using safe_array_members [OF safe assms(2)] by auto
  from assms(1) have "reach (\<lambda>slot. case slot of
           None \<Rightarrow> Inl ActiveTsValidationError
         | Some p \<Rightarrow>
             if \<not> is_data p then Inl ActiveTsValidationError
             else if prop_val p = Undef then Inl ActiveTsValidationError
             else assertCacheableValue (prop_val p)) es = Inr ()"
    by (simp add: rbind_Inr_iff)
  from reachD [OF this assms(2)] p dense_own_member [OF safe_array_parts(1) [OF safe]] assms(2)
  show ?thesis by (simp split: if_splits)
qed

lemma cacheable_clone:
  "assertCacheableValue v = Inr () \<Longrightarrow> structured_clone v = Inr (normal_data v) \<and> row_value (normal_data v)"
proof (induction v rule: normal_data.induct)
  case (1 c ps ss)
  note c = cacheable_members(1) [OF "1.prems"]
  note mem = cacheable_members(2) [OF "1.prems"]
  have IH: "structured_clone (prop_val p) = Inr (normal_data (prop_val p)) \<and> row_value (normal_data (prop_val p))"
    if "(k, p) \<in> set ps" for k p
    using 1 c mem [OF that] that by (cases c) fastforce+
  have en: "filter (\<lambda>(k, p). enumerable p) ps = ps" using mem by (auto intro: filter_True)
  have n: "concat (map (\<lambda>(k, p). if prop_val p = Undef then [] else [(k, dataP (normal_data (prop_val p)))]) ps)
      = map (\<lambda>(k, p). (k, dataP (normal_data (prop_val p)))) ps"
    using mem by (induction ps) fastforce+
  have "rlist (\<lambda>(k, p). rbind (structured_clone (prop_val p)) (\<lambda>v. Inr (k, dataP v))) ps
      = Inr (map (\<lambda>(k, p). (k, dataP (normal_data (prop_val p)))) ps)"
    using IH by (intro rlist_map_Inr) auto
  with c en n IH mem show ?case by (auto simp: list_all_iff)
next
  case (2 es ps ss)
  note mem = cacheable_slots [OF "2.prems"]
  have d: "assertDenseOwnArray (Arr es ps ss) = Inr ()"
    using cacheable_safe [OF "2.prems"] safe_array_parts(1) by blast
  have ex: "filter (\<lambda>(k, p). enumerable p \<and> k \<noteq> ''length'' \<and> \<not> isArrayIndexProperty k (length es)) ps = []"
    using dense_own_extras [OF d] by (force simp: filter_empty_conv)
  have IH: "\<exists>p. e = Some p \<and> enumerable p \<and> prop_val p \<noteq> Undef
      \<and> structured_clone (prop_val p) = Inr (normal_data (prop_val p)) \<and> row_value (normal_data (prop_val p))"
    if "e \<in> set es" for e
    using "2.IH" mem [OF that] that by fastforce
  have "rlist (\<lambda>e. case e of
               None \<Rightarrow> Inr None
             | Some p \<Rightarrow> if enumerable p
                 then rbind (structured_clone (prop_val p)) (\<lambda>v. Inr (Some (dataP v)))
                 else Inr None) es = Inr (map (map_option (\<lambda>p. dataP (normal_data (prop_val p)))) es)"
    using IH by (intro rlist_map_Inr) fastforce
  with ex IH show ?case by (fastforce simp: list_all_iff)
qed (auto simp: assertDefinedCacheValue_def split: if_splits)

definition entry_ok :: "string \<times> cache_entry \<Rightarrow> bool" where
  "entry_ok ke = (assertSafeCacheKey (Str (fst ke)) = Inr (fst ke) \<and> row_value (ce_value (snd ke)))"

definition cache_ok :: "memory_cache \<Rightarrow> bool" where
  "cache_ok c = (distinct (map fst (mc_entries c)) \<and> list_all entry_ok (mc_entries c))"

definition visible :: "int \<Rightarrow> memory_cache \<Rightarrow> string \<Rightarrow> jsval option" where
  "visible now c k = (case map_of (mc_entries c) k of
     None \<Rightarrow> None
   | Some e \<Rightarrow> if expired_at now e then None else Some (ce_value e))"

lemma expired_later: "expired_at now e \<Longrightarrow> now \<le> now' \<Longrightarrow> expired_at now' e"
proof -
  assume e: "expired_at now e" and n: "now \<le> now'"
  then obtain t where t: "ce_expires e = Some t" "num_le t (num_of_int now)"
    by (auto simp: expired_at_def split: option.splits)
  have "(of_int now :: rat) \<le> of_int now'" using n by simp
  with t(2) have "num_le t (num_of_int now')" by (cases t) (auto simp: num_le_def num_of_int_def)
  with t(1) show ?thesis by (simp add: expired_at_def)
qed

lemma cache_key_same: "assertSafeCacheKey (Str k) = Inr k' \<Longrightarrow> k' = k"
  by (simp split: if_splits)

lemma hit_miss_entries [simp]: "mc_entries (hit c) = mc_entries c" "mc_entries (miss c) = mc_entries c"
  by (simp_all add: hit_def miss_def)

lemma cache_ok_iff:
  "cache_ok c \<longleftrightarrow> distinct (map fst (mc_entries c)) \<and> (\<forall>k e. map_of (mc_entries c) k = Some e \<longrightarrow> entry_ok (k, e))"
  by (auto simp: cache_ok_def list_all_iff map_of_Some_distinct)

lemma drop_entry_ok: "cache_ok c \<Longrightarrow> cache_ok (drop_entry k c)"
  by (auto simp: cache_ok_iff drop_entry_def map_simps split: if_splits)

lemma put_entry_ok: "cache_ok c \<Longrightarrow> entry_ok ke \<Longrightarrow> cache_ok (put_entry ke c)"
  by (auto simp: cache_ok_iff put_entry_def map_simps split: if_splits)

lemma stats_ok [simp]:
  "cache_ok (c\<lparr>mc_stats := s\<rparr>) = cache_ok c" "visible now (c\<lparr>mc_stats := s\<rparr>) = visible now c"
  "cache_ok (hit c) = cache_ok c" "cache_ok (miss c) = cache_ok c"
  "visible now (hit c) = visible now c" "visible now (miss c) = visible now c"
  by (auto simp: cache_ok_def visible_def fun_eq_iff hit_def miss_def)

lemma visible_drop: "visible now (drop_entry k c) = (visible now c)(k := None)"
  by (simp add: visible_def drop_entry_def map_simps fun_eq_iff)

lemma visible_put:
  "visible now (put_entry ke c) = (visible now c)(fst ke := (if expired_at now (snd ke) then None else Some (ce_value (snd ke))))"
  by (simp add: visible_def put_entry_def map_simps fun_eq_iff)

lemma stored_ok: "cache_ok c \<Longrightarrow> map_of (mc_entries c) k = Some e \<Longrightarrow> entry_ok (k, e)"
  by (simp add: cache_ok_iff)

section \<open>Reading\<close>

definition read_value :: "jsval option \<Rightarrow> jsval" where
  "read_value r = (case r of None \<Rightarrow> Undef | Some v \<Rightarrow> v)"

definition lookups :: "memory_cache \<Rightarrow> nat" where
  "lookups c = cs_hits (mc_stats c) + cs_misses (mc_stats c)"

text \<open>A read answers what is visible, evicts at most what is expired, and counts one hit or one miss.\<close>

lemma get_one_spec:
  assumes "cache_ok c" and "assertSafeCacheKey (Str k) = Inr k"
  obtains c' where "get_one now k c = (Inr (read_value (visible now c k)), c')" "cache_ok c'"
    "\<And>t. now \<le> t \<Longrightarrow> visible t c' = visible t c" "lookups c' = lookups c + 1"
proof (cases "map_of (mc_entries c) k")
  case None
  have "get_one now k c = (Inr (read_value (visible now c k)), miss c)"
    using None assms(2) by (simp add: get_one_def visible_def read_value_def)
  then show thesis by (rule that) (simp_all add: assms(1) lookups_def miss_def)
next
  case (Some e)
  show thesis
  proof (cases "expired_at now e")
    case True
    have g: "get_one now k c = (Inr (read_value (visible now c k)), miss (drop_entry k c))"
      using True Some assms(2) by (simp add: get_one_def visible_def read_value_def)
    have "visible t (miss (drop_entry k c)) = visible t c" if "now \<le> t" for t
      using expired_later [OF True that] Some by (simp add: visible_drop fun_eq_iff) (simp add: visible_def)
    then show thesis
      by (intro that [OF g]) (simp_all add: assms(1) drop_entry_ok, simp add: lookups_def miss_def drop_entry_def)
  next
    case False
    from stored_ok [OF assms(1) Some] have "row_value (ce_value e)" by (simp add: entry_ok_def)
    then have "cloneCacheValue (ce_value e) = Inr (ce_value e)"
      by (simp add: cloneCacheValue_def row_structured_clone)
    with False Some assms(2) have "get_one now k c = (Inr (read_value (visible now c k)), hit c)"
      by (simp add: get_one_def visible_def read_value_def)
    then show thesis by (rule that) (simp_all add: assms(1) lookups_def hit_def)
  qed
qed

lemma get_loop_spec:
  assumes "cache_ok c" and "list_all (\<lambda>k. assertSafeCacheKey (Str k) = Inr k) ks"
  obtains c' where "get_loop now ks c = (Inr (map (\<lambda>k. read_value (visible now c k)) ks), c')" "cache_ok c'"
    "\<And>t. now \<le> t \<Longrightarrow> visible t c' = visible t c" "lookups c' = lookups c + length ks"
  using assms
proof (induction ks arbitrary: c thesis)
  case (Cons k ks)
  from Cons.prems(3) have "assertSafeCacheKey (Str k) = Inr k" by simp
  from get_one_spec [OF Cons.prems(2) this, of now] obtain c1 where
    1: "get_one now k c = (Inr (read_value (visible now c k)), c1)" "cache_ok c1"
      "\<And>t. now \<le> t \<Longrightarrow> visible t c1 = visible t c" "lookups c1 = lookups c + 1" by blast
  from Cons.prems(3) have "list_all (\<lambda>k. assertSafeCacheKey (Str k) = Inr k) ks" by simp
  with Cons.IH [of c1] 1(2) obtain c2 where
    2: "get_loop now ks c1 = (Inr (map (\<lambda>k. read_value (visible now c1 k)) ks), c2)" "cache_ok c2"
      "\<And>t. now \<le> t \<Longrightarrow> visible t c2 = visible t c1" "lookups c2 = lookups c1 + length ks" by blast
  show ?case
    by (rule Cons.prems(1) [of c2]) (use 1 2 in simp_all)
qed simp

lemma normalized_keys:
  "normalizeCacheKeys assertSafeCacheKey keys = Inr ks \<Longrightarrow> list_all (\<lambda>k. assertSafeCacheKey (Str k) = Inr k) ks"
proof -
  assume "normalizeCacheKeys assertSafeCacheKey keys = Inr ks"
  then obtain vs where "rlist assertSafeCacheKey vs = Inr ks" by (auto simp: normalizeCacheKeys_def rbind_Inr_iff)
  then have "\<exists>v. assertSafeCacheKey v = Inr k" if "k \<in> set ks" for k using rlist_member that by metis
  moreover have "assertSafeCacheKey v = Inr k \<Longrightarrow> v = Str k" for v k by (cases v) (simp_all split: if_splits)
  ultimately show ?thesis by (fastforce simp: list_all_iff simp del: assertSafeCacheKey.simps)
qed

lemma cache_getMany_spec:
  assumes "cache_ok c" and "normalizeCacheKeys assertSafeCacheKey keys = Inr ks"
  obtains c' where "cache_getMany now keys c = (Inr (map (\<lambda>k. read_value (visible now c k)) ks), c')" "cache_ok c'"
    "\<And>t. now \<le> t \<Longrightarrow> visible t c' = visible t c" "lookups c' = lookups c + length ks"
proof -
  define c1 where "c1 = upd_stats (\<lambda>s. s\<lparr>cs_getMany := cs_getMany s + 1\<rparr>) c"
  have ok: "cache_ok c1" and v: "visible t c1 = visible t c" and l: "lookups c1 = lookups c" for t
    using assms(1) by (simp_all add: c1_def lookups_def)
  from get_loop_spec [OF ok normalized_keys [OF assms(2)], of now] obtain c' where
    "get_loop now ks c1 = (Inr (map (\<lambda>k. read_value (visible now c1 k)) ks), c')" "cache_ok c'"
      "\<And>t. now \<le> t \<Longrightarrow> visible t c' = visible t c1" "lookups c' = lookups c1 + length ks" by blast
  moreover have "cache_getMany now keys c = get_loop now ks c1" by (simp add: cache_getMany_def assms(2) c1_def)
  ultimately show thesis by (intro that) (simp_all add: v l)
qed

section \<open>Writing\<close>

lemma entry_list_keys:
  "cache_entry_list validate seen input = Inr kvs \<Longrightarrow> distinct (map fst kvs) \<and> set (map fst kvs) \<inter> set seen = {}"
proof (induction input arbitrary: seen kvs)
  case (Cons entry input)
  then obtain k v rest where kvs: "kvs = (k, v) # rest" "k \<notin> set seen"
      "cache_entry_list validate (k # seen) input = Inr rest"
    by (auto simp: rbind_Inr_iff split: if_splits)
  from Cons.IH [OF kvs(3)] kvs(1,2) show ?case by auto
qed simp

text \<open>What an accepted \<open>setMany\<close> stores.\<close>

definition stored_entries :: "jsnum option \<Rightarrow> (string \<times> jsval) list \<Rightarrow> (string \<times> cache_entry) list" where
  "stored_entries expires kvs = map (\<lambda>(k, v). (k, \<lparr>ce_value = normal_data v, ce_expires = expires\<rparr>)) kvs"

lemma prepare_entry_result:
  assumes "prepare_entry expires (k, v) = Inr ke"
  shows "ke = (k, \<lparr>ce_value = normal_data v, ce_expires = expires\<rparr>)" "entry_ok ke"
proof -
  from assms have k: "assertSafeCacheKey (Str k) = Inr k" and v: "assertCacheableValue v = Inr ()"
      and ke: "\<exists>w. cloneCacheValue v = Inr w \<and> ke = (k, \<lparr>ce_value = w, ce_expires = expires\<rparr>)"
    by (auto simp: prepare_entry_def rbind_Inr_iff split: if_splits)
  from cacheable_clone [OF v] cacheable_safe [OF v] ke
  show "ke = (k, \<lparr>ce_value = normal_data v, ce_expires = expires\<rparr>)"
    by (auto simp: cloneCacheValue_def)
  with k cacheable_clone [OF v] show "entry_ok ke" by (simp add: entry_ok_def)
qed

lemma prepare_list_result:
  "rlist (prepare_entry expires) kvs = Inr es \<Longrightarrow> es = stored_entries expires kvs \<and> list_all entry_ok es"
proof (induction kvs arbitrary: es)
  case (Cons kv kvs)
  obtain k v where kv: "kv = (k, v)" by (cases kv)
  from Cons.prems obtain e rest where e: "prepare_entry expires (k, v) = Inr e" "rlist (prepare_entry expires) kvs = Inr rest"
      "es = e # rest" by (auto simp: rbind_Inr_iff kv)
  from Cons.IH [OF e(2)] have r: "rest = stored_entries expires kvs" "list_all entry_ok rest" by blast+
  have "stored_entries expires (kv # kvs) = (k, \<lparr>ce_value = normal_data v, ce_expires = expires\<rparr>) # rest"
    unfolding r(1) by (simp add: stored_entries_def kv)
  with prepare_entry_result [OF e(1)] e(3) r(2) show ?case by simp
qed (simp add: stored_entries_def)

lemma prepare_entries_result:
  assumes "prepare_entries now entries options = Inr es"
  obtains kvs ttl where "normalizeCacheEntries assertSafeCacheKey entries = Inr kvs"
    "rbind (normalizeCacheWriteOptions options) assertSafeTtl = Inr ttl"
    "es = stored_entries (expires_at now ttl) kvs" "list_all entry_ok es" "distinct (map fst es)"
proof -
  from assms obtain kvs ttl where *: "normalizeCacheEntries assertSafeCacheKey entries = Inr kvs"
      "rbind (normalizeCacheWriteOptions options) assertSafeTtl = Inr ttl"
      "rlist (prepare_entry (expires_at now ttl)) kvs = Inr es"
    by (auto simp: prepare_entries_def rbind_Inr_iff)
  from *(1) obtain input where "cache_entry_list assertSafeCacheKey [] input = Inr kvs"
    by (auto simp: normalizeCacheEntries_def rbind_Inr_iff)
  from entry_list_keys [OF this] have "distinct (map fst kvs)" by simp
  moreover have "map fst (stored_entries (expires_at now ttl) kvs) = map fst kvs"
    by (simp add: stored_entries_def case_prod_unfold comp_def)
  ultimately show thesis using * prepare_list_result [OF *(3)] by (intro that) auto
qed

lemma fold_put_ok:
  "cache_ok c \<Longrightarrow> list_all entry_ok es \<Longrightarrow> cache_ok (fold put_entry es c)"
  by (induction es arbitrary: c) (simp_all add: put_entry_ok)

lemma visible_fold_put:
  "distinct (map fst es) \<Longrightarrow> visible t (fold put_entry es c) k =
     (case map_of es k of
        None \<Rightarrow> visible t c k
      | Some e \<Rightarrow> if expired_at t e then None else Some (ce_value e))"
proof (induction es arbitrary: c)
  case (Cons ke es)
  then have "map_of es (fst ke) = None" by (simp add: map_of_eq_None_iff)
  with Cons show ?case by (cases ke) (auto simp: visible_put split: option.splits)
qed simp

lemma delete_loop_spec:
  assumes "cache_ok c" and "list_all (\<lambda>k. assertSafeCacheKey (Str k) = Inr k) ks"
  shows "fst (delete_loop ks c) = Inr () \<and> cache_ok (snd (delete_loop ks c))
    \<and> visible t (snd (delete_loop ks c)) = (\<lambda>k. if k \<in> set ks then None else visible t c k)"
  using assms
proof (induction ks arbitrary: c)
  case (Cons k ks)
  then have k: "assertSafeCacheKey (Str k) = Inr k" by simp
  from Cons have "fst (delete_loop ks (drop_entry k c)) = Inr () \<and> cache_ok (snd (delete_loop ks (drop_entry k c)))
    \<and> visible t (snd (delete_loop ks (drop_entry k c)))
      = (\<lambda>l. if l \<in> set ks then None else visible t (drop_entry k c) l)"
    by (simp add: drop_entry_ok)
  with k show ?case by (auto simp: visible_drop fun_eq_iff simp del: assertSafeCacheKey.simps)
qed simp

lemma fold_drop_ok: "cache_ok c \<Longrightarrow> cache_ok (fold drop_entry ks c)"
  by (induction ks arbitrary: c) (simp_all add: drop_entry_ok)

lemma visible_fold_drop: "visible t (fold drop_entry ks c) = (\<lambda>k. if k \<in> set ks then None else visible t c k)"
  by (induction ks arbitrary: c) (auto simp: visible_drop fun_eq_iff)

lemma snapshot_loop_spec:
  "list_all (\<lambda>(k, e). row_value (ce_value e)) es \<Longrightarrow> snapshot_loop now es acc c =
     (Inr (Obj CPlain (fold (\<lambda>(k, e). put_prop k (dataP (snapshot_entry e (ce_value e))))
        (filter (\<lambda>(k, e). \<not> expired_at now e) es) acc) []),
      fold drop_entry (map fst (filter (\<lambda>(k, e). expired_at now e) es)) c)"
  by (induction now es acc c rule: snapshot_loop.induct) (simp_all add: row_structured_clone)

lemma cache_snapshot_spec:
  assumes "cache_ok c"
  shows "cache_ok (snd (cache_snapshot now c))"
    "now \<le> t \<Longrightarrow> visible t (snd (cache_snapshot now c)) = visible t c"
proof -
  have rows: "list_all (\<lambda>(k, e). row_value (ce_value e)) (mc_entries c)"
    using assms by (auto simp: cache_ok_def list_all_iff entry_ok_def)
  let ?ks = "map fst (filter (\<lambda>(k, e). expired_at now e) (mc_entries c))"
  have s: "snd (cache_snapshot now c) = fold drop_entry ?ks c"
    by (simp add: cache_snapshot_def snapshot_loop_spec [OF rows])
  show "cache_ok (snd (cache_snapshot now c))" unfolding s by (rule fold_drop_ok [OF assms])
  assume t: "now \<le> t"
  have "visible t c k = None" if "k \<in> set ?ks" for k
  proof -
    from that obtain e where "(k, e) \<in> set (mc_entries c)" "expired_at now e" by auto
    then have "map_of (mc_entries c) k = Some e" "expired_at t e"
      using assms expired_later t by (auto simp: cache_ok_def map_of_Some_distinct)
    then show ?thesis by (simp add: visible_def)
  qed
  then show "visible t (snd (cache_snapshot now c)) = visible t c" unfolding s visible_fold_drop by auto
qed

section \<open>Runs and their specification\<close>

datatype cache_op = GetMany jsval | SetMany jsval jsval | DeleteMany jsval | Clear | ResetStats | Snapshot

fun cache_step :: "int \<times> cache_op \<Rightarrow> memory_cache \<Rightarrow> memory_cache" where
  "cache_step (now, GetMany keys) c = snd (cache_getMany now keys c)"
| "cache_step (now, SetMany entries options) c = snd (cache_setMany now entries options c)"
| "cache_step (now, DeleteMany keys) c = snd (cache_deleteMany keys c)"
| "cache_step (now, Clear) c = cache_clear c"
| "cache_step (now, ResetStats) c = cache_resetStats c"
| "cache_step (now, Snapshot) c = snd (cache_snapshot now c)"

text \<open>
  The specification never evicts: it is a map from keys to a value and an expiry time, which only accepted
  writes and deletions change; a read at time \<open>now\<close> sees a value whose expiry time is later.
\<close>

type_synonym cache_spec = "string \<Rightarrow> (jsval \<times> jsnum option) option"

fun spec_step :: "int \<times> cache_op \<Rightarrow> cache_spec \<Rightarrow> cache_spec" where
  "spec_step (now, SetMany entries options) m =
     (case prepare_entries now entries options of
        Inl _ \<Rightarrow> m
      | Inr _ \<Rightarrow>
          (case (normalizeCacheEntries assertSafeCacheKey entries, rbind (normalizeCacheWriteOptions options) assertSafeTtl) of
             (Inr kvs, Inr ttl) \<Rightarrow> (\<lambda>k. case map_of kvs k of
                 Some v \<Rightarrow> Some (normal_data v, expires_at now ttl)
               | None \<Rightarrow> m k)
           | _ \<Rightarrow> m))"
| "spec_step (now, DeleteMany keys) m =
     (case normalizeCacheKeys assertSafeCacheKey keys of
        Inl _ \<Rightarrow> m
      | Inr ks \<Rightarrow> (\<lambda>k. if k \<in> set ks then None else m k))"
| "spec_step (now, Clear) m = (\<lambda>k. None)"
| "spec_step (now, _) m = m"

definition spec_read :: "int \<Rightarrow> cache_spec \<Rightarrow> string \<Rightarrow> jsval option" where
  "spec_read now m k = (case m k of
     None \<Rightarrow> None
   | Some (v, None) \<Rightarrow> Some v
   | Some (v, Some t) \<Rightarrow> if num_le t (num_of_int now) then None else Some v)"

definition cache_run :: "(int \<times> cache_op) list \<Rightarrow> memory_cache" where
  "cache_run ops = fold cache_step ops new_cache"

definition spec_run :: "(int \<times> cache_op) list \<Rightarrow> cache_spec" where
  "spec_run ops = fold spec_step ops (\<lambda>k. None)"

definition simulates :: "int \<Rightarrow> memory_cache \<Rightarrow> cache_spec \<Rightarrow> bool" where
  "simulates now c m \<longleftrightarrow> cache_ok c \<and> (\<forall>t \<ge> now. visible t c = spec_read t m)"

lemma simulates_later: "simulates now c m \<Longrightarrow> now \<le> t \<Longrightarrow> simulates t c m"
  by (auto simp: simulates_def)

lemma cache_setMany_cases:
  "snd (cache_setMany now entries options c) =
     (let c1 = upd_stats (\<lambda>s. s\<lparr>cs_setMany := cs_setMany s + 1\<rparr>) c in
      case prepare_entries now entries options of Inl e \<Rightarrow> c1 | Inr es \<Rightarrow> fold put_entry es c1)"
  by (simp add: cache_setMany_def Let_def split: sum.split)

lemma set_simulates:
  assumes "simulates now c m"
  shows "simulates now (cache_step (now, SetMany entries options) c) (spec_step (now, SetMany entries options) m)"
proof (cases "prepare_entries now entries options")
  case (Inl e)
  with assms show ?thesis by (simp add: simulates_def cache_setMany_cases)
next
  case (Inr es)
  from prepare_entries_result [OF Inr] obtain kvs ttl where
    n: "normalizeCacheEntries assertSafeCacheKey entries = Inr kvs" "rbind (normalizeCacheWriteOptions options) assertSafeTtl = Inr ttl"
    and es: "es = stored_entries (expires_at now ttl) kvs" "list_all entry_ok es" "distinct (map fst es)" by metis
  have look: "map_of es k = map_option (\<lambda>v. \<lparr>ce_value = normal_data v, ce_expires = expires_at now ttl\<rparr>) (map_of kvs k)" for k
    unfolding es(1) stored_entries_def by (induction kvs) auto
  define c1 where "c1 = upd_stats (\<lambda>s. s\<lparr>cs_setMany := cs_setMany s + 1\<rparr>) c"
  have c1: "cache_ok c1" "visible t c1 = visible t c" for t
    using assms by (simp_all add: c1_def simulates_def)
  have step: "cache_step (now, SetMany entries options) c = fold put_entry es c1"
    by (simp add: cache_setMany_cases Inr c1_def)
  have spec: "spec_step (now, SetMany entries options) m = (\<lambda>k. case map_of kvs k of
      Some v \<Rightarrow> Some (normal_data v, expires_at now ttl) | None \<Rightarrow> m k)"
    by (simp add: Inr n)
  have "visible t (fold put_entry es c1) = spec_read t (spec_step (now, SetMany entries options) m)" if "now \<le> t" for t
  proof
    fix k
    have "visible t c k = spec_read t m k" using assms that by (simp add: simulates_def)
    then show "visible t (fold put_entry es c1) k = spec_read t (spec_step (now, SetMany entries options) m) k"
      unfolding spec visible_fold_put [OF es(3)] look c1
      by (cases "map_of kvs k") (simp_all add: spec_read_def expired_at_def split: option.split)
  qed
  with fold_put_ok [OF c1(1) es(2)] show ?thesis unfolding simulates_def step by simp
qed

lemma get_simulates:
  assumes "simulates now c m"
  shows "simulates now (cache_step (now, GetMany keys) c) m"
proof (cases "normalizeCacheKeys assertSafeCacheKey keys")
  case (Inl e)
  with assms show ?thesis by (simp add: simulates_def cache_getMany_def)
next
  case (Inr ks)
  have ok: "cache_ok c" using assms by (simp add: simulates_def)
  from cache_getMany_spec [OF ok Inr, of now] obtain c' where
    "snd (cache_getMany now keys c) = c'" "cache_ok c'" "\<And>t. now \<le> t \<Longrightarrow> visible t c' = visible t c"
    by (metis snd_conv)
  with assms show ?thesis by (simp add: simulates_def)
qed

lemma delete_simulates:
  assumes "simulates now c m"
  shows "simulates now (cache_step (now, DeleteMany keys) c) (spec_step (now, DeleteMany keys) m)"
proof (cases "normalizeCacheKeys assertSafeCacheKey keys")
  case (Inl e)
  with assms show ?thesis by (simp add: simulates_def cache_deleteMany_def)
next
  case (Inr ks)
  define c1 where "c1 = upd_stats (\<lambda>s. s\<lparr>cs_deleteMany := cs_deleteMany s + 1\<rparr>) c"
  have c1: "cache_ok c1" "visible t c1 = visible t c" for t
    using assms by (simp_all add: c1_def simulates_def)
  have step: "cache_step (now, DeleteMany keys) c = snd (delete_loop ks c1)"
    by (simp add: cache_deleteMany_def Inr c1_def)
  have "visible t (snd (delete_loop ks c1)) = spec_read t (spec_step (now, DeleteMany keys) m)" if "now \<le> t" for t
    using assms that delete_loop_spec [OF c1(1) normalized_keys [OF Inr], of t]
    by (simp add: c1(2) simulates_def Inr fun_eq_iff) (simp add: spec_read_def)
  with delete_loop_spec [OF c1(1) normalized_keys [OF Inr]] show ?thesis unfolding simulates_def step by simp
qed

lemma step_simulates:
  assumes "simulates now c m"
  shows "simulates now (cache_step (now, op) c) (spec_step (now, op) m)"
proof (cases op)
  case (GetMany keys)
  with get_simulates [OF assms] show ?thesis by simp
next
  case (SetMany entries options)
  with set_simulates [OF assms] show ?thesis by blast
next
  case (DeleteMany keys)
  with delete_simulates [OF assms] show ?thesis by blast
next
  case Clear
  then show ?thesis
    by (simp add: simulates_def cache_clear_def cache_resetStats_def) (simp add: cache_ok_def visible_def spec_read_def fun_eq_iff)
next
  case ResetStats
  with assms show ?thesis by (simp add: simulates_def cache_resetStats_def)
next
  case Snapshot
  with assms cache_snapshot_spec [of c now] show ?thesis by (simp add: simulates_def)
qed

lemma run_simulates:
  "sorted (map fst ops @ [now]) \<Longrightarrow> simulates now (cache_run ops) (spec_run ops)"
proof (induction ops arbitrary: now rule: rev_induct)
  case Nil
  show ?case
    by (simp add: simulates_def cache_run_def spec_run_def new_cache_def) (simp add: cache_ok_def visible_def spec_read_def fun_eq_iff)
next
  case (snoc op ops)
  obtain t p where op: "op = (t, p)" by (cases op)
  from snoc.prems op have "sorted (map fst ops @ [t])" "t \<le> now" by (auto simp: sorted_append)
  from simulates_later [OF step_simulates [OF snoc.IH [OF this(1)]] this(2)]
  show ?case by (simp add: op cache_run_def spec_run_def)
qed

section \<open>The invariant and the counters\<close>

lemma ok_simulates:
  "cache_ok c \<Longrightarrow> simulates now c (\<lambda>k. map_option (\<lambda>e. (ce_value e, ce_expires e)) (map_of (mc_entries c) k))"
  by (auto simp: simulates_def visible_def spec_read_def expired_at_def fun_eq_iff split: option.split)

lemma step_ok: "cache_ok c \<Longrightarrow> cache_ok (cache_step op c)"
  using step_simulates [OF ok_simulates, of c "fst op" "snd op"] by (simp add: simulates_def)

lemma run_ok: "cache_ok (cache_run ops)"
proof (induction ops rule: rev_induct)
  case Nil
  show ?case by (simp add: cache_run_def new_cache_def cache_ok_def)
next
  case (snoc op ops)
  from step_ok [OF this] show ?case by (simp add: cache_run_def)
qed

fun looked_up_step :: "int \<times> cache_op \<Rightarrow> nat \<Rightarrow> nat" where
  "looked_up_step (now, GetMany keys) n =
     (case normalizeCacheKeys assertSafeCacheKey keys of Inl _ \<Rightarrow> n | Inr ks \<Rightarrow> n + length ks)"
| "looked_up_step (now, Clear) n = 0"
| "looked_up_step (now, ResetStats) n = 0"
| "looked_up_step (now, _) n = n"

lemma lookups_writes [simp]:
  "lookups (drop_entry k c) = lookups c" "lookups (put_entry ke c) = lookups c"
  by (simp_all add: lookups_def drop_entry_def put_entry_def)

lemma lookups_fold_put [simp]: "lookups (fold put_entry es c) = lookups c"
  by (induction es arbitrary: c) simp_all

lemma lookups_delete_loop [simp]: "lookups (snd (delete_loop ks c)) = lookups c"
  by (induction ks arbitrary: c) (simp_all split: sum.split)

lemma lookups_snapshot [simp]: "lookups (snd (snapshot_loop now es acc c)) = lookups c"
  by (induction now es acc c rule: snapshot_loop.induct) (simp_all split: sum.split)

lemma lookups_step:
  assumes "cache_ok c"
  shows "lookups (cache_step op c) = looked_up_step op (lookups c)"
proof -
  have other: "lookups (upd_stats (\<lambda>s. s\<lparr>cs_setMany := n\<rparr>) c) = lookups c"
      "lookups (upd_stats (\<lambda>s. s\<lparr>cs_deleteMany := n\<rparr>) c) = lookups c"
      "lookups (upd_stats (\<lambda>s. s\<lparr>cs_getMany := n\<rparr>) c) = lookups c" for n
    by (simp_all add: lookups_def)
  have get: "lookups (snd (cache_getMany now keys c)) = lookups c + length ks"
    if "normalizeCacheKeys assertSafeCacheKey keys = Inr ks" for now keys ks
    using cache_getMany_spec [OF assms that, of now] by (metis snd_conv)
  obtain now p where op: "op = (now, p)" by (cases op)
  show ?thesis
  proof (cases p)
    case (GetMany keys)
    then show ?thesis
      by (cases "normalizeCacheKeys assertSafeCacheKey keys") (simp_all add: op get, simp add: cache_getMany_def other)
  next
    case (SetMany entries options)
    then show ?thesis by (simp add: op cache_setMany_cases Let_def other split: sum.split)
  next
    case (DeleteMany keys)
    then show ?thesis by (simp add: op cache_deleteMany_def Let_def other split: sum.split)
  next
    case Snapshot
    then show ?thesis by (simp add: op cache_snapshot_def)
  qed (simp_all add: op cache_clear_def cache_resetStats_def lookups_def no_cache_stats_def)
qed

section \<open>An example\<close>

lemma example_keys: "assertSafeCacheKey (Str ''k'') = Inr ''k''" "assertSafeCacheKey (Str ''q'') = Inr ''q''"
proof -
  have k: "utf8_length (units ''k'') = 1" by (simp add: units_def utf8_length_def utf8_size_def)
  have q: "utf8_length (units ''q'') = 1" by (simp add: units_def utf8_length_def utf8_size_def)
  show "assertSafeCacheKey (Str ''k'') = Inr ''k''" by (simp add: k MAX_CACHE_KEY_BYTES_def nul_def)
  show "assertSafeCacheKey (Str ''q'') = Inr ''q''" by (simp add: q MAX_CACHE_KEY_BYTES_def nul_def)
qed

lemma example_ttl:
  "0 < n \<Longrightarrow> n \<le> MAX_SAFE_INTEGER \<Longrightarrow>
    rbind (normalizeCacheWriteOptions (js_object [(''ttl'', js_int n)])) assertSafeTtl = Inr (Some (num_of_int n))"
proof -
  assume n: "0 < n" "n \<le> MAX_SAFE_INTEGER"
  have "is_safe_integer (num_of_int n)" using n by simp
  moreover have "\<not> num_value (num_of_int n) \<le> 0" using n by (simp add: num_of_int_def)
  moreover have "normalizeCacheWriteOptions (js_object [(''ttl'', js_int n)]) = Inr (js_int n)"
    by (simp add: normalizeCacheWriteOptions_def js_object_def dataP_def)
  ultimately show ?thesis by (simp add: js_int_def)
qed

lemma example_entries:
  "normalizeCacheEntries assertSafeCacheKey (js_array [js_array [Str ''k'', js_int 7]]) = Inr [(''k'', js_int 7)]"
  "0 < n \<Longrightarrow> n \<le> MAX_SAFE_INTEGER \<Longrightarrow>
    prepare_entries now (js_array [js_array [Str ''k'', js_int 7]]) (js_object [(''ttl'', js_int n)])
    = Inr [(''k'', \<lparr>ce_value = js_int 7, ce_expires = expires_at now (Some (num_of_int n))\<rparr>)]"
proof -
  have "slots (js_array [Str ''k'', js_int 7]) = [Some (dataP (Str ''k'')), Some (dataP (js_int 7))]" "is_array (js_array vs)" for vs
    by (simp_all add: js_array_def)
  then show e: "normalizeCacheEntries assertSafeCacheKey (js_array [js_array [Str ''k'', js_int 7]]) = Inr [(''k'', js_int 7)]"
    by (simp add: normalizeCacheEntries_def example_keys del: assertSafeCacheKey.simps)
  assume "0 < n" "n \<le> MAX_SAFE_INTEGER"
  from example_ttl [OF this] e show
    "prepare_entries now (js_array [js_array [Str ''k'', js_int 7]]) (js_object [(''ttl'', js_int n)])
    = Inr [(''k'', \<lparr>ce_value = js_int 7, ce_expires = expires_at now (Some (num_of_int n))\<rparr>)]"
    by (simp add: prepare_entries_def prepare_entry_def example_keys cloneCacheValue_def js_int_def num_of_int_def
        assertDefinedCacheValue_def del: assertSafeCacheKey.simps)
qed

section \<open>Properties\<close>

text \<open>C24. The cache is a map whose entries disappear at their expiry time: after any calls whose clock does
  not go back, rejected ones included, \<open>getMany\<close> answers every key, in order, with a copy of the last accepted
  value, unless it was deleted or its time has come. When it evicts, and what \<open>snapshot\<close> removes, cannot be
  observed.\<close>

theorem cache_refines_expiring_map:
  assumes "sorted (map fst ops @ [now])" and "normalizeCacheKeys assertSafeCacheKey keys = Inr ks"
  shows "fst (cache_getMany now keys (cache_run ops)) = Inr (map (\<lambda>k. read_value (spec_read now (spec_run ops) k)) ks)"
proof -
  from run_simulates [OF assms(1)] have s: "cache_ok (cache_run ops)" "visible now (cache_run ops) = spec_read now (spec_run ops)"
    by (simp_all add: simulates_def)
  from cache_getMany_spec [OF s(1) assms(2), of now] s(2) show ?thesis by (metis fst_conv)
qed

theorem cache_refines_expiring_map_witness:
  "fst (cache_getMany 999 (js_array [Str ''k'', Str ''q'']) (cache_run [(0, SetMany
     (js_array [js_array [Str ''k'', js_int 7]]) (js_object [(''ttl'', js_int 1)]))])) = Inr [js_int 7, Undef]"
proof -
  let ?ops = "[(0, SetMany (js_array [js_array [Str ''k'', js_int 7]]) (js_object [(''ttl'', js_int 1)]))]"
  have n: "normalizeCacheKeys assertSafeCacheKey (js_array [Str ''k'', Str ''q'']) = Inr [''k'', ''q'']"
    by (simp add: normalizeCacheKeys_def example_keys del: assertSafeCacheKey.simps)
  have nd: "normal_data (js_int 7) = js_int 7" by (simp add: js_int_def)
  have v: "spec_run ?ops = [''k'' \<mapsto> (js_int 7, Some (num_of_int 1000))]"
    using num_mul_int [of 1 1000] num_add_int [of 0 1000]
    by (simp add: spec_run_def example_entries example_ttl MAX_SAFE_INTEGER_def expires_at_def fun_eq_iff nd)
  have "sorted (map fst ?ops @ [999 :: int])" by simp
  from cache_refines_expiring_map [OF this n] show ?thesis
    by (simp add: v read_value_def spec_read_def num_le_def num_of_int_def)
qed

text \<open>C25. Whatever calls are made, with any arguments and clock readings, the cache holds each key once, every
  key is an admissible one, and every value is plain data: the copies it hands out can be cloned again and
  share nothing with a caller. Hits and misses together count exactly the keys looked up since the last
  reset.\<close>

theorem cache_is_well_typed:
  "distinct (map fst (mc_entries (cache_run ops)))
   \<and> list_all (\<lambda>(k, e). assertSafeCacheKey (Str k) = Inr k \<and> row_value (ce_value e)) (mc_entries (cache_run ops))
   \<and> cs_hits (mc_stats (cache_run ops)) + cs_misses (mc_stats (cache_run ops)) = fold looked_up_step ops 0"
proof -
  have "lookups (cache_run ops) = fold looked_up_step ops 0"
  proof (induction ops rule: rev_induct)
    case Nil
    show ?case by (simp add: cache_run_def new_cache_def lookups_def no_cache_stats_def)
  next
    case (snoc op ops)
    with lookups_step [OF run_ok] show ?case by (simp add: cache_run_def)
  qed
  moreover have "list_all (\<lambda>(k, e). assertSafeCacheKey (Str k) = Inr k \<and> row_value (ce_value e)) (mc_entries (cache_run ops))"
    using run_ok [of ops] by (simp add: cache_ok_def list_all_iff entry_ok_def case_prod_unfold del: assertSafeCacheKey.simps)
  ultimately show ?thesis using run_ok [of ops] by (simp add: lookups_def cache_ok_def)
qed

text \<open>C26. An entry lives exactly its time to live: set at \<open>now\<close> with a TTL of \<open>n\<close> seconds it is read back
  strictly before \<open>now + 1000 * n\<close> and never from then on, as long as that time is at most \<open>2 ^ 53\<close>, where
  doubles count milliseconds exactly.\<close>

theorem cache_entry_lives_its_ttl:
  assumes "normalizeCacheEntries assertSafeCacheKey entries = Inr kvs" and "(k, v) \<in> set kvs"
    and "prepare_entries now entries (js_object [(''ttl'', js_int n)]) = Inr es"
    and "0 \<le> now" and "now + n * 1000 \<le> 2 ^ 53" and "now \<le> t"
  shows "fst (cache_getMany t (js_array [Str k])
      (cache_step (now, SetMany entries (js_object [(''ttl'', js_int n)])) (cache_run ops)))
    = Inr [if t < now + n * 1000 then normal_data v else Undef]"
proof -
  let ?c = "cache_step (now, SetMany entries (js_object [(''ttl'', js_int n)])) (cache_run ops)"
  from prepare_entries_result [OF assms(3)] obtain ttl where
    ttl: "rbind (normalizeCacheWriteOptions (js_object [(''ttl'', js_int n)])) assertSafeTtl = Inr ttl"
    and es: "es = stored_entries (expires_at now ttl) kvs" "list_all entry_ok es" "distinct (map fst es)"
    using assms(1) by (metis Inr_inject)
  have opts: "normalizeCacheWriteOptions (js_object [(''ttl'', js_int n)]) = Inr (js_int n)"
    by (simp add: normalizeCacheWriteOptions_def js_object_def)
  from ttl have ttl': "ttl = Some (num_of_int n)" "0 < n"
    by (auto simp: opts [unfolded js_int_def num_of_int_def] js_int_def num_of_int_def split: if_splits)
  have x: "expires_at now ttl = Some (num_of_int (now + n * 1000))"
    using num_mul_int [of n 1000] num_add_int [of now "n * 1000"] assms(4,5) ttl'
    by (simp add: expires_at_def)
  have "(k, \<lparr>ce_value = normal_data v, ce_expires = Some (num_of_int (now + n * 1000))\<rparr>) \<in> set es"
    using assms(2) es(1) x by (force simp: stored_entries_def)
  then have e: "map_of es k = Some \<lparr>ce_value = normal_data v, ce_expires = Some (num_of_int (now + n * 1000))\<rparr>"
      and k: "assertSafeCacheKey (Str k) = Inr k"
    using es(2,3) by (auto simp: list_all_iff entry_ok_def map_of_Some_distinct simp del: assertSafeCacheKey.simps)
  have "visible t ?c k = (if t < now + n * 1000 then Some (normal_data v) else None)"
    by (simp add: cache_setMany_cases assms(3) Let_def visible_fold_put [OF es(3)] e expired_at_def num_le_def num_of_int_def
        flip: of_int_add of_int_mult)
  moreover have n: "normalizeCacheKeys assertSafeCacheKey (js_array [Str k]) = Inr [k]"
    by (simp add: normalizeCacheKeys_def k del: assertSafeCacheKey.simps)
  moreover have "cache_ok ?c" by (rule step_ok [OF run_ok])
  from cache_getMany_spec [OF this n, of t] have "fst (cache_getMany t (js_array [Str k]) ?c) = Inr (map (\<lambda>k. read_value (visible t ?c k)) [k])"
    by (metis fst_conv)
  ultimately show ?thesis by (simp add: read_value_def)
qed

theorem cache_entry_lives_its_ttl_witness:
  "fst (cache_getMany 61000 (js_array [Str ''k''])
      (cache_step (1000, SetMany (js_array [js_array [Str ''k'', js_int 7]]) (js_object [(''ttl'', js_int 60)])) (cache_run [])))
    = Inr [Undef]"
proof -
  have m: "(''k'', js_int 7) \<in> set [(''k'', js_int 7)]" by simp
  from cache_entry_lives_its_ttl [OF example_entries(1) m example_entries(2) [where now = 1000 and n = 60], where t = 61000 and ops = "[]"]
  show ?thesis by (simp add: MAX_SAFE_INTEGER_def)
qed

end
