(* ===== verification/CacheVersioning.thy ===== *)
theory CacheVersioning
  imports MemoryCache
begin

text \<open>
  \<open>src/core/cache-versioning.ts\<close>: the optional protocol of versioned cache adapters. An adapter is seen only
  through its three methods, as values; results of adapters are values that the functions check and copy.
\<close>

record cache_methods =
  cm_getManyVersioned :: jsval
  cm_setManyVersioned :: jsval
  cm_invalidateMany :: jsval

fun is_function :: "jsval \<Rightarrow> bool" where
  "is_function (Fn _) = True"
| "is_function _ = False"

definition cacheSupportsVersioning :: "cache_methods \<Rightarrow> bool" where
  "cacheSupportsVersioning a =
     (is_function (cm_getManyVersioned a) \<and> is_function (cm_setManyVersioned a) \<and> is_function (cm_invalidateMany a))"

definition assertCompleteCacheVersioning :: "cache_methods \<Rightarrow> unit res" where
  "assertCompleteCacheVersioning a =
     (let methods = [cm_getManyVersioned a, cm_setManyVersioned a, cm_invalidateMany a];
          present = length (filter (\<lambda>m. m \<noteq> Undef) methods)
      in if present \<noteq> 0 \<and> present \<noteq> length methods then Inl ActiveTsValidationError else Inr ())"

fun normalizeCacheVersion :: "jsval \<Rightarrow> string res" where
  "normalizeCacheVersion (Str value) =
     (if value = [] \<or> nul \<in> set value then Inl ActiveTsValidationError else Inr value)"
| "normalizeCacheVersion _ = Inl ActiveTsValidationError"

definition ownDataValue :: "jsval \<Rightarrow> string \<Rightarrow> jsval res" where
  "ownDataValue value property = (case own_prop value property of
     None \<Rightarrow> Inl ActiveTsValidationError
   | Some p \<Rightarrow> if \<not> is_data p \<or> \<not> enumerable p then Inl ActiveTsValidationError else Inr (prop_val p))"

definition snapshotExactArray :: "jsval \<Rightarrow> jsval list res" where
  "snapshotExactArray value =
     rbind (snapshotArrayInput value) (\<lambda>items.
     rbind (reach (\<lambda>property.
         if property = ''length'' then Inr ()
         else if \<not> isArrayIndexProperty property (length items) then Inl ActiveTsValidationError
         else Inr ()) (own_names value)) (\<lambda>_. Inr items))"

definition versioned_row :: "jsval \<Rightarrow> (jsval \<times> string) res" where
  "versioned_row row =
     (if \<not> is_object row \<or> is_array row then Inl ActiveTsValidationError
      else if \<not> is_plain_object row then Inl ActiveTsValidationError
      else if own_symbols row \<noteq> [] then Inl ActiveTsValidationError
      else rbind (reach (\<lambda>property. if property \<noteq> ''value'' \<and> property \<noteq> ''version''
              then Inl ActiveTsValidationError else Inr ()) (own_names row)) (\<lambda>_.
        rbind (ownDataValue row ''value'') (\<lambda>stored.
        rbind (rbind (ownDataValue row ''version'') normalizeCacheVersion) (\<lambda>version.
        if stored = Undef then Inr (Undef, version)
        else rbind (assertCacheableValue stored) (\<lambda>_.
          rbind (structured_clone stored) (\<lambda>v. Inr (v, version)))))))"

definition normalizeCacheVersionedValues :: "jsval \<Rightarrow> nat \<Rightarrow> (jsval \<times> string) list res" where
  "normalizeCacheVersionedValues value expected =
     rbind (snapshotExactArray value) (\<lambda>rows.
       if length rows \<noteq> expected then Inl ActiveTsValidationError else rlist versioned_row rows)"

fun versioned_entries :: "string list \<Rightarrow> jsval list \<Rightarrow> (string \<times> jsval \<times> string) list res" where
  "versioned_entries keys [] = Inr []"
| "versioned_entries keys (entry # entries) =
     (if \<not> is_array entry \<or> length (slots entry) \<noteq> 3 then Inl ActiveTsValidationError
      else rbind (snapshotExactArray entry) (\<lambda>tuple.
        rbind (assertSafeCacheKey (tuple ! 0)) (\<lambda>key.
        if key \<in> set keys then Inl ActiveTsValidationError
        else rbind (assertCacheableValue (tuple ! 1)) (\<lambda>_.
          rbind (structured_clone (tuple ! 1)) (\<lambda>v.
          rbind (normalizeCacheVersion (tuple ! 2)) (\<lambda>version.
          rbind (versioned_entries (key # keys) entries) (\<lambda>rest. Inr ((key, v, version) # rest))))))))"

definition normalizeCacheVersionedEntries :: "jsval \<Rightarrow> (string \<times> jsval \<times> string) list res" where
  "normalizeCacheVersionedEntries value = rbind (snapshotExactArray value) (versioned_entries [])"

fun boolean_result :: "jsval \<Rightarrow> bool res" where
  "boolean_result (Bool b) = Inr b"
| "boolean_result _ = Inl ActiveTsValidationError"

definition normalizeCacheVersionedSetResult :: "jsval \<Rightarrow> nat \<Rightarrow> bool list res" where
  "normalizeCacheVersionedSetResult value expected =
     rbind (snapshotExactArray value) (\<lambda>results.
       if length results \<noteq> expected then Inl ActiveTsValidationError else rlist boolean_result results)"

section \<open>What is accepted\<close>

lemma supports_versioning_complete: "cacheSupportsVersioning a \<Longrightarrow> assertCompleteCacheVersioning a = Inr ()"
  by (auto simp: cacheSupportsVersioning_def assertCompleteCacheVersioning_def elim!: is_function.elims)

lemma version_Inr: "normalizeCacheVersion v = Inr s \<longleftrightarrow> v = Str s \<and> s \<noteq> [] \<and> nul \<notin> set s"
  by (cases v) auto

lemma cache_key_Inr: "assertSafeCacheKey v = Inr k \<Longrightarrow> v = Str k"
  by (cases v) (simp_all split: if_splits)

lemma versioned_entries_ok:
  "versioned_entries seen input = Inr es \<Longrightarrow>
     distinct (map fst es) \<and> set (map fst es) \<inter> set seen = {}
     \<and> list_all (\<lambda>(k, v, version). assertSafeCacheKey (Str k) = Inr k \<and> row_value v \<and> version \<noteq> []) es"
proof (induction input arbitrary: seen es)
  case (Cons entry input)
  from Cons.prems obtain tuple k v version rest where e:
    "assertSafeCacheKey (tuple ! 0) = Inr k" "k \<notin> set seen" "assertCacheableValue (tuple ! 1) = Inr ()"
    "structured_clone (tuple ! 1) = Inr v" "normalizeCacheVersion (tuple ! 2) = Inr version"
    "versioned_entries (k # seen) input = Inr rest" "es = (k, v, version) # rest"
    by (auto simp: rbind_Inr_iff split: if_splits)
  have "row_value v" using cacheable_clone [OF e(3)] e(4) by simp
  moreover have "assertSafeCacheKey (Str k) = Inr k" using e(1) cache_key_Inr by metis
  ultimately show ?case using Cons.IH [OF e(6)] e(2,5,7) by (auto simp: version_Inr simp del: assertSafeCacheKey.simps)
qed simp

text \<open>What the versioned protocol accepts from an adapter or a caller is well-typed: entries have distinct,
  admissible keys, values that are plain data copied from the input, and a version that is not empty.\<close>

lemma versioned_entries_well_typed:
  assumes "normalizeCacheVersionedEntries value = Inr es"
  shows "distinct (map fst es)
     \<and> list_all (\<lambda>(k, v, version). assertSafeCacheKey (Str k) = Inr k \<and> row_value v \<and> version \<noteq> []) es"
  using assms versioned_entries_ok [of "[]"] by (auto simp: normalizeCacheVersionedEntries_def rbind_Inr_iff simp del: assertSafeCacheKey.simps)

end
