(* ===== verification/Aggregate.thy ===== *)
theory Aggregate
  imports EntityId IsoDate JsFloat
begin

text \<open>
  \<open>src/core/aggregate.ts\<close>: validation of aggregate specifications, the aggregates of a list of rows, and the
  normalisation of a row that a database computed. Numbers are doubles (JsFloat): a sum is a left fold of
  rounded additions, an average is scaled by a power of two and compensated, as in the code. A result object is
  the list of its properties.
\<close>

section \<open>Specifications\<close>

datatype agg_op = AggCount | AggSum | AggAvg | AggMin | AggMax

record AggregateSpec =
  ag_op :: agg_op
  ag_as :: string
  ag_field :: string

definition AGGREGATE_OPERATORS :: "(string \<times> agg_op) list" where
  "AGGREGATE_OPERATORS = [(''count'', AggCount), (''sum'', AggSum), (''avg'', AggAvg), (''min'', AggMin), (''max'', AggMax)]"

definition AGGREGATE_SPEC_KEYS :: "string list" where
  "AGGREGATE_SPEC_KEYS = [''op'', ''as'', ''field'']"

definition assertSafeAggregateAlias :: "jsval \<Rightarrow> string res" where
  "assertSafeAggregateAlias alias =
     rbind (assertSafeFieldPath alias) (\<lambda>safeAlias.
       if CHR ''.'' \<in> set safeAlias then Inl ActiveTsValidationError else Inr safeAlias)"

text \<open>The check that every own property is an enumerable data property, shared by specs and result rows.\<close>

definition plain_properties :: "jsval \<Rightarrow> unit res" where
  "plain_properties v = reach (\<lambda>property. case own_prop v property of
       None \<Rightarrow> Inl ActiveTsValidationError
     | Some p \<Rightarrow>
         if \<not> is_data p then Inl ActiveTsValidationError
         else if \<not> enumerable p then Inl ActiveTsValidationError
         else Inr ()) (own_names v)"

definition assertKnownAggregateSpecKeys :: "jsval \<Rightarrow> unit res" where
  "assertKnownAggregateSpecKeys v = reach (\<lambda>(property, _).
       if property \<notin> set AGGREGATE_SPEC_KEYS then Inl ActiveTsValidationError else Inr ()) (entries_of v)"

definition ownAggregateValue :: "jsval \<Rightarrow> string \<Rightarrow> jsval res" where
  "ownAggregateValue v key = (case own_prop v key of
     None \<Rightarrow> Inr Undef
   | Some p \<Rightarrow>
       if \<not> is_data p then Inl ActiveTsValidationError
       else if \<not> enumerable p then Inl ActiveTsValidationError
       else Inr (prop_val p))"

definition aggregateArrayValues :: "jsval \<Rightarrow> jsval list res" where
  "aggregateArrayValues value =
     (if \<not> is_array value then Inl ActiveTsValidationError
      else if own_symbols value \<noteq> [] then Inl ActiveTsValidationError
      else rbind (assertDenseArrayItems value) (\<lambda>_.
        rlist (\<lambda>slot. case slot of
            None \<Rightarrow> Inl ActiveTsValidationError
          | Some p \<Rightarrow> if \<not> is_data p then Inl ActiveTsValidationError else Inr (prop_val p))
          (slots value)))"

fun aggregate_operator :: "jsval \<Rightarrow> agg_op res" where
  "aggregate_operator (Str s) = (case map_of AGGREGATE_OPERATORS s of
     None \<Rightarrow> Inl ActiveTsValidationError | Some op \<Rightarrow> Inr op)"
| "aggregate_operator _ = Inl ActiveTsValidationError"

text \<open>The body of the loop of \<open>validateAggregateSpecs\<close>; \<open>aliases\<close> are the aliases seen before. A count has no
  field, so its \<open>ag_field\<close> is empty.\<close>

definition validate_spec :: "string list \<Rightarrow> jsval \<Rightarrow> AggregateSpec res" where
  "validate_spec aliases spec =
     (if \<not> is_object spec \<or> is_array spec then Inl ActiveTsValidationError
      else if \<not> is_plain_object spec then Inl ActiveTsValidationError
      else if own_symbols spec \<noteq> [] then Inl ActiveTsValidationError
      else rbind (plain_properties spec) (\<lambda>_.
        rbind (assertKnownAggregateSpecKeys spec) (\<lambda>_.
        rbind (rbind (ownAggregateValue spec ''op'') aggregate_operator) (\<lambda>op.
        rbind (rbind (ownAggregateValue spec ''as'') assertSafeAggregateAlias) (\<lambda>alias.
        if alias \<in> set aliases then Inl ActiveTsValidationError
        else rbind (ownAggregateValue spec ''field'') (\<lambda>rawField.
          if op \<noteq> AggCount \<and> rawField = Undef then Inl ActiveTsValidationError
          else if op = AggCount \<and> rawField \<noteq> Undef then Inl ActiveTsValidationError
          else if op = AggCount then Inr \<lparr>ag_op = op, ag_as = alias, ag_field = []\<rparr>
          else rbind (assertSafeFieldPath rawField) (\<lambda>field.
            Inr \<lparr>ag_op = op, ag_as = alias, ag_field = field\<rparr>)))))))"

fun validate_specs :: "string list \<Rightarrow> jsval list \<Rightarrow> AggregateSpec list res" where
  "validate_specs aliases [] = Inr []"
| "validate_specs aliases (spec # specs) =
     rbind (validate_spec aliases spec) (\<lambda>s.
     rbind (validate_specs (ag_as s # aliases) specs) (\<lambda>ss. Inr (s # ss)))"

definition validateAggregateSpecs :: "jsval \<Rightarrow> AggregateSpec list res" where
  "validateAggregateSpecs specs = rbind (aggregateArrayValues specs) (validate_specs [])"

text \<open>The plain objects that \<open>validateAggregateSpecs\<close> builds, for the functions that validate them again.\<close>

definition operator_name :: "agg_op \<Rightarrow> string" where
  "operator_name op = (case op of AggCount \<Rightarrow> ''count'' | AggSum \<Rightarrow> ''sum'' | AggAvg \<Rightarrow> ''avg''
     | AggMin \<Rightarrow> ''min'' | AggMax \<Rightarrow> ''max'')"

definition spec_value :: "AggregateSpec \<Rightarrow> jsval" where
  "spec_value s = js_object ((''op'', Str (operator_name (ag_op s))) # (''as'', Str (ag_as s)) #
     (if ag_op s = AggCount then [] else [(''field'', Str (ag_field s))]))"

definition specs_value :: "AggregateSpec list \<Rightarrow> jsval" where
  "specs_value ss = js_array (map spec_value ss)"

definition assertAggregateSpecsCompatibleWithModel ::
    "(string \<times> string) list \<Rightarrow> jsval \<Rightarrow> AggregateSpec list res" where
  "assertAggregateSpecsCompatibleWithModel fieldTypes specs =
     rbind (validateAggregateSpecs specs) (\<lambda>safeSpecs.
     rbind (reach (\<lambda>spec.
        if ag_op spec = AggCount then Inr ()
        else let type = map_of fieldTypes (ag_field spec) in
          if (ag_op spec = AggSum \<or> ag_op spec = AggAvg) \<and> type \<noteq> None \<and> type \<noteq> Some ''number''
            then Inl ActiveTsValidationError
          else if (ag_op spec = AggMin \<or> ag_op spec = AggMax) \<and> type = Some ''boolean''
            then Inl ActiveTsValidationError
          else Inr ()) safeSpecs) (\<lambda>_. Inr safeSpecs))"

section \<open>Defaults\<close>

definition defaultAggregateValueFromSpec :: "AggregateSpec \<Rightarrow> jsval" where
  "defaultAggregateValueFromSpec spec = (if ag_op spec = AggCount \<or> ag_op spec = AggSum then js_int 0 else Null)"

definition defaultAggregateValue :: "AggregateSpec \<Rightarrow> jsval res" where
  "defaultAggregateValue spec =
     rbind (validateAggregateSpecs (specs_value [spec])) (\<lambda>ss. Inr (defaultAggregateValueFromSpec (ss ! 0)))"

type_synonym agg_result = "(string \<times> jsprop) list"

definition defaultAggregateResultFromSpecs :: "AggregateSpec list \<Rightarrow> agg_result" where
  "defaultAggregateResultFromSpecs specs =
     fold (\<lambda>spec. put_prop (ag_as spec) (dataP (defaultAggregateValueFromSpec spec))) specs []"

definition defaultAggregateResult :: "jsval \<Rightarrow> agg_result res" where
  "defaultAggregateResult specs = rbind (validateAggregateSpecs specs) (\<lambda>ss. Inr (defaultAggregateResultFromSpecs ss))"

section \<open>Values\<close>

text \<open>\<open>valueFor\<close> of this file.\<close>

fun aggregate_value_at :: "jsval \<Rightarrow> string list \<Rightarrow> jsval res" where
  "aggregate_value_at current [] = Inr current"
| "aggregate_value_at current (key # keys) =
     (if \<not> is_object current \<or> \<not> has_own current key then Inr Undef
      else case own_prop current key of
        None \<Rightarrow> Inl ActiveTsValidationError
      | Some p \<Rightarrow>
          if \<not> is_data p then Inl ActiveTsValidationError
          else if \<not> enumerable p then Inl ActiveTsValidationError
          else aggregate_value_at (prop_val p) keys)"

definition aggregateValueFor :: "jsval \<Rightarrow> string \<Rightarrow> jsval res" where
  "aggregateValueFor data field =
     rbind (assertSafeFieldPath (Str field)) (\<lambda>_. aggregate_value_at data (split_on CHR ''.'' field))"

fun numberValue :: "jsval \<Rightarrow> jsnum res" where
  "numberValue (Num n) = (if is_finite n then Inr n else Inl ActiveTsValidationError)"
| "numberValue _ = Inl ActiveTsValidationError"

definition assertPlainAggregateDate :: "jsval \<Rightarrow> unit res" where
  "assertPlainAggregateDate value =
     (if own_symbols value \<noteq> [] then Inl ActiveTsValidationError
      else if own_names value \<noteq> [] then Inl ActiveTsValidationError
      else Inr ())"

definition comparableValue :: "jsval \<Rightarrow> jsval res" where
  "comparableValue value =
     (case value of
        Num n \<Rightarrow> if is_finite n then Inr value else Inl ActiveTsValidationError
      | Str _ \<Rightarrow> Inr value
      | _ \<Rightarrow>
          if is_date value then
            (if dateTime value = None then Inl ActiveTsValidationError
             else rbind (assertPlainAggregateDate value) (\<lambda>_. Inr value))
          else Inl ActiveTsValidationError)"

definition aggregateComparableKind :: "jsval \<Rightarrow> string" where
  "aggregateComparableKind value = (if is_date value then ''date'' else js_typeof value)"

text \<open>The sign of the comparison; for dates the code returns the difference of two time values.\<close>

definition compareComparableValues :: "jsval \<Rightarrow> jsval \<Rightarrow> int res" where
  "compareComparableValues left right =
     (if aggregateComparableKind left \<noteq> aggregateComparableKind right then Inl ActiveTsValidationError
      else case (dateTime left, dateTime right) of
        (Some a, Some b) \<Rightarrow> Inr (a - b)
      | _ \<Rightarrow> (case (left, right) of
          (Num a, Num b) \<Rightarrow> Inr (if num_less a b then - 1 else if num_less b a then 1 else 0)
        | (Str a, Str b) \<Rightarrow> Inr (if a < b then - 1 else if b < a then 1 else 0)
        | _ \<Rightarrow> Inr 0))"

section \<open>Aggregates of rows\<close>

record avg_state =
  av_sum :: jsnum
  av_correction :: jsnum
  av_remainder :: jsnum
  av_count :: nat

definition no_avg_state :: avg_state where
  "no_avg_state = \<lparr>av_sum = Fin 0, av_correction = Fin 0, av_remainder = Fin 0, av_count = 0\<rparr>"

text \<open>\<open>2 ** Math.ceil(Math.log2(Math.max(1, n)))\<close>.\<close>

definition averageScale :: "nat \<Rightarrow> jsnum" where
  "averageScale n = Fin (pow2 (bitlen (int (max 1 n) - 1)))"

definition avg_step :: "jsnum \<Rightarrow> jsnum \<Rightarrow> avg_state \<Rightarrow> avg_state" where
  "avg_step scale numeric state =
     (let term = num_div numeric scale;
          remainder = num_add (av_remainder state) (num_sub numeric (num_mul term scale));
          sum = num_add (av_sum state) term;
          correction = num_add (av_correction state)
            (if \<not> num_less (num_abs (av_sum state)) (num_abs term)
             then num_add (num_sub (av_sum state) sum) term
             else num_add (num_sub term sum) (av_sum state))
      in \<lparr>av_sum = sum, av_correction = correction, av_remainder = remainder, av_count = av_count state + 1\<rparr>)"

definition avg_result :: "jsnum \<Rightarrow> avg_state \<Rightarrow> jsnum" where
  "avg_result scale state =
     (let sum = num_mul (num_add (av_sum state) (av_correction state)) scale;
          cnt = num_of_int (int (av_count state))
      in if is_finite sum then num_div (num_add sum (av_remainder state)) cnt
         else num_add (num_mul (num_add (num_div (av_sum state) cnt) (num_div (av_correction state) cnt)) scale)
                      (num_div (av_remainder state) cnt))"

type_synonym agg_state = "agg_result \<times> (string \<times> avg_state) list"

definition result_value :: "agg_result \<Rightarrow> string \<Rightarrow> jsval" where
  "result_value result alias = (case map_of result alias of None \<Rightarrow> Undef | Some p \<Rightarrow> prop_val p)"

definition set_result :: "string \<Rightarrow> jsval \<Rightarrow> agg_result \<Rightarrow> agg_result" where
  "set_result alias v result = put_prop alias (dataP v) result"

text \<open>\<open>Number(result[spec.as] ?? 0)\<close>: the running sum is a number.\<close>

definition running_sum :: "agg_result \<Rightarrow> string \<Rightarrow> jsnum" where
  "running_sum result alias = (case result_value result alias of Num n \<Rightarrow> n | _ \<Rightarrow> Fin 0)"

definition extreme_step :: "AggregateSpec \<Rightarrow> jsval \<Rightarrow> agg_state \<Rightarrow> agg_state res" where
  "extreme_step spec value st =
     (case st of (result, avgState) \<Rightarrow>
       rbind (comparableValue value) (\<lambda>comparable.
       if result_value result (ag_as spec) = Null then Inr (set_result (ag_as spec) comparable result, avgState)
       else rbind (comparableValue (result_value result (ag_as spec))) (\<lambda>current.
         rbind (compareComparableValues comparable current) (\<lambda>c.
         if (if ag_op spec = AggMin then c < 0 else 0 < c)
         then Inr (set_result (ag_as spec) comparable result, avgState) else Inr st))))"

definition aggregate_row :: "jsnum \<Rightarrow> AggregateSpec \<Rightarrow> jsval \<Rightarrow> agg_state \<Rightarrow> agg_state res" where
  "aggregate_row scale spec row st =
     rbind (aggregateValueFor row (ag_field spec)) (\<lambda>value.
     if value = Undef \<or> value = Null then Inr st
     else case st of (result, avgState) \<Rightarrow> (case ag_op spec of
         AggSum \<Rightarrow> rbind (numberValue value) (\<lambda>n.
           Inr (set_result (ag_as spec) (Num (num_add (running_sum result (ag_as spec)) n)) result, avgState))
       | AggAvg \<Rightarrow>
           let state = (case map_of avgState (ag_as spec) of None \<Rightarrow> no_avg_state | Some s \<Rightarrow> s) in
           rbind (numberValue value) (\<lambda>n.
           Inr (result, AList.update (ag_as spec) (avg_step scale n state) avgState))
       | _ \<Rightarrow> extreme_step spec value st))"

fun rfold :: "('a \<Rightarrow> 's \<Rightarrow> 's res) \<Rightarrow> 'a list \<Rightarrow> 's \<Rightarrow> 's res" where
  "rfold f [] s = Inr s"
| "rfold f (x # xs) s = rbind (f x s) (rfold f xs)"

definition aggregate_spec :: "jsval list \<Rightarrow> jsnum \<Rightarrow> AggregateSpec \<Rightarrow> agg_state \<Rightarrow> agg_state res" where
  "aggregate_spec rows scale spec st =
     (if ag_op spec = AggCount
      then Inr (set_result (ag_as spec) (js_int (int (length rows))) (fst st), snd st)
      else rfold (aggregate_row scale spec) rows st)"

definition finish_averages :: "jsnum \<Rightarrow> agg_state \<Rightarrow> agg_result" where
  "finish_averages scale st =
     fold (\<lambda>(alias, state). set_result alias (Num (avg_result scale state))) (snd st) (fst st)"

definition aggregateRows :: "jsval \<Rightarrow> jsval \<Rightarrow> agg_result res" where
  "aggregateRows rows specs =
     rbind (aggregateArrayValues rows) (\<lambda>safeRows.
     rbind (validateAggregateSpecs specs) (\<lambda>safeSpecs.
     rbind (defaultAggregateResult (specs_value safeSpecs)) (\<lambda>result.
     let scale = averageScale (length safeRows) in
     rbind (rfold (aggregate_spec safeRows scale) safeSpecs (result, [])) (\<lambda>st.
     Inr (finish_averages scale st)))))"

section \<open>Results of a database\<close>

definition assertPlainAggregateResultRow :: "jsval \<Rightarrow> unit res" where
  "assertPlainAggregateResultRow row =
     (if \<not> is_object row \<or> is_array row then Inl ActiveTsValidationError
      else if \<not> is_plain_object row then Inl ActiveTsValidationError
      else if own_symbols row \<noteq> [] then Inl ActiveTsValidationError
      else plain_properties row)"

definition assertKnownAggregateResultKeys :: "jsval \<Rightarrow> AggregateSpec list \<Rightarrow> unit res" where
  "assertKnownAggregateResultKeys row specs = reach (\<lambda>(property, _).
       if property \<notin> set (map ag_as specs) then Inl ActiveTsValidationError else Inr ()) (entries_of row)"

definition ownAggregateResultValue :: "jsval \<Rightarrow> string \<Rightarrow> jsval res" where
  "ownAggregateResultValue row key = (case own_prop row key of
     None \<Rightarrow> Inr Undef
   | Some p \<Rightarrow>
       if \<not> is_data p then Inl ActiveTsValidationError
       else if \<not> enumerable p then Inl ActiveTsValidationError
       else Inr (prop_val p))"

text \<open>The regular expression \<open>NUMERIC_RESULT\<close>.\<close>

definition unsign :: "string \<Rightarrow> string" where
  "unsign s = (case s of [] \<Rightarrow> [] | c # t \<Rightarrow> if c = CHR ''+'' \<or> c = CHR ''-'' then t else s)"

definition all_digits :: "string \<Rightarrow> bool" where
  "all_digits s = (s \<noteq> [] \<and> list_all is_digit s)"

definition NUMERIC_RESULT :: "string \<Rightarrow> bool" where
  "NUMERIC_RESULT s =
     (let body = unsign s; m = takeWhile (\<lambda>c. \<not> exponent_char c) body; e = drop (length m) body in
      (all_digits m \<or> (let f = dropWhile is_digit m in f \<noteq> [] \<and> hd f = CHR ''.'' \<and> all_digits (tl f)))
      \<and> (e = [] \<or> all_digits (unsign (tl e))))"

text \<open>\<open>Number\<close> of a string: the exact value, rounded.\<close>

definition js_number_rounded :: "string \<Rightarrow> jsnum" where
  "js_number_rounded s = (case js_number s of Fin q \<Rightarrow> nearest_double q | n \<Rightarrow> n)"

definition numericAggregateResult :: "jsval \<Rightarrow> AggregateSpec \<Rightarrow> jsval res" where
  "numericAggregateResult value spec =
     rbind (case value of
         Num n \<Rightarrow> Inr n
       | Str s \<Rightarrow> if NUMERIC_RESULT s then Inr (js_number_rounded s) else Inl ActiveTsValidationError
       | _ \<Rightarrow> Inl ActiveTsValidationError) (\<lambda>numeric.
     if \<not> is_finite numeric then Inl ActiveTsValidationError
     else if ag_op spec = AggCount \<and> (\<not> is_safe_integer numeric \<or> num_value numeric < 0) then Inl ActiveTsValidationError
     else Inr (Num numeric))"

definition normalize_result_value :: "jsval \<Rightarrow> AggregateSpec \<Rightarrow> agg_result \<Rightarrow> agg_result res" where
  "normalize_result_value row spec result =
     rbind (if is_object row then ownAggregateResultValue row (ag_as spec) else Inr Undef) (\<lambda>value.
     if value = Undef \<or> value = Null then Inr result
     else rbind (if ag_op spec = AggMin \<or> ag_op spec = AggMax then comparableValue value
                 else numericAggregateResult value spec) (\<lambda>v. Inr (set_result (ag_as spec) v result)))"

definition normalizeAggregateResult :: "jsval \<Rightarrow> jsval \<Rightarrow> agg_result res" where
  "normalizeAggregateResult row specs =
     rbind (validateAggregateSpecs specs) (\<lambda>safeSpecs.
     rbind (if row \<noteq> Undef \<and> row \<noteq> Null
            then rbind (assertPlainAggregateResultRow row) (\<lambda>_. assertKnownAggregateResultKeys row safeSpecs)
            else Inr ()) (\<lambda>_.
     rfold (normalize_result_value row) safeSpecs (defaultAggregateResultFromSpecs safeSpecs)))"

definition own_result_step :: "jsval \<Rightarrow> AggregateSpec \<Rightarrow> agg_result \<Rightarrow> agg_result res" where
  "own_result_step row spec own =
     rbind (ownAggregateResultValue row (ag_as spec)) (\<lambda>v. Inr (put_prop (ag_as spec) (dataP v) own))"

definition normalizeAggregateRow :: "jsval \<Rightarrow> jsval \<Rightarrow> agg_result res" where
  "normalizeAggregateRow row specs =
     (if row = Undef then normalizeAggregateResult Undef specs
      else rbind (assertPlainAggregateResultRow row) (\<lambda>_.
        rbind (validateAggregateSpecs specs) (\<lambda>safeSpecs.
        rbind (assertKnownAggregateResultKeys row safeSpecs) (\<lambda>_.
        rbind (rfold (own_result_step row) safeSpecs []) (\<lambda>own.
        normalizeAggregateResult (Obj CPlain own []) (specs_value safeSpecs))))))"

section \<open>Validated specifications\<close>

lemma aggregateArrayValues_snapshot: "aggregateArrayValues = snapshotArrayInput"
  by (simp add: aggregateArrayValues_def snapshotArrayInput_def fun_eq_iff)

lemma aggregate_js_array [simp]: "aggregateArrayValues (js_array vs) = Inr vs"
  by (simp add: aggregateArrayValues_snapshot)

lemma safe_path_same: "assertSafeFieldPath v = Inr f \<Longrightarrow> v = Str f"
  by (cases v) (auto simp: rbind_Inr_iff split: if_splits)

lemma alias_same: "assertSafeAggregateAlias v = Inr a \<Longrightarrow> v = Str a"
  by (auto simp: assertSafeAggregateAlias_def rbind_Inr_iff split: if_splits dest: safe_path_same)

lemma path_again: "assertSafeFieldPath v = Inr f \<Longrightarrow> assertSafeFieldPath (Str f) = Inr f"
  using safe_path_same by metis

lemma alias_again: "assertSafeAggregateAlias v = Inr a \<Longrightarrow> assertSafeAggregateAlias (Str a) = Inr a"
  using alias_same by metis

definition spec_ok :: "AggregateSpec \<Rightarrow> bool" where
  "spec_ok s = (assertSafeAggregateAlias (Str (ag_as s)) = Inr (ag_as s)
     \<and> (if ag_op s = AggCount then ag_field s = [] else assertSafeFieldPath (Str (ag_field s)) = Inr (ag_field s)))"

lemma validate_spec_ok: "validate_spec aliases v = Inr s \<Longrightarrow> spec_ok s \<and> ag_as s \<notin> set aliases"
  by (auto simp: validate_spec_def rbind_Inr_iff spec_ok_def split: if_splits
      intro: path_again alias_again simp del: assertSafeFieldPath.simps)

lemma operator_name_back: "aggregate_operator (Str (operator_name op)) = Inr op"
  by (cases op) (simp_all add: operator_name_def AGGREGATE_OPERATORS_def)

lemma spec_value_parts:
  "is_object (spec_value s)" "\<not> is_array (spec_value s)" "is_plain_object (spec_value s)" "own_symbols (spec_value s) = []"
  "plain_properties (spec_value s) = Inr ()" "assertKnownAggregateSpecKeys (spec_value s) = Inr ()"
  "ownAggregateValue (spec_value s) ''op'' = Inr (Str (operator_name (ag_op s)))"
  "ownAggregateValue (spec_value s) ''as'' = Inr (Str (ag_as s))"
  "ownAggregateValue (spec_value s) ''field'' = Inr (if ag_op s = AggCount then Undef else Str (ag_field s))"
  by (simp_all add: spec_value_def js_object_def plain_properties_def assertKnownAggregateSpecKeys_def
      entries_of_def List.map_filter_def AGGREGATE_SPEC_KEYS_def ownAggregateValue_def dataP_def)

lemma validate_spec_again:
  "spec_ok s \<Longrightarrow> ag_as s \<notin> set aliases \<Longrightarrow> validate_spec aliases (spec_value s) = Inr s"
  by (cases s) (auto simp: validate_spec_def spec_value_parts operator_name_back spec_ok_def split: if_splits
      simp del: assertSafeFieldPath.simps aggregate_operator.simps)

lemma validate_specs_ok:
  "validate_specs aliases vs = Inr ss \<Longrightarrow>
     list_all spec_ok ss \<and> distinct (map ag_as ss) \<and> set (map ag_as ss) \<inter> set aliases = {}"
  by (induction aliases vs arbitrary: ss rule: validate_specs.induct)
    (force simp: rbind_Inr_iff dest: validate_spec_ok)+

lemma validate_specs_again:
  "list_all spec_ok ss \<Longrightarrow> distinct (map ag_as ss) \<Longrightarrow> set (map ag_as ss) \<inter> set aliases = {} \<Longrightarrow>
     validate_specs aliases (map spec_value ss) = Inr ss"
  by (induction ss arbitrary: aliases) (simp_all add: validate_spec_again)

lemma validate_ok:
  assumes "validateAggregateSpecs specs = Inr ss"
  shows "list_all spec_ok ss" "distinct (map ag_as ss)" "validateAggregateSpecs (specs_value ss) = Inr ss"
proof -
  from assms obtain vs where "validate_specs [] vs = Inr ss"
    by (auto simp: validateAggregateSpecs_def rbind_Inr_iff)
  from validate_specs_ok [OF this] show "list_all spec_ok ss" "distinct (map ag_as ss)" by simp_all
  then show "validateAggregateSpecs (specs_value ss) = Inr ss"
    by (simp add: validateAggregateSpecs_def specs_value_def validate_specs_again)
qed

section \<open>One alias at a time\<close>

text \<open>What the loops know of one alias: its value so far and its average.\<close>

definition view :: "string \<Rightarrow> agg_state \<Rightarrow> jsval \<times> avg_state option" where
  "view alias st = (result_value (fst st) alias, map_of (snd st) alias)"

definition extreme_view :: "agg_op \<Rightarrow> jsval \<Rightarrow> jsval \<Rightarrow> jsval res" where
  "extreme_view op value r =
     rbind (comparableValue value) (\<lambda>comparable.
     if r = Null then Inr comparable
     else rbind (comparableValue r) (\<lambda>current.
       rbind (compareComparableValues comparable current) (\<lambda>c.
       if (if op = AggMin then c < 0 else 0 < c) then Inr comparable else Inr r)))"

definition view_step :: "jsnum \<Rightarrow> agg_op \<Rightarrow> jsval \<Rightarrow> jsval \<times> avg_state option \<Rightarrow> (jsval \<times> avg_state option) res" where
  "view_step scale op value ra =
     (case ra of (r, a) \<Rightarrow>
       if value = Undef \<or> value = Null then Inr (r, a)
       else case op of
         AggSum \<Rightarrow> rbind (numberValue value) (\<lambda>n. Inr (Num (num_add (case r of Num m \<Rightarrow> m | _ \<Rightarrow> Fin 0) n), a))
       | AggAvg \<Rightarrow> rbind (numberValue value) (\<lambda>n.
           Inr (r, Some (avg_step scale n (case a of None \<Rightarrow> no_avg_state | Some s \<Rightarrow> s))))
       | _ \<Rightarrow> rbind (extreme_view op value r) (\<lambda>v. Inr (v, a)))"

lemma result_value_set [simp]:
  "result_value (set_result alias v result) b = (if b = alias then v else result_value result b)"
  by (simp add: result_value_def set_result_def map_simps)

lemma extreme_step_view:
  assumes "extreme_step spec value st = Inr st'"
  obtains v where "extreme_view (ag_op spec) value (result_value (fst st) (ag_as spec)) = Inr v"
    "view (ag_as spec) st' = (v, map_of (snd st) (ag_as spec))" "\<And>b. b \<noteq> ag_as spec \<Longrightarrow> view b st' = view b st"
    "snd st' = snd st"
proof -
  obtain result avgs where st: "st = (result, avgs)" by (cases st)
  let ?r = "result_value result (ag_as spec)"
  from assms obtain c where c: "comparableValue value = Inr c" by (auto simp: extreme_step_def st rbind_Inr_iff)
  let ?new = "(set_result (ag_as spec) c result, avgs)"
  have new: "view (ag_as spec) ?new = (c, map_of avgs (ag_as spec))" "view b ?new = view b st" if "b \<noteq> ag_as spec" for b
    using that by (simp_all add: view_def st)
  have old: "view (ag_as spec) st = (?r, map_of avgs (ag_as spec))" by (simp add: view_def st)
  show thesis
  proof (cases "?r = Null")
    case True
    with assms c have st': "st' = ?new" by (simp add: extreme_step_def st)
    show thesis by (rule that [of c]) (use c True new in \<open>auto simp: extreme_view_def st' st view_def\<close>)
  next
    case False
    with assms c obtain cur k where k: "comparableValue ?r = Inr cur" "compareComparableValues c cur = Inr k"
      and st': "st' = (if (if ag_op spec = AggMin then k < 0 else 0 < k) then ?new else st)"
      by (auto simp: extreme_step_def st rbind_Inr_iff split: if_splits)
    show thesis
      by (rule that [of "if (if ag_op spec = AggMin then k < 0 else 0 < k) then c else ?r"])
        (use c k False new old in \<open>auto simp: extreme_view_def st' st view_def\<close>)
  qed
qed

lemma aggregate_row_view:
  assumes "aggregate_row scale spec row st = Inr st'" and "distinct (map fst (snd st))"
  shows "\<exists>v. aggregateValueFor row (ag_field spec) = Inr v
      \<and> view_step scale (ag_op spec) v (view (ag_as spec) st) = Inr (view (ag_as spec) st')"
    and "b \<noteq> ag_as spec \<Longrightarrow> view b st' = view b st"
    and "distinct (map fst (snd st'))"
proof -
  obtain result avgs where st: "st = (result, avgs)" by (cases st)
  from assms(1) obtain v where v: "aggregateValueFor row (ag_field spec) = Inr v"
    and step: "(if v = Undef \<or> v = Null then Inr st else aggregate_row scale spec row st) = Inr st'"
    by (auto simp: aggregate_row_def rbind_Inr_iff split: if_splits)
  have "view_step scale (ag_op spec) v (view (ag_as spec) st) = Inr (view (ag_as spec) st')
      \<and> (b \<noteq> ag_as spec \<longrightarrow> view b st' = view b st) \<and> distinct (map fst (snd st'))"
  proof (cases "v = Undef \<or> v = Null")
    case True
    with step assms(2) show ?thesis by (auto simp: view_step_def view_def)
  next
    case False
    consider "ag_op spec = AggSum" | "ag_op spec = AggAvg" | (other) "ag_op spec \<noteq> AggSum" "ag_op spec \<noteq> AggAvg"
      by blast
    then show ?thesis
    proof cases
      case 1
      with False assms(1) v st obtain n where "numberValue v = Inr n"
        and "st' = (set_result (ag_as spec) (Num (num_add (running_sum result (ag_as spec)) n)) result, avgs)"
        by (auto simp: aggregate_row_def rbind_Inr_iff)
      with False 1 st assms(2) show ?thesis by (simp add: view_step_def view_def running_sum_def)
    next
      case 2
      with False assms(1) v st obtain n where "numberValue v = Inr n"
        and "st' = (result, AList.update (ag_as spec)
          (avg_step scale n (case map_of avgs (ag_as spec) of None \<Rightarrow> no_avg_state | Some s \<Rightarrow> s)) avgs)"
        by (auto simp: aggregate_row_def rbind_Inr_iff Let_def)
      with False 2 st assms(2) show ?thesis by (simp add: view_step_def view_def map_simps)
    next
      case other
      with False assms(1) v st have x: "extreme_step spec v st = Inr st'"
        by (cases "ag_op spec") (simp_all add: aggregate_row_def)
      from extreme_step_view [OF x] obtain w where
        "extreme_view (ag_op spec) v (result_value (fst st) (ag_as spec)) = Inr w"
        "view (ag_as spec) st' = (w, map_of (snd st) (ag_as spec))"
        "\<And>b. b \<noteq> ag_as spec \<Longrightarrow> view b st' = view b st" "snd st' = snd st" by blast
      with False other assms(2) show ?thesis
        by (cases "ag_op spec") (simp_all add: view_step_def view_def)
    qed
  qed
  with v show "\<exists>v. aggregateValueFor row (ag_field spec) = Inr v
      \<and> view_step scale (ag_op spec) v (view (ag_as spec) st) = Inr (view (ag_as spec) st')"
    and "b \<noteq> ag_as spec \<Longrightarrow> view b st' = view b st"
    and "distinct (map fst (snd st'))" by auto
qed

lemma aggregate_rows_view:
  assumes "rfold (aggregate_row scale spec) rows st = Inr st'" and "distinct (map fst (snd st))"
  obtains vs where "list_all2 (\<lambda>row v. aggregateValueFor row (ag_field spec) = Inr v) rows vs"
    "rfold (view_step scale (ag_op spec)) vs (view (ag_as spec) st) = Inr (view (ag_as spec) st')"
    "\<And>b. b \<noteq> ag_as spec \<Longrightarrow> view b st' = view b st" "distinct (map fst (snd st'))"
  using assms
proof (induction rows arbitrary: st thesis)
  case Nil
  then show ?case by simp
next
  case (Cons row rows)
  from Cons.prems(2) obtain st1 where 1: "aggregate_row scale spec row st = Inr st1"
    "rfold (aggregate_row scale spec) rows st1 = Inr st'" by (auto simp: rbind_Inr_iff)
  note r = aggregate_row_view [OF 1(1) Cons.prems(3)]
  from r(1) obtain v where v: "aggregateValueFor row (ag_field spec) = Inr v"
    "view_step scale (ag_op spec) v (view (ag_as spec) st) = Inr (view (ag_as spec) st1)" by blast
  from Cons.IH [OF _ 1(2) r(3)] obtain vs where vs: "list_all2 (\<lambda>row v. aggregateValueFor row (ag_field spec) = Inr v) rows vs"
    "rfold (view_step scale (ag_op spec)) vs (view (ag_as spec) st1) = Inr (view (ag_as spec) st')"
    "\<And>b. b \<noteq> ag_as spec \<Longrightarrow> view b st' = view b st1" "distinct (map fst (snd st'))" by blast
  show ?case
    by (rule Cons.prems(1) [of "v # vs"]) (use v vs r(2) in auto)
qed

lemma count_view:
  "ag_op spec = AggCount \<Longrightarrow> aggregate_spec rows scale spec st = Inr st' \<Longrightarrow>
     snd st' = snd st \<and> view (ag_as spec) st' = (js_int (int (length rows)), map_of (snd st) (ag_as spec))
     \<and> (\<forall>b. b \<noteq> ag_as spec \<longrightarrow> view b st' = view b st)"
  by (auto simp: aggregate_spec_def view_def)

lemma aggregate_spec_frame:
  assumes "aggregate_spec rows scale spec st = Inr st'" and "distinct (map fst (snd st))"
  shows "distinct (map fst (snd st'))" "b \<noteq> ag_as spec \<Longrightarrow> view b st' = view b st"
proof -
  have "distinct (map fst (snd st')) \<and> (b \<noteq> ag_as spec \<longrightarrow> view b st' = view b st)"
  proof (cases "ag_op spec = AggCount")
    case True
    from count_view [OF this assms(1)] assms(2) show ?thesis by simp
  next
    case False
    with assms(1) have "rfold (aggregate_row scale spec) rows st = Inr st'" by (simp add: aggregate_spec_def)
    from aggregate_rows_view [OF this assms(2)] show ?thesis by metis
  qed
  then show "distinct (map fst (snd st'))" "b \<noteq> ag_as spec \<Longrightarrow> view b st' = view b st" by auto
qed

lemma specs_frame:
  assumes "rfold (aggregate_spec rows scale) ss st = Inr st'" and "distinct (map fst (snd st))"
  shows "distinct (map fst (snd st'))" "b \<notin> ag_as ` set ss \<Longrightarrow> view b st' = view b st"
  using assms
proof (induction ss arbitrary: st)
  case (Cons s ss)
  {
    case 1
    then obtain st1 where "aggregate_spec rows scale s st = Inr st1" "rfold (aggregate_spec rows scale) ss st1 = Inr st'"
      by (auto simp: rbind_Inr_iff)
    with Cons.IH(1) aggregate_spec_frame(1) 1(2) show ?case by blast
  next
    case 2
    then obtain st1 where st1: "aggregate_spec rows scale s st = Inr st1" "rfold (aggregate_spec rows scale) ss st1 = Inr st'"
      by (auto simp: rbind_Inr_iff)
    from aggregate_spec_frame [OF st1(1) 2(3)] Cons.IH(2) [OF _ st1(2)] 2(1) show ?case by simp
  }
qed simp_all

text \<open>Processing a list of specs computes each of them from its own default.\<close>

lemma specs_member:
  assumes "rfold (aggregate_spec rows scale) ss st = Inr st'" and "distinct (map fst (snd st))"
    and "distinct (map ag_as ss)" and "spec \<in> set ss"
  obtains st1 st2 where "aggregate_spec rows scale spec st1 = Inr st2" "distinct (map fst (snd st1))"
    "view (ag_as spec) st1 = view (ag_as spec) st" "view (ag_as spec) st' = view (ag_as spec) st2"
  using assms
proof (induction ss arbitrary: st thesis)
  case (Cons s ss)
  from Cons.prems(2) obtain st1 where st1: "aggregate_spec rows scale s st = Inr st1" "rfold (aggregate_spec rows scale) ss st1 = Inr st'"
    by (auto simp: rbind_Inr_iff)
  note f = aggregate_spec_frame [OF st1(1) Cons.prems(3)]
  show ?case
  proof (cases "spec = s")
    case True
    with Cons.prems(4) have "ag_as spec \<notin> ag_as ` set ss" by simp
    from specs_frame(2) [OF st1(2) f(1) this] show ?thesis
      using Cons.prems(1) [of st st1] st1(1) Cons.prems(3) True by simp
  next
    case False
    with Cons.prems(4,5) have m: "spec \<in> set ss" "ag_as spec \<noteq> ag_as s" "distinct (map ag_as ss)"
      by (auto simp: image_iff)
    from Cons.IH [OF _ st1(2) f(1) m(3,1)] obtain a b where "aggregate_spec rows scale spec a = Inr b"
      "distinct (map fst (snd a))" "view (ag_as spec) a = view (ag_as spec) st1" "view (ag_as spec) st' = view (ag_as spec) b" by blast
    with f(2) [OF m(2)] show ?thesis using Cons.prems(1) by metis
  qed
qed simp

lemma defaults_fold:
  "distinct (map ag_as ss) \<Longrightarrow> result_value (fold (\<lambda>spec. put_prop (ag_as spec) (dataP (defaultAggregateValueFromSpec spec))) ss r) b
     = (case map_of (map (\<lambda>s. (ag_as s, defaultAggregateValueFromSpec s)) ss) b of None \<Rightarrow> result_value r b | Some v \<Rightarrow> v)"
proof (induction ss arbitrary: r)
  case (Cons s ss)
  then have "map_of (map (\<lambda>s. (ag_as s, defaultAggregateValueFromSpec s)) ss) (ag_as s) = None"
    by (force simp: map_of_eq_None_iff)
  with Cons show ?case by (auto simp: result_value_def map_simps split: option.splits)
qed simp

lemma default_value:
  assumes "distinct (map ag_as ss)" and "spec \<in> set ss"
  shows "result_value (defaultAggregateResultFromSpecs ss) (ag_as spec) = defaultAggregateValueFromSpec spec"
proof -
  have "distinct (map fst (map (\<lambda>s. (ag_as s, defaultAggregateValueFromSpec s)) ss))"
    using assms(1) by (simp add: comp_def)
  then have "map_of (map (\<lambda>s. (ag_as s, defaultAggregateValueFromSpec s)) ss) (ag_as spec) = Some (defaultAggregateValueFromSpec spec)"
    using assms(2) by (force simp: map_of_eq_Some_iff)
  then show ?thesis by (simp add: defaultAggregateResultFromSpecs_def defaults_fold [OF assms(1)])
qed

lemma finish_value:
  assumes "distinct (map fst (snd st))"
  shows "result_value (finish_averages scale st) b =
    (case map_of (snd st) b of None \<Rightarrow> result_value (fst st) b | Some s \<Rightarrow> Num (avg_result scale s))"
proof -
  have "result_value (fold (\<lambda>(alias, state). set_result alias (Num (avg_result scale state))) avs r) b =
    (case map_of avs b of None \<Rightarrow> result_value r b | Some s \<Rightarrow> Num (avg_result scale s))"
    if "distinct (map fst avs)" for avs r
    using that
  proof (induction avs arbitrary: r)
    case (Cons a avs)
    then have "map_of avs (fst a) = None" by (simp add: map_of_eq_None_iff)
    with Cons show ?case by (cases a) (auto split: option.splits)
  qed simp
  then show ?thesis using assms by (simp add: finish_averages_def)
qed

definition final_value :: "jsnum \<Rightarrow> jsval \<times> avg_state option \<Rightarrow> jsval" where
  "final_value scale ra = (case snd ra of None \<Rightarrow> fst ra | Some s \<Rightarrow> Num (avg_result scale s))"

lemma aggregateRows_view:
  assumes "aggregateRows (js_array rows) specs = Inr r" and "validateAggregateSpecs specs = Inr ss" and "spec \<in> set ss"
    and "ag_op spec \<noteq> AggCount"
  obtains vs ra where "list_all2 (\<lambda>row v. aggregateValueFor row (ag_field spec) = Inr v) rows vs"
    "rfold (view_step (averageScale (length rows)) (ag_op spec)) vs (defaultAggregateValueFromSpec spec, None) = Inr ra"
    "result_value r (ag_as spec) = final_value (averageScale (length rows)) ra"
proof -
  note ok = validate_ok [OF assms(2)]
  let ?scale = "averageScale (length rows)"
  from assms(1,2) ok(3) obtain st where st: "rfold (aggregate_spec rows ?scale) ss (defaultAggregateResultFromSpecs ss, []) = Inr st"
    and r: "r = finish_averages ?scale st"
    by (auto simp: aggregateRows_def rbind_Inr_iff defaultAggregateResult_def Let_def)
  have d: "distinct (map fst (snd (defaultAggregateResultFromSpecs ss, [])))" by simp
  from specs_member [OF st d ok(2) assms(3)] obtain st1 st2 where
    s: "aggregate_spec rows ?scale spec st1 = Inr st2" "distinct (map fst (snd st1))"
      "view (ag_as spec) st1 = view (ag_as spec) (defaultAggregateResultFromSpecs ss, [])"
      "view (ag_as spec) st = view (ag_as spec) st2" by blast
  have "rfold (aggregate_row ?scale spec) rows st1 = Inr st2"
    using s(1) assms(4) by (simp add: aggregate_spec_def)
  from aggregate_rows_view [OF this s(2)] obtain vs where
    vs: "list_all2 (\<lambda>row v. aggregateValueFor row (ag_field spec) = Inr v) rows vs"
    "rfold (view_step ?scale (ag_op spec)) vs (view (ag_as spec) st1) = Inr (view (ag_as spec) st2)" by blast
  have "view (ag_as spec) st1 = (defaultAggregateValueFromSpec spec, None)"
    using s(3) default_value [OF ok(2) assms(3)] by (simp add: view_def)
  moreover have "result_value r (ag_as spec) = final_value ?scale (view (ag_as spec) st)"
    using finish_value [OF specs_frame(1) [OF st d]] by (simp add: r final_value_def view_def split: option.split)
  ultimately show thesis using that vs s(4) by metis
qed

section \<open>Sums and averages of integers\<close>

lemma num_add_Fin: "num_add (Fin a) (Fin b) = nearest_double (a + b)"
  by (simp add: num_add_def)

lemma num_sub_Fin: "num_sub (Fin a) (Fin b) = nearest_double (a - b)"
  by (simp add: num_sub_def num_add_def)

lemma nearest_double_0 [simp]: "nearest_double 0 = Fin 0"
  by (simp add: nearest_double_def)

lemma num_mul_Fin: "0 < b \<Longrightarrow> num_mul (Fin a) (Fin b) = nearest_double (a * b)"
  by (auto simp: num_mul_def Let_def signed_zero_def)

lemma num_div_Fin: "0 < b \<Longrightarrow> num_div (Fin a) (Fin b) = nearest_double (a / b)"
  by (auto simp: num_div_def Let_def signed_zero_def)

text \<open>The state of an average whose additions were all exact: \<open>m\<close> is the sum of \<open>k\<close> integers.\<close>

definition exact_avg :: "int \<Rightarrow> int \<Rightarrow> nat \<Rightarrow> avg_state" where
  "exact_avg e m k = \<lparr>av_sum = Fin (of_int m / pow2 e), av_correction = Fin 0, av_remainder = Fin 0, av_count = k\<rparr>"

lemma avg_step_exact:
  assumes "\<bar>m\<bar> \<le> 2 ^ 53" "\<bar>i\<bar> \<le> 2 ^ 53" "\<bar>m + i\<bar> \<le> 2 ^ 53" "0 \<le> e" "e \<le> 64"
  shows "avg_step (Fin (pow2 e)) (num_of_int i) (exact_avg e m k) = exact_avg e (m + i) (k + 1)"
proof -
  let ?p = "pow2 e"
  note d = nearest_double_dyadic [OF _ assms(4,5)]
  have p: "0 < ?p" "?p \<noteq> 0" using pow2_pos [of e] by simp_all
  have t: "num_div (num_of_int i) (Fin ?p) = Fin (of_int i / ?p)"
    using d [OF assms(2)] by (simp add: num_of_int_def num_div_Fin)
  have b: "num_mul (Fin (of_int i / ?p)) (Fin ?p) = num_of_int i"
    using nearest_double_int [OF assms(2)] p by (simp add: num_mul_Fin)
  have s: "num_add (Fin (of_int m / ?p)) (Fin (of_int i / ?p)) = Fin (of_int (m + i) / ?p)"
    using d [OF assms(3)] by (simp add: num_add_Fin add_divide_distrib)
  have "num_sub (Fin (of_int m / ?p)) (Fin (of_int (m + i) / ?p)) = Fin (of_int (- i) / ?p)"
    using d [of "- i"] assms(2) by (simp add: num_sub_Fin add_divide_distrib)
  then have c1: "num_add (num_sub (Fin (of_int m / ?p)) (Fin (of_int (m + i) / ?p))) (Fin (of_int i / ?p)) = Fin 0"
    by (simp add: num_add_Fin)
  have "num_sub (Fin (of_int i / ?p)) (Fin (of_int (m + i) / ?p)) = Fin (of_int (- m) / ?p)"
    using d [of "- m"] assms(1) by (simp add: num_sub_Fin add_divide_distrib)
  then have c2: "num_add (num_sub (Fin (of_int i / ?p)) (Fin (of_int (m + i) / ?p))) (Fin (of_int m / ?p)) = Fin 0"
    by (simp add: num_add_Fin)
  have r: "num_sub (num_of_int i) (num_of_int i) = Fin 0" by (simp add: num_of_int_def num_sub_Fin)
  have z: "num_add (Fin 0) (Fin 0) = Fin 0" by (simp add: num_add_Fin)
  show ?thesis unfolding avg_step_def exact_avg_def Let_def by (simp add: t b s c1 c2 r z del: of_int_add)
qed

lemma avg_result_exact:
  assumes "\<bar>m\<bar> \<le> 2 ^ 53" "0 \<le> e" "e \<le> 64" "0 < k"
  shows "avg_result (Fin (pow2 e)) (exact_avg e m k) = nearest_double (of_int m / of_nat k)"
proof -
  have "num_add (Fin (of_int m / pow2 e)) (Fin 0) = Fin (of_int m / pow2 e)"
    using nearest_double_dyadic [OF assms(1,2,3)] by (simp add: num_add_Fin)
  moreover have "num_mul (Fin (of_int m / pow2 e)) (Fin (pow2 e)) = Fin (of_int m)"
    using nearest_double_int [OF assms(1)] pow2_pos [of e] by (simp add: num_mul_Fin num_of_int_def)
  moreover have "num_add (Fin (of_int m)) (Fin 0) = Fin (of_int m)"
    using nearest_double_int [OF assms(1)] by (simp add: num_add_Fin num_of_int_def)
  ultimately show ?thesis using assms(4) by (simp add: avg_result_def exact_avg_def num_div_Fin num_of_int_def)
qed

text \<open>A column of integers with gaps: \<open>None\<close> stands for a row without a value.\<close>

fun holds_int :: "jsval \<Rightarrow> int option \<Rightarrow> bool" where
  "holds_int v None = (v = Undef \<or> v = Null)"
| "holds_int v (Some i) = (v = js_int i)"

definition ints :: "int option list \<Rightarrow> int list" where
  "ints os = List.map_filter id os"

lemma ints_simps [simp]: "ints [] = []" "ints (None # os) = ints os" "ints (Some i # os) = i # ints os"
  by (simp_all add: ints_def List.map_filter_simps)

lemma sum_abs_nonneg: "0 \<le> sum_list (map abs (is :: int list))"
  by (induction "is") auto

lemma sum_view:
  "list_all2 holds_int vs os \<Longrightarrow> \<bar>m\<bar> + sum_list (map abs (ints os)) \<le> 2 ^ 53 \<Longrightarrow>
     rfold (view_step scale AggSum) vs (js_int m, a) = Inr (js_int (m + sum_list (ints os)), a)"
proof (induction vs os arbitrary: m rule: list_all2_induct)
  case (Cons v vs x os)
  show ?case
  proof (cases x)
    case None
    with Cons show ?thesis by (auto simp: view_step_def)
  next
    case (Some i)
    have nonneg: "0 \<le> sum_list (map abs (ints os))" by (rule sum_abs_nonneg)
    with Cons.prems Some have b: "\<bar>m + i\<bar> \<le> 2 ^ 53" "\<bar>m + i\<bar> + sum_list (map abs (ints os)) \<le> 2 ^ 53" by simp_all
    have "view_step scale AggSum v (js_int m, a) = Inr (js_int (m + i), a)"
      using Some Cons.hyps num_add_int [OF b(1)] by (simp add: view_step_def js_int_def num_of_int_def)
    with Cons.IH [OF b(2)] Some show ?thesis by (simp add: add.assoc)
  qed
qed simp

lemma avg_view:
  "list_all2 holds_int vs os \<Longrightarrow> \<bar>m\<bar> + sum_list (map abs (ints os)) \<le> 2 ^ 53 \<Longrightarrow> 0 \<le> e \<Longrightarrow> e \<le> 64 \<Longrightarrow>
     rfold (view_step (Fin (pow2 e)) AggAvg) vs (r, Some (exact_avg e m k))
       = Inr (r, Some (exact_avg e (m + sum_list (ints os)) (k + length (ints os))))"
proof (induction vs os arbitrary: m k rule: list_all2_induct)
  case (Cons v vs x os)
  show ?case
  proof (cases x)
    case None
    with Cons show ?thesis by (auto simp: view_step_def)
  next
    case (Some i)
    have nonneg: "0 \<le> sum_list (map abs (ints os))" by (rule sum_abs_nonneg)
    with Cons.prems Some have b: "\<bar>m\<bar> \<le> 2 ^ 53" "\<bar>i\<bar> \<le> 2 ^ 53" "\<bar>m + i\<bar> \<le> 2 ^ 53"
      "\<bar>m + i\<bar> + sum_list (map abs (ints os)) \<le> 2 ^ 53" by simp_all
    have "view_step (Fin (pow2 e)) AggAvg v (r, Some (exact_avg e m k)) = Inr (r, Some (exact_avg e (m + i) (k + 1)))"
      using Some Cons.hyps avg_step_exact [OF b(1,2,3) Cons.prems(2,3)]
      by (simp add: view_step_def js_int_def num_of_int_def)
    with Cons.IH [OF b(4) Cons.prems(2,3), of "k + 1"] Some show ?thesis by (simp add: add.assoc)
  qed
qed simp

lemma avg_view_start:
  assumes "list_all2 holds_int vs os" "sum_list (map abs (ints os)) \<le> 2 ^ 53" "0 \<le> e" "e \<le> 64" "ints os \<noteq> []"
  shows "rfold (view_step (Fin (pow2 e)) AggAvg) vs (r, None)
       = Inr (r, Some (exact_avg e (sum_list (ints os)) (length (ints os))))"
  using assms
proof (induction vs os rule: list_all2_induct)
  case (Cons v vs x os)
  show ?case
  proof (cases x)
    case None
    with Cons show ?thesis by (auto simp: view_step_def)
  next
    case (Some i)
    have nonneg: "0 \<le> sum_list (map abs (ints os))" by (rule sum_abs_nonneg)
    with Cons.prems Some have b: "\<bar>i\<bar> \<le> 2 ^ 53" "\<bar>i\<bar> + sum_list (map abs (ints os)) \<le> 2 ^ 53" by simp_all
    have "avg_step (Fin (pow2 e)) (num_of_int i) no_avg_state = exact_avg e i 1"
      using avg_step_exact [of 0 i e 0] b(1) Cons.prems(2,3) by (simp add: no_avg_state_def exact_avg_def)
    then have "view_step (Fin (pow2 e)) AggAvg v (r, None) = Inr (r, Some (exact_avg e i 1))"
      using Some Cons.hyps by (simp add: view_step_def js_int_def num_of_int_def)
    with avg_view [OF Cons.hyps(2) b(2) Cons.prems(2,3), of r 1] Some show ?thesis by simp
  qed
qed simp

lemma average_scale:
  assumes "n \<le> 2 ^ 32"
  obtains e where "averageScale n = Fin (pow2 e)" "0 \<le> e" "e \<le> 64"
proof
  show "averageScale n = Fin (pow2 (bitlen (int (max 1 n) - 1)))" by (simp add: averageScale_def)
  show "0 \<le> bitlen (int (max 1 n) - 1)" by (rule bitlen_nonneg)
  have "int n \<le> 2 ^ 32" using assms by (simp add: nat_le_iff flip: of_nat_le_iff)
  then have "int (max 1 n) - 1 < 2 ^ 64" by (simp add: of_nat_max)
  then show "bitlen (int (max 1 n) - 1) \<le> 64" by (simp add: bitlen_le_iff_power)
qed

section \<open>Extremes\<close>

definition present :: "jsval list \<Rightarrow> jsval list" where
  "present vs = filter (\<lambda>v. v \<noteq> Undef \<and> v \<noteq> Null) vs"

definition comparable_ok :: "jsval \<Rightarrow> bool" where
  "comparable_ok v = (comparableValue v = Inr v)"

lemma comparableValue_same: "comparableValue v = Inr c \<Longrightarrow> c = v \<and> comparable_ok v"
  by (auto simp: comparable_ok_def comparableValue_def rbind_Inr_iff split: jsval.splits if_splits)

lemma comparable_ok_cases:
  assumes "comparable_ok v"
  obtains n where "v = Num n" "is_finite n" | s where "v = Str s" | t ps ss where "v = Obj (CDate (Some t)) ps ss"
proof (cases v)
  case (Obj c ps ss)
  with assms show thesis
    by (cases c) (auto simp: comparable_ok_def comparableValue_def split: if_splits intro: that)
qed (use assms that in \<open>auto simp: comparable_ok_def comparableValue_def split: if_splits\<close>)

lemma num_less_finite: "is_finite a \<Longrightarrow> is_finite b \<Longrightarrow> num_less a b \<longleftrightarrow> num_value a < num_value b"
  by (cases a; cases b) simp_all

text \<open>Comparable values of one kind are ordered like their keys.\<close>

fun agg_key :: "jsval \<Rightarrow> rat \<times> string" where
  "agg_key (Num n) = (num_value n, [])"
| "agg_key (Str s) = (0, s)"
| "agg_key (Obj (CDate (Some t)) _ _) = (of_int t, [])"
| "agg_key _ = (0, [])"

definition key_le :: "rat \<times> string \<Rightarrow> rat \<times> string \<Rightarrow> bool" where
  "key_le a b = (fst a < fst b \<or> fst a = fst b \<and> snd a \<le> snd b)"

lemma compare_key:
  assumes "comparable_ok a" "comparable_ok b" "compareComparableValues a b = Inr c"
  shows "c \<le> 0 \<longleftrightarrow> key_le (agg_key a) (agg_key b)" "0 \<le> c \<longleftrightarrow> key_le (agg_key b) (agg_key a)"
    "aggregateComparableKind a = aggregateComparableKind b"
  using assms
  by (auto elim!: comparable_ok_cases simp: compareComparableValues_def aggregateComparableKind_def num_less_finite
      key_le_def split: if_splits)

lemma compare_defined:
  assumes "comparable_ok a" "comparable_ok b" "aggregateComparableKind a = aggregateComparableKind b"
  obtains c where "compareComparableValues a b = Inr c"
  using assms
  by (auto elim!: comparable_ok_cases simp: compareComparableValues_def aggregateComparableKind_def)

lemma key_le_trans: "key_le a b \<Longrightarrow> key_le b c \<Longrightarrow> key_le a c"
  by (auto simp: key_le_def)

lemma key_le_refl: "key_le a a"
  by (simp add: key_le_def)

definition first_of :: "agg_op \<Rightarrow> jsval \<Rightarrow> jsval \<Rightarrow> bool" where
  "first_of op a b = (case compareComparableValues a b of
     Inl _ \<Rightarrow> False | Inr c \<Rightarrow> if op = AggMin then c \<le> 0 else 0 \<le> c)"

lemma first_of_key:
  assumes "comparable_ok a" "comparable_ok b"
  shows "first_of op a b \<longleftrightarrow> aggregateComparableKind a = aggregateComparableKind b
    \<and> (if op = AggMin then key_le (agg_key a) (agg_key b) else key_le (agg_key b) (agg_key a))"
proof (cases "compareComparableValues a b")
  case (Inl e)
  then have "aggregateComparableKind a \<noteq> aggregateComparableKind b" using compare_defined [OF assms] by force
  with Inl show ?thesis by (simp add: first_of_def)
next
  case (Inr c)
  with compare_key [OF assms Inr] show ?thesis by (simp add: first_of_def)
qed

lemma first_of_refl: "comparable_ok a \<Longrightarrow> first_of op a a"
  by (simp add: first_of_key key_le_refl)

lemma first_of_trans:
  "comparable_ok a \<Longrightarrow> comparable_ok b \<Longrightarrow> comparable_ok c \<Longrightarrow> first_of op a b \<Longrightarrow> first_of op b c \<Longrightarrow> first_of op a c"
  by (auto simp: first_of_key split: if_splits intro: key_le_trans [of "agg_key a" "agg_key b"]
      key_le_trans [of "agg_key c" "agg_key b"])

lemma extreme_view_result:
  assumes "extreme_view op value r = Inr r'" and "r = Null \<or> comparable_ok r"
  shows "comparable_ok value" "r = Null \<Longrightarrow> r' = value"
    "r \<noteq> Null \<Longrightarrow> comparable_ok r' \<and> first_of op r' value \<and> first_of op r' r \<and> (r' = value \<or> r' = r)"
proof -
  from assms(1) obtain c where "comparableValue value = Inr c" by (auto simp: extreme_view_def rbind_Inr_iff)
  from this comparableValue_same [OF this] have v: "comparableValue value = Inr value" "comparable_ok value" by simp_all
  show "comparable_ok value" by (rule v(2))
  show "r = Null \<Longrightarrow> r' = value" using assms(1) v(1) by (simp add: extreme_view_def)
  assume n: "r \<noteq> Null"
  with assms(2) have r: "comparable_ok r" "comparableValue r = Inr r" by (simp_all add: comparable_ok_def)
  with assms(1) n v(1) obtain k where k: "compareComparableValues value r = Inr k"
    and r': "r' = (if (if op = AggMin then k < 0 else 0 < k) then value else r)"
    by (auto simp: extreme_view_def rbind_Inr_iff split: if_splits)
  note ck = compare_key [OF v(2) r(1) k]
  show "comparable_ok r' \<and> first_of op r' value \<and> first_of op r' r \<and> (r' = value \<or> r' = r)"
    using ck r' v(2) r(1) by (auto simp: first_of_key key_le_refl)
qed

lemma view_step_missing: "v = Undef \<or> v = Null \<Longrightarrow> view_step scale op v (r, a) = Inr (r, a)"
  by (simp add: view_step_def)

lemma view_step_extreme:
  "\<not> (v = Undef \<or> v = Null) \<Longrightarrow> op = AggMin \<or> op = AggMax \<Longrightarrow>
     view_step scale op v (r, a) = rbind (extreme_view op v r) (\<lambda>w. Inr (w, a))"
  by (auto simp: view_step_def)

lemma extremes_view:
  assumes "rfold (view_step scale op) vs (r, a) = Inr ra" and "r = Null \<or> comparable_ok r" and "op = AggMin \<or> op = AggMax"
  shows "snd ra = a \<and> (if r = Null \<and> present vs = [] then fst ra = Null
    else comparable_ok (fst ra) \<and> (r \<noteq> Null \<longrightarrow> first_of op (fst ra) r) \<and> list_all (first_of op (fst ra)) (present vs)
      \<and> (fst ra = r \<and> r \<noteq> Null \<or> fst ra \<in> set (present vs)))"
  using assms
proof (induction vs arbitrary: r)
  case Nil
  then show ?case by (auto simp: present_def intro: first_of_refl)
next
  case (Cons v vs)
  show ?case
  proof (cases "v = Undef \<or> v = Null")
    case True
    with Cons.prems(1) have "rfold (view_step scale op) vs (r, a) = Inr ra" by (simp add: view_step_missing)
    from Cons.IH [OF this Cons.prems(2,3)] True show ?thesis by (auto simp: present_def)
  next
    case False
    with Cons.prems(1,3) obtain r1 where r1: "extreme_view op v r = Inr r1" "rfold (view_step scale op) vs (r1, a) = Inr ra"
      by (auto simp: view_step_extreme rbind_Inr_iff)
    note x = extreme_view_result [OF r1(1) Cons.prems(2)]
    have p: "present (v # vs) = v # present vs" using False by (simp add: present_def)
    have ok: "comparable_ok r1" and v: "first_of op r1 v" and rr: "r \<noteq> Null \<longrightarrow> first_of op r1 r"
      and mem: "r1 = v \<or> r1 = r \<and> r \<noteq> Null"
      using x by (cases "r = Null"; auto intro: first_of_refl)+
    then have n: "r1 \<noteq> Null" by (auto simp: comparable_ok_def comparableValue_def)
    from Cons.IH [OF r1(2) disjI2 [OF ok] Cons.prems(3)] n have
      ih: "snd ra = a" "comparable_ok (fst ra)" "first_of op (fst ra) r1" "list_all (first_of op (fst ra)) (present vs)"
        "fst ra = r1 \<or> fst ra \<in> set (present vs)" by auto
    have "first_of op (fst ra) v" using first_of_trans [OF ih(2) ok x(1) ih(3) v] .
    moreover have "r \<noteq> Null \<longrightarrow> first_of op (fst ra) r"
      using first_of_trans [OF ih(2) ok _ ih(3)] rr Cons.prems(2) by blast
    ultimately show ?thesis using ih mem by (auto simp: p)
  qed
qed

section \<open>Properties\<close>

text \<open>C27. Sums and averages of integers are exact: for a column of integers, with missing values among them,
  whose absolute values add up to at most \<open>2 ^ 53\<close>, \<open>sum\<close> is the mathematical sum, and \<open>avg\<close> is the sum
  divided by the number of present values, rounded once; rescaling, compensation and the order of the rows
  leave no trace, and other aggregates of the same call do not interfere.\<close>

theorem integer_aggregates_exact:
  assumes "aggregateRows (js_array rows) specs = Inr r" and "validateAggregateSpecs specs = Inr ss" and "spec \<in> set ss"
    and "list_all2 (\<lambda>row i. \<exists>v. aggregateValueFor row (ag_field spec) = Inr v \<and> holds_int v i) rows os"
    and "sum_list (map abs (ints os)) \<le> 2 ^ 53" and "length rows \<le> 2 ^ 32" and "ints os \<noteq> []"
    and "ag_op spec = AggSum \<or> ag_op spec = AggAvg"
  shows "result_value r (ag_as spec) =
    (if ag_op spec = AggSum then js_int (sum_list (ints os))
     else Num (nearest_double (of_int (sum_list (ints os)) / of_nat (length (ints os)))))"
proof -
  have "ag_op spec \<noteq> AggCount" using assms(8) by auto
  from aggregateRows_view [OF assms(1,2,3) this] obtain vs ra where
    vs: "list_all2 (\<lambda>row v. aggregateValueFor row (ag_field spec) = Inr v) rows vs"
    and ra: "rfold (view_step (averageScale (length rows)) (ag_op spec)) vs (defaultAggregateValueFromSpec spec, None) = Inr ra"
    and r: "result_value r (ag_as spec) = final_value (averageScale (length rows)) ra" by blast
  have hold: "list_all2 holds_int vs os"
    using vs assms(4) by (force simp: list_all2_conv_all_nth)
  from average_scale [OF assms(6)] obtain e where e: "averageScale (length rows) = Fin (pow2 e)" "0 \<le> e" "e \<le> 64" by blast
  show ?thesis
  proof (cases "ag_op spec = AggSum")
    case True
    with ra sum_view [OF hold, of 0] assms(5) have "ra = (js_int (sum_list (ints os)), None)"
      by (simp add: defaultAggregateValueFromSpec_def)
    with True r show ?thesis by (simp add: final_value_def)
  next
    case False
    with assms(8) have a: "ag_op spec = AggAvg" by simp
    with ra avg_view_start [OF hold assms(5) e(2,3) assms(7)] e(1)
    have "snd ra = Some (exact_avg e (sum_list (ints os)) (length (ints os)))" by auto
    moreover have "\<bar>sum_list (ints os)\<bar> \<le> 2 ^ 53" using sum_list_abs [of "ints os"] assms(5) by simp
    ultimately show ?thesis
      using a r e avg_result_exact [of "sum_list (ints os)" e "length (ints os)"] assms(7) by (simp add: final_value_def)
  qed
qed

definition example_rows :: "jsval list" where
  "example_rows = [js_object [(''n'', js_int 1)], js_object [(''n'', Null)], js_object [(''n'', js_int 4)]]"

definition example_specs :: "AggregateSpec list" where
  "example_specs = [\<lparr>ag_op = AggSum, ag_as = ''s'', ag_field = ''n''\<rparr>, \<lparr>ag_op = AggMax, ag_as = ''m'', ag_field = ''n''\<rparr>]"

lemma example_field: "aggregateValueFor (js_object [(''n'', x)]) ''n'' = Inr x"
  by (simp add: aggregateValueFor_def js_object_def has_own_def dataP_def nul_def reserved_name_def starts_with_def RESERVED_FIELD_NAMES_def)

lemma example_accepted:
  "\<exists>r. aggregateRows (js_array example_rows) (specs_value example_specs) = Inr r"
  "validateAggregateSpecs (specs_value example_specs) = Inr example_specs"
proof -
  show v: "validateAggregateSpecs (specs_value example_specs) = Inr example_specs" by code_simp
  have d: "defaultAggregateResultFromSpecs example_specs = [(''s'', dataP (js_int 0)), (''m'', dataP Null)]" by code_simp
  have a: "num_add (num_of_int i) (num_of_int j) = num_of_int (i + j)" if "\<bar>i + j\<bar> \<le> 2 ^ 53" for i j
    using num_add_int [OF that] .
  have n: "js_int i \<noteq> Undef" "js_int i \<noteq> Null" "numberValue (js_int i) = Inr (num_of_int i)"
      "comparableValue (js_int i) = Inr (js_int i)" for i
    by (simp_all add: js_int_def num_of_int_def comparableValue_def)
  have rs: "running_sum r k = num_of_int i" if "result_value r k = js_int i" for r k i
    using that by (simp add: running_sum_def js_int_def)
  have c: "compareComparableValues (js_int 4) (js_int 1) = Inr 1" by code_simp
  have rv: "result_value (p # q) k = (if fst p = k then prop_val (snd p) else result_value q k)" "result_value [] k = Undef" for p q k
    by (cases p, auto simp: result_value_def)
  show "\<exists>r. aggregateRows (js_array example_rows) (specs_value example_specs) = Inr r"
    by (simp add: aggregateRows_def v defaultAggregateResult_def d Let_def)
      (simp add: example_rows_def example_specs_def aggregate_spec_def aggregate_row_def example_field n rs a extreme_step_def c rv
        js_int_def [symmetric])
qed

theorem integer_aggregates_exact_witness:
  "\<exists>r. aggregateRows (js_array example_rows) (specs_value example_specs) = Inr r \<and> result_value r ''s'' = js_int 5"
proof -
  obtain r where r: "aggregateRows (js_array example_rows) (specs_value example_specs) = Inr r"
    using example_accepted(1) by blast
  let ?s = "\<lparr>ag_op = AggSum, ag_as = ''s'', ag_field = ''n''\<rparr>"
  have m: "?s \<in> set example_specs" by (simp add: example_specs_def)
  have c: "list_all2 (\<lambda>row i. \<exists>v. aggregateValueFor row (ag_field ?s) = Inr v \<and> holds_int v i) example_rows [Some 1, None, Some 4]"
    by (simp add: example_rows_def example_field)
  have p: "sum_list (map abs (ints [Some 1, None, Some 4])) \<le> 2 ^ 53" "length example_rows \<le> 2 ^ 32" "ints [Some 1, None, Some 4] \<noteq> []"
    "ag_op ?s = AggSum \<or> ag_op ?s = AggAvg"
    by (simp_all add: example_rows_def)
  from integer_aggregates_exact [OF r example_accepted(2) m c p] r show ?thesis by simp
qed

text \<open>C28. \<open>min\<close> and \<open>max\<close> answer null for a column without values, and otherwise one of its values that no
  other comes before, in the order of numbers, of strings by code unit, or of dates.\<close>

theorem extremes_are_extreme:
  assumes "aggregateRows (js_array rows) specs = Inr r" and "validateAggregateSpecs specs = Inr ss" and "spec \<in> set ss"
    and "list_all2 (\<lambda>row v. aggregateValueFor row (ag_field spec) = Inr v) rows vs"
    and "ag_op spec = AggMin \<or> ag_op spec = AggMax"
  shows "if present vs = [] then result_value r (ag_as spec) = Null
    else result_value r (ag_as spec) \<in> set (present vs)
      \<and> list_all (first_of (ag_op spec) (result_value r (ag_as spec))) (present vs)"
proof -
  have n: "ag_op spec \<noteq> AggCount" using assms(5) by auto
  from aggregateRows_view [OF assms(1,2,3) n] obtain ws ra where
    ws: "list_all2 (\<lambda>row v. aggregateValueFor row (ag_field spec) = Inr v) rows ws"
    and ra: "rfold (view_step (averageScale (length rows)) (ag_op spec)) ws (defaultAggregateValueFromSpec spec, None) = Inr ra"
    and r: "result_value r (ag_as spec) = final_value (averageScale (length rows)) ra" by blast
  have "ws = vs" using ws assms(4) by (force simp: list_all2_conv_all_nth intro: nth_equalityI)
  moreover have "defaultAggregateValueFromSpec spec = Null" using assms(5) by (auto simp: defaultAggregateValueFromSpec_def)
  ultimately show ?thesis using extremes_view [OF ra _ assms(5)] r by (auto simp: final_value_def split: if_splits)
qed

theorem extremes_are_extreme_witness:
  "\<exists>r. aggregateRows (js_array example_rows) (specs_value example_specs) = Inr r \<and> result_value r ''m'' = js_int 4"
proof -
  obtain r where r: "aggregateRows (js_array example_rows) (specs_value example_specs) = Inr r"
    using example_accepted(1) by blast
  let ?s = "\<lparr>ag_op = AggMax, ag_as = ''m'', ag_field = ''n''\<rparr>"
  have m: "?s \<in> set example_specs" by (simp add: example_specs_def)
  have c: "list_all2 (\<lambda>row v. aggregateValueFor row (ag_field ?s) = Inr v) example_rows [js_int 1, Null, js_int 4]"
    by (simp add: example_rows_def example_field)
  have p: "present [js_int 1, Null, js_int 4] = [js_int 1, js_int 4]" by (simp add: present_def js_int_def)
  have "\<not> first_of AggMax (js_int 1) (js_int 4)" by code_simp
  with extremes_are_extreme [OF r example_accepted(2) m c] r show ?thesis unfolding p by auto
qed

end
