(* ===== verification/FieldCodecs.thy ===== *)
theory FieldCodecs
  imports StorePlan MemoryStore Aggregate
begin

text \<open>
  \<open>src/core/field-codecs.ts\<close>: codecs change the stored form of a field. A codec is given by its functions,
  which are the application's; whatever they throw becomes a validation error. The trusted marker of a plan whose
  operands are encoded already is a flag beside the plan, set for a plan and all its branches together.
\<close>

section \<open>Codecs of a model\<close>

record FieldCodec =
  fc_encode :: "jsval \<Rightarrow> jsval res"
  fc_decode :: "jsval \<Rightarrow> jsval res"
  fc_encodeQuery :: "(string \<Rightarrow> jsval \<Rightarrow> jsval res) option"
  fc_queryOperators :: "string list option"

type_synonym codecs = "(string \<times> FieldCodec) list"

datatype codec_operation = ReadOp | WriteOp

datatype path_relation = Exact | Ancestor | Descendant

definition fieldCodecPathRelation :: "string \<Rightarrow> string \<Rightarrow> path_relation option" where
  "fieldCodecPathRelation field codecField =
     (if field = codecField then Some Exact
      else if starts_with field (codecField @ ''.'') then Some Ancestor
      else if starts_with codecField (field @ ''.'') then Some Descendant
      else None)"

fun findFieldCodecPathMatch :: "codecs \<Rightarrow> string \<Rightarrow> (string \<times> FieldCodec \<times> path_relation) option" where
  "findFieldCodecPathMatch [] field = None"
| "findFieldCodecPathMatch ((codecField, codec) # cs) field =
     (case fieldCodecPathRelation field codecField of
        Some relation \<Rightarrow> Some (codecField, codec, relation)
      | None \<Rightarrow> findFieldCodecPathMatch cs field)"

definition hasFieldCodecPathOverlap :: "codecs \<Rightarrow> string \<Rightarrow> bool" where
  "hasFieldCodecPathOverlap cs field = (findFieldCodecPathMatch cs field \<noteq> None)"

definition assertDefinedFieldCodecResult :: "jsval \<Rightarrow> unit res" where
  "assertDefinedFieldCodecResult value = (if value = Undef then Inl ActiveTsValidationError else Inr ())"

text \<open>A call of the application's code inside \<open>try\<close>.\<close>

definition guarded :: "jsval res \<Rightarrow> jsval res" where
  "guarded r = (case r of Inl _ \<Rightarrow> Inl ActiveTsValidationError | Inr v \<Rightarrow> Inr v)"

definition applyFieldCodec :: "string \<Rightarrow> FieldCodec \<Rightarrow> codec_operation \<Rightarrow> jsval \<Rightarrow> jsval res" where
  "applyFieldCodec field codec operation target =
     rbind (valueFor target field) (\<lambda>current.
     if current = Undef then Inr target
     else rbind (guarded ((if operation = WriteOp then fc_encode codec else fc_decode codec) current)) (\<lambda>value.
       rbind (assertDefinedFieldCodecResult value) (\<lambda>_. setPath target field value)))"

definition applyFieldCodecs :: "codecs \<Rightarrow> codec_operation \<Rightarrow> jsval \<Rightarrow> jsval res" where
  "applyFieldCodecs cs operation data =
     rbind (cloneSafeData data) (\<lambda>copy.
     rbind (rfold (\<lambda>(field, codec). applyFieldCodec field codec operation) cs copy) cloneSafeData)"

text \<open>The bodies of the two loops of \<open>applyFieldCodecsForFields\<close>; the state is the set of codecs that were
  applied and the row.\<close>

definition apply_codec_for_field ::
    "codec_operation \<Rightarrow> string \<Rightarrow> string \<times> FieldCodec \<Rightarrow> string list \<times> jsval \<Rightarrow> (string list \<times> jsval) res" where
  "apply_codec_for_field operation field fc st =
     (case fieldCodecPathRelation field (fst fc) of
        None \<Rightarrow> Inr st
      | Some relation \<Rightarrow>
          if fst fc \<in> set (fst st) then Inr st
          else rbind (if relation = Ancestor then valueFor (snd st) field else Inr Undef) (\<lambda>v.
            if relation = Ancestor \<and> v \<noteq> Undef then Inr st
            else rbind (applyFieldCodec (fst fc) (snd fc) operation (snd st)) (\<lambda>row.
              Inr (fst fc # fst st, row))))"

definition applyFieldCodecsForFields :: "codecs \<Rightarrow> string list \<Rightarrow> codec_operation \<Rightarrow> jsval \<Rightarrow> jsval res" where
  "applyFieldCodecsForFields cs fs operation data =
     rbind (cloneSafeData data) (\<lambda>copy.
     rbind (rfold (\<lambda>field. rfold (apply_codec_for_field operation field) cs) fs ([], copy)) (\<lambda>st.
     cloneSafeData (snd st)))"

section \<open>Query operands\<close>

definition DEFAULT_FIELD_CODEC_QUERY_OPERATORS :: "string list" where
  "DEFAULT_FIELD_CODEC_QUERY_OPERATORS = [''='', ''!='', ''in'']"

definition fieldCodecSupportsOperator :: "FieldCodec \<Rightarrow> string \<Rightarrow> bool" where
  "fieldCodecSupportsOperator codec opn = (case fc_queryOperators codec of None \<Rightarrow> False | Some os \<Rightarrow> opn \<in> set os)"

definition assertFieldCodecQueryOperatorSupported :: "FieldCodec \<Rightarrow> string \<Rightarrow> unit res" where
  "assertFieldCodecQueryOperatorSupported codec opn =
     (if fieldCodecSupportsOperator codec opn then Inr ()
      else if fc_queryOperators codec = None \<and> opn \<in> set DEFAULT_FIELD_CODEC_QUERY_OPERATORS then Inr ()
      else Inl ActiveTsConfigurationError)"

definition assertExactFieldCodecPath :: "path_relation \<Rightarrow> unit res" where
  "assertExactFieldCodecPath relation = (if relation = Exact then Inr () else Inl ActiveTsConfigurationError)"

definition encodeFieldCodecQueryOperand :: "codecs \<Rightarrow> string \<Rightarrow> jsval \<Rightarrow> string \<Rightarrow> jsval res" where
  "encodeFieldCodecQueryOperand cs field value opn =
     (case findFieldCodecPathMatch cs field of
        None \<Rightarrow> Inr value
      | Some (_, codec, relation) \<Rightarrow>
          rbind (assertExactFieldCodecPath relation) (\<lambda>_.
          case fc_encodeQuery codec of
            None \<Rightarrow> Inl ActiveTsConfigurationError
          | Some encodeQuery \<Rightarrow>
              rbind (assertFieldCodecQueryOperatorSupported codec opn) (\<lambda>_.
              rbind (guarded (encodeQuery opn value)) (\<lambda>encoded.
              rbind (assertDefinedFieldCodecResult encoded) (\<lambda>_. Inr encoded)))))"

text \<open>\<open>encodeFieldCodecInOperands\<close>: the operand of \<open>in\<close> is an array that the plan's validation has checked.\<close>

definition encodeFieldCodecInOperands :: "codecs \<Rightarrow> string \<Rightarrow> jsval \<Rightarrow> string \<Rightarrow> jsval res" where
  "encodeFieldCodecInOperands cs field operands opn =
     rbind (rlist (\<lambda>slot. encodeFieldCodecQueryOperand cs field (case slot of None \<Rightarrow> Undef | Some p \<Rightarrow> prop_val p) opn)
       (slots operands)) (\<lambda>vs. Inr (js_array vs))"

definition encode_where :: "codecs \<Rightarrow> where_entry \<Rightarrow> where_entry res" where
  "encode_where cs w =
     (case findFieldCodecPathMatch cs (w_field w) of
        None \<Rightarrow> Inr w
      | Some (_, codec, relation) \<Rightarrow>
          rbind (assertExactFieldCodecPath relation) (\<lambda>_.
          if w_op w = ''isNull'' \<or> w_op w = ''isNotNull'' then Inl ActiveTsConfigurationError
          else rbind
            (if w_op w = ''in'' then
               rbind (encodeFieldCodecInOperands cs (w_field w) (w_value w) (w_op w)) (\<lambda>v. Inr (w\<lparr>w_value := v\<rparr>))
             else if w_op w = ''between'' then
               rbind (encodeFieldCodecQueryOperand cs (w_field w) (w_value w) (w_op w)) (\<lambda>v.
               rbind (encodeFieldCodecQueryOperand cs (w_field w) (w_value2 w) (w_op w)) (\<lambda>v2.
               Inr (w\<lparr>w_value := v, w_value2 := v2\<rparr>)))
             else rbind (encodeFieldCodecQueryOperand cs (w_field w) (w_value w) (w_op w)) (\<lambda>v. Inr (w\<lparr>w_value := v\<rparr>)))
            (\<lambda>encoded.
          rbind (assertValidWhereOperand (Str (w_op encoded)) (w_value encoded) (w_value2 encoded)) (\<lambda>_. Inr encoded))))"

definition encodeWhereFieldCodecs :: "codecs \<Rightarrow> where_entry list \<Rightarrow> where_entry list res" where
  "encodeWhereFieldCodecs cs ws = rlist (encode_where cs) ws"

text \<open>Branches carry no sort of their own, so only their conditions are encoded.\<close>

fun encode_filter :: "codecs \<Rightarrow> plan \<Rightarrow> plan res" where
  "encode_filter cs (Plan ws os) =
     rbind (encodeWhereFieldCodecs cs ws) (\<lambda>ws'.
     rbind (rlist (encode_filter cs) os) (\<lambda>os'. Inr (Plan ws' os')))"

definition check_codec_sort :: "codecs \<Rightarrow> CursorSort \<Rightarrow> unit res" where
  "check_codec_sort cs s =
     (case findFieldCodecPathMatch cs (sort_field s) of
        None \<Rightarrow> Inr ()
      | Some (_, codec, relation) \<Rightarrow>
          rbind (assertExactFieldCodecPath relation) (\<lambda>_.
          if fc_encodeQuery codec = None \<or> \<not> fieldCodecSupportsOperator codec ''<'' \<or> \<not> fieldCodecSupportsOperator codec ''>''
          then Inl ActiveTsConfigurationError else Inr ()))"

definition encodeQueryPlanFieldCodecs :: "codecs \<Rightarrow> bool \<Rightarrow> QueryPlan \<Rightarrow> QueryPlan res" where
  "encodeQueryPlanFieldCodecs cs encoded p =
     rbind (reach (check_codec_sort cs) (q_sort p)) (\<lambda>_.
     if encoded then Inr p
     else rbind (encode_filter cs (q_filter p)) (\<lambda>f. Inr (p\<lparr>q_filter := f\<rparr>)))"

definition encodeAggregatePlanFieldCodecs :: "codecs \<Rightarrow> bool \<Rightarrow> plan \<Rightarrow> plan res" where
  "encodeAggregatePlanFieldCodecs cs encoded f = (if encoded then Inr f else encode_filter cs f)"

definition assertNoAggregateFieldCodecSpecs :: "codecs \<Rightarrow> AggregateSpec list \<Rightarrow> unit res" where
  "assertNoAggregateFieldCodecSpecs cs specs = reach (\<lambda>spec.
     if ag_field spec = [] then Inr ()
     else if hasFieldCodecPathOverlap cs (ag_field spec) then Inl ActiveTsConfigurationError else Inr ()) specs"

text \<open>Projections fetch the complete encoded parent of a path inside a codec field.\<close>

definition projected_field :: "codecs \<Rightarrow> string \<Rightarrow> string" where
  "projected_field cs field = (case findFieldCodecPathMatch cs field of
     Some (codecField, _, Ancestor) \<Rightarrow> codecField
   | _ \<Rightarrow> field)"

definition fieldCodecProjectionFields :: "codecs \<Rightarrow> string list option \<Rightarrow> string list option" where
  "fieldCodecProjectionFields cs fs = (case fs of
     None \<Rightarrow> None
   | Some paths \<Rightarrow>
       let selected = map (projected_field cs) paths;
           expanded = fold (\<lambda>f acc. if f \<in> set acc then acc else acc @ [f]) selected []
       in Some (if \<exists>p \<in> set paths. projected_field cs p \<noteq> p then expanded else paths))"

section \<open>Replacing values along paths\<close>

fun has_path :: "jsval \<Rightarrow> string list \<Rightarrow> bool" where
  "has_path v [] = True"
| "has_path (Obj c ps ss) (k # ks) = (c = CPlain \<and> (case map_of ps k of None \<Rightarrow> False | Some p \<Rightarrow> has_path (prop_val p) ks))"
| "has_path _ _ = False"

fun at_path :: "jsval \<Rightarrow> string list \<Rightarrow> jsval" where
  "at_path v [] = v"
| "at_path (Obj c ps ss) (k # ks) = at_path (prop_val (the (map_of ps k))) ks"
| "at_path v _ = v"

fun repl :: "jsval \<Rightarrow> string list \<Rightarrow> jsval \<Rightarrow> jsval" where
  "repl v [] y = y"
| "repl (Obj c ps ss) (k # ks) y = Obj c (AList.update k (dataP (repl (prop_val (the (map_of ps k))) ks y)) ps) ss"
| "repl v _ y = v"

fun apart :: "string list \<Rightarrow> string list \<Rightarrow> bool" where
  "apart (k # ks) (j # js) = (k \<noteq> j \<or> apart ks js)"
| "apart _ _ = False"

lemma apart_sym: "apart ks js \<Longrightarrow> apart js ks"
  by (induction ks js rule: apart.induct) auto

lemma update_existing: "map_of ps k = Some p \<Longrightarrow> put_prop k q ps = AList.update k q ps"
  by (simp add: put_prop_def mhas_def)

lemma update_commute:
  "map_of ps k \<noteq> None \<Longrightarrow> map_of ps j \<noteq> None \<Longrightarrow> k \<noteq> j \<Longrightarrow>
     AList.update k a (AList.update j b ps) = AList.update j b (AList.update k a ps)"
  by (induction ps) auto

lemma row_member:
  "row_value (Obj c ps ss) \<Longrightarrow> map_of ps k = Some p \<Longrightarrow>
     plain_prop p \<and> \<not> reserved_name k \<and> prop_val p \<noteq> Undef \<and> row_value (prop_val p)"
  by (drule map_of_SomeD) (rule row_object(3))

lemma row_update:
  assumes "row_value (Obj CPlain ps [])" and "map_of ps k = Some p" and "row_value y"
  shows "row_value (Obj CPlain (AList.update k (dataP y) ps) [])"
proof -
  have k: "\<not> reserved_name k" using row_member [OF assms(1,2)] by simp
  have y: "y \<noteq> Undef" using assms(3) by auto
  have "(l, q) \<in> set (AList.update k (dataP y) ps) \<Longrightarrow> (l, q) \<in> set ps \<or> (l, q) = (k, dataP y)" for l q
    by (induction ps) (auto split: if_splits)
  with assms(1,3) k y show ?thesis by (fastforce simp: list_all_iff)
qed

lemma path_member:
  assumes "has_path (Obj c ps ss) (k # ks)" and "row_value (Obj c ps ss)"
  obtains p where "c = CPlain" "ss = []" "map_of ps k = Some p" "has_path (prop_val p) ks" "row_value (prop_val p)"
    "prop_val p \<noteq> Undef" "plain_prop p"
proof -
  from assms(1) obtain p where p: "c = CPlain" "map_of ps k = Some p" "has_path (prop_val p) ks" by (auto split: option.splits)
  from row_member [OF assms(2) p(2)] row_object(2) [OF assms(2)] p show thesis by (intro that) blast+
qed

lemma has_path_row: "has_path v ks \<Longrightarrow> row_value v \<Longrightarrow> row_value (at_path v ks)"
proof (induction v ks rule: has_path.induct)
  case (2 c ps ss k ks)
  from path_member [OF "2.prems"] obtain p where p: "map_of ps k = Some p" "has_path (prop_val p) ks" "row_value (prop_val p)" by metis
  from "2.IH" [OF p] p(1) show ?case by simp
qed simp_all

lemma repl_row: "has_path v ks \<Longrightarrow> row_value v \<Longrightarrow> row_value y \<Longrightarrow> row_value (repl v ks y)"
proof (induction v ks rule: has_path.induct)
  case (2 c ps ss k ks)
  from "2.prems"(1) obtain p where p: "c = CPlain" "map_of ps k = Some p" "has_path (prop_val p) ks"
    by (auto split: option.splits)
  have ss: "ss = []" using "2.prems"(2) by simp
  have "row_value (repl (prop_val p) ks y)"
    using "2.IH" [OF p(2,3)] row_member [OF "2.prems"(2) p(2)] "2.prems"(3) by simp
  with row_update [of ps k p] "2.prems"(2) p ss show ?case by simp
qed auto

lemma value_at_path: "has_path v ks \<Longrightarrow> row_value v \<Longrightarrow> value_at v ks = Inr (at_path v ks)"
proof (induction v ks rule: has_path.induct)
  case (2 c ps ss k ks)
  from path_member [OF "2.prems"] obtain p where c: "c = CPlain" and p: "map_of ps k = Some p" "has_path (prop_val p) ks"
    "row_value (prop_val p)" and pl: "plain_prop p" by metis
  from "2.IH" [OF p] p(1) c plain_propD(2,3) [OF pl] show ?case by (simp add: has_own_def ownFieldValue_def)
qed simp_all

lemma at_repl: "has_path v ks \<Longrightarrow> at_path (repl v ks y) ks = y"
  by (induction v ks rule: has_path.induct) (auto split: option.splits simp: map_simps)

lemma has_path_repl: "has_path v ks \<Longrightarrow> has_path (repl v ks y) ks"
  by (induction v ks rule: has_path.induct) (auto split: option.splits simp: map_simps)

lemma repl_same: "has_path v ks \<Longrightarrow> row_value v \<Longrightarrow> repl v ks (at_path v ks) = v"
proof (induction v ks rule: has_path.induct)
  case (2 c ps ss k ks)
  from "2.prems"(1) obtain p where p: "map_of ps k = Some p" "has_path (prop_val p) ks" by (auto split: option.splits)
  from row_member [OF "2.prems"(2) p(1)] have r: "row_value (prop_val p)" "plain_prop p" by simp_all
  from "2.IH" [OF p r(1)] plain_propD(1) [OF r(2)] p(1) show ?case by (simp add: update_triv)
qed auto

lemma repl_repl: "has_path v ks \<Longrightarrow> repl (repl v ks y) ks z = repl v ks z"
  by (induction v ks rule: has_path.induct) (auto split: option.splits simp: map_simps)

lemma set_at_repl:
  "has_path v ks \<Longrightarrow> row_value v \<Longrightarrow> ks \<noteq> [] \<Longrightarrow> set_at v ks y = Inr (repl v ks y)"
proof (induction v ks rule: has_path.induct)
  case (2 c ps ss k ks)
  from "2.prems"(1) obtain p where p: "c = CPlain" "map_of ps k = Some p" "has_path (prop_val p) ks"
    by (auto split: option.splits)
  from row_member [OF "2.prems"(2) p(2)] have r: "row_value (prop_val p)" "is_data p" "enumerable p" "writable p"
    by (auto simp: plain_prop_def)
  have sv: "set_val p w = dataP w" for w using r by (cases p) (simp_all add: dataP_def)
  show ?case
  proof (cases ks)
    case Nil
    with p r show ?thesis by (simp add: put_own_def update_existing [OF p(2)] sv)
  next
    case (Cons j js)
    from p(3) Cons have "\<exists>qs ts. prop_val p = Obj CPlain qs ts" by (cases "prop_val p") auto
    with "2.IH" [OF p(2,3) r(1)] Cons p r show ?thesis
      by (auto simp: put_own_def update_existing [OF p(2)] sv)
  qed
qed auto

lemma set_path_exists:
  "value_at v ks = Inr x \<Longrightarrow> x \<noteq> Undef \<Longrightarrow> set_at v ks y = Inr w \<Longrightarrow> row_value v \<Longrightarrow> is_plain_object v \<Longrightarrow> has_path v ks"
proof (induction ks arbitrary: v w)
  case (Cons k ks)
  then obtain ps where v: "v = Obj CPlain ps []" by (cases v) auto
  with Cons.prems(1,2) obtain p where p: "map_of ps k = Some p" "value_at (prop_val p) ks = Inr x"
    by (auto simp: has_own_def ownFieldValue_def rbind_Inr_iff split: if_splits)
  have r: "row_value (prop_val p)" using row_member [of CPlain ps "[]" k p] Cons.prems(4) p(1) v by blast
  show ?case
  proof (cases ks)
    case Nil
    with v p show ?thesis by simp
  next
    case (Cons j js)
    with p(2) Cons.prems(2) have o: "is_object (prop_val p)" by (auto split: if_splits)
    then have n: "prop_val p \<noteq> Undef" "prop_val p \<noteq> Null" by auto
    with Cons.prems(3) v p(1) Cons obtain u where u: "is_plain_object (prop_val p)" "set_at (prop_val p) ks y = Inr u"
      by (auto simp: rbind_Inr_iff split: if_splits)
    from Cons.IH [OF p(2) Cons.prems(2) u(2) r u(1)] v p(1) show ?thesis by simp
  qed
qed simp

lemma repl_plain: "has_path v ks \<Longrightarrow> ks \<noteq> [] \<Longrightarrow> is_plain_object (repl v ks y)"
  by (cases v; cases ks) auto

lemma has_path_apart: "apart ks js \<Longrightarrow> has_path v ks \<Longrightarrow> has_path (repl v ks y) js = has_path v js"
proof (induction ks js arbitrary: v rule: apart.induct)
  case (1 k ks j js)
  then show ?case by (cases v) (auto simp: map_simps split: option.splits)
qed simp_all

lemma value_at_apart: "apart ks js \<Longrightarrow> has_path v ks \<Longrightarrow> row_value v \<Longrightarrow> value_at (repl v ks y) js = value_at v js"
proof (induction ks js arbitrary: v rule: apart.induct)
  case (1 k ks j js)
  then obtain c ps ss where v: "v = Obj c ps ss" by (cases v) auto
  from path_member [OF "1.prems"(2,3) [unfolded v]] obtain p where c: "c = CPlain" and p: "map_of ps k = Some p"
      "has_path (prop_val p) ks" "row_value (prop_val p)" "plain_prop p" by metis
  show ?case
  proof (cases "k = j")
    case True
    with "1.prems"(1) have "apart ks js" by simp
    from "1.IH" [OF this p(2,3)] plain_propD(2,3) [OF p(4)] p(1) show ?thesis
      by (simp add: v c True [symmetric] has_own_def ownFieldValue_def map_simps)
  next
    case False
    then show ?thesis by (simp add: v c p(1) has_own_def ownFieldValue_def map_simps)
  qed
qed simp_all

lemma at_apart: "apart ks js \<Longrightarrow> has_path v ks \<Longrightarrow> has_path v js \<Longrightarrow> at_path (repl v ks y) js = at_path v js"
proof (induction ks js arbitrary: v rule: apart.induct)
  case (1 k ks j js)
  then show ?case by (cases v) (auto simp: map_simps split: option.splits)
qed simp_all

lemma repl_apart:
  "apart ks js \<Longrightarrow> has_path v ks \<Longrightarrow> has_path v js \<Longrightarrow> repl (repl v ks y) js z = repl (repl v js z) ks y"
proof (induction ks js arbitrary: v rule: apart.induct)
  case (1 k ks j js)
  then obtain c ps ss where v: "v = Obj c ps ss" by (cases v) auto
  with "1.prems" obtain p q where p: "map_of ps k = Some p" "has_path (prop_val p) ks"
      and q: "map_of ps j = Some q" "has_path (prop_val q) js" by (auto split: option.splits)
  show ?case
  proof (cases "k = j")
    case True
    with "1.prems"(1) p q have "apart ks js" "p = q" by simp_all
    with "1.IH" [of "prop_val p"] p q True show ?thesis by (simp add: v map_simps)
  next
    case False
    with p(1) q(1) show ?thesis
      by (simp add: v map_simps update_commute [of ps j k])
  qed
qed simp_all

section \<open>Fields and paths\<close>

definition path :: "string \<Rightarrow> string list" where
  "path f = split_on CHR ''.'' f"

lemma path_nonempty [simp]: "path f \<noteq> []"
  by (simp add: path_def)

lemma not_apart: "\<not> apart ks js \<Longrightarrow> (\<exists>zs. js = ks @ zs) \<or> (\<exists>zs. ks = js @ zs)"
  by (induction ks js rule: apart.induct) auto

lemma join_append: "ks \<noteq> [] \<Longrightarrow> zs \<noteq> [] \<Longrightarrow> join_with c (ks @ zs) = join_with c ks @ c # join_with c zs"
proof (induction ks rule: list_nonempty_induct)
  case (single k)
  then show ?case by (cases zs) auto
next
  case (cons k ks)
  then show ?case by (cases ks) auto
qed

lemma prefix_starts: "path g = path f @ zs \<Longrightarrow> g = f \<or> starts_with g (f @ ''.'')"
proof -
  assume e: "path g = path f @ zs"
  show ?thesis
  proof (cases zs)
    case Nil
    with e have "join_with CHR ''.'' (path g) = join_with CHR ''.'' (path f)" by simp
    then show ?thesis by (simp add: path_def)
  next
    case (Cons z zs')
    have "join_with CHR ''.'' (path g) = join_with CHR ''.'' (path f) @ CHR ''.'' # join_with CHR ''.'' zs"
      unfolding e by (rule join_append) (simp_all add: Cons)
    then show ?thesis by (simp add: path_def starts_with_def)
  qed
qed

lemma unrelated_apart: "fieldCodecPathRelation f g = None \<Longrightarrow> apart (path f) (path g)"
  using not_apart [of "path f" "path g"] prefix_starts [of g f] prefix_starts [of f g]
  by (auto simp: fieldCodecPathRelation_def split: if_splits)

lemma valueFor_path: "valueFor v f = Inr x \<Longrightarrow> value_at v (path f) = Inr x"
  by (auto simp: valueFor_def rbind_Inr_iff path_def)

section \<open>Writing and reading back\<close>

definition good_row :: "jsval \<Rightarrow> bool" where
  "good_row v = (row_value v \<and> is_plain_object v)"

abbreviation run_codec :: "codec_operation \<Rightarrow> FieldCodec \<Rightarrow> jsval \<Rightarrow> jsval res" where
  "run_codec op c \<equiv> (if op = WriteOp then fc_encode c else fc_decode c)"

text \<open>What a codec answers on the value that a row holds at its field is portable data.\<close>

definition portable_result :: "codec_operation \<Rightarrow> jsval \<Rightarrow> string \<times> FieldCodec \<Rightarrow> bool" where
  "portable_result op v fc \<longleftrightarrow>
     (\<forall>x e. valueFor v (fst fc) = Inr x \<longrightarrow> x \<noteq> Undef \<longrightarrow> run_codec op (snd fc) x = Inr e \<longrightarrow> row_value e)"

text \<open>One codec moves a field of a row to a field of another: both miss it, or the second holds the codec's answer.\<close>

definition coded :: "codec_operation \<Rightarrow> jsval \<Rightarrow> jsval \<Rightarrow> string \<times> FieldCodec \<Rightarrow> bool" where
  "coded op v w fc \<longleftrightarrow> valueFor v (fst fc) = Inr Undef \<and> valueFor w (fst fc) = Inr Undef
     \<or> (\<exists>x e. valueFor v (fst fc) = Inr x \<and> x \<noteq> Undef \<and> run_codec op (snd fc) x = Inr e \<and> e \<noteq> Undef \<and> valueFor w (fst fc) = Inr e)"

lemma value_at_good: "good_row v \<Longrightarrow> value_at v ks = Inr x \<Longrightarrow> x \<noteq> Undef \<Longrightarrow> row_value x"
  using value_at_row by (auto simp: good_row_def)

lemma repl_good: "good_row v \<Longrightarrow> has_path v ks \<Longrightarrow> ks \<noteq> [] \<Longrightarrow> row_value y \<Longrightarrow> good_row (repl v ks y)"
  by (simp add: good_row_def repl_row repl_plain)

lemma safe_field: "valueFor v f = Inr x \<Longrightarrow> assertSafeFieldPath (Str f) = Inr f"
  by (auto simp: valueFor_def rbind_Inr_iff dest: assertSafeFieldPath_same simp del: assertSafeFieldPath.simps)

lemma valueFor_eq: "assertSafeFieldPath (Str f) = Inr f \<Longrightarrow> valueFor v f = value_at v (path f)"
  by (simp add: valueFor_def path_def del: assertSafeFieldPath.simps)

lemma setPath_eq: "assertSafeFieldPath (Str f) = Inr f \<Longrightarrow> setPath v f y = set_at v (path f) y"
  by (simp add: setPath_def path_def del: assertSafeFieldPath.simps)

text \<open>One codec either finds nothing to do or replaces the value at its path.\<close>

lemma apply_codec_cases:
  assumes "applyFieldCodec f c op v = Inr w" and "good_row v" and "portable_result op v (f, c)"
  obtains (missing) "valueFor v f = Inr Undef" "w = v"
  | (replaced) x e where "has_path v (path f)" "x = at_path v (path f)" "valueFor v f = Inr x" "x \<noteq> Undef" "row_value x" "row_value e"
      "run_codec op c x = Inr e" "w = repl v (path f) e"
proof -
  from assms(1) obtain x where x: "valueFor v f = Inr x"
    and rest: "(if x = Undef then Inr v else applyFieldCodec f c op v) = Inr w"
    by (auto simp: applyFieldCodec_def rbind_Inr_iff split: if_splits)
  show thesis
  proof (cases "x = Undef")
    case True
    with x rest show thesis by (intro missing) simp_all
  next
    case False
    with assms(1) x obtain e where e: "run_codec op c x = Inr e" "e \<noteq> Undef" "setPath v f e = Inr w"
      by (auto simp: applyFieldCodec_def rbind_Inr_iff guarded_def assertDefinedFieldCodecResult_def split: if_splits sum.splits)
    from e(3) have s: "set_at v (path f) e = Inr w" by (simp add: setPath_eq [OF safe_field [OF x]])
    have g: "row_value v" "is_plain_object v" using assms(2) by (simp_all add: good_row_def)
    have hp: "has_path v (path f)" using set_path_exists [OF valueFor_path [OF x] False s g] .
    have rx: "row_value x" using value_at_good [OF assms(2) valueFor_path [OF x] False] .
    have re: "row_value e" using assms(3) x False e(1) unfolding portable_result_def fst_conv snd_conv by blast
    have "x = at_path v (path f)" using value_at_path [OF hp g(1)] valueFor_path [OF x] by simp
    moreover have "w = repl v (path f) e" using set_at_repl [OF hp g(1) path_nonempty] s by simp
    ultimately show thesis using replaced hp x False rx re e(1) by metis
  qed
qed

lemma apply_codec_good:
  "applyFieldCodec f c op v = Inr w \<Longrightarrow> good_row v \<Longrightarrow> portable_result op v (f, c) \<Longrightarrow> good_row w"
  by (erule apply_codec_cases) (auto simp: repl_good)

lemma valueFor_apart:
  "apart ks (path f) \<Longrightarrow> has_path v ks \<Longrightarrow> row_value v \<Longrightarrow> valueFor (repl v ks y) f = valueFor v f"
  using value_at_apart [of ks "path f" v y] by (simp add: valueFor_def path_def)

lemma valueFor_repl:
  assumes "has_path v (path f)" and "row_value v" and "row_value e" and "assertSafeFieldPath (Str f) = Inr f"
  shows "valueFor (repl v (path f) e) f = Inr e"
  using value_at_path [OF has_path_repl [OF assms(1)] repl_row [OF assms(1-3)]] at_repl [OF assms(1)]
  by (simp add: valueFor_eq [OF assms(4)])

lemma apply_codec_coded:
  assumes "applyFieldCodec f c op v = Inr w" and "good_row v" and "portable_result op v (f, c)"
  shows "coded op v w (f, c)"
  using assms
proof (cases rule: apply_codec_cases)
  case (replaced x e)
  from replaced(6) have "e \<noteq> Undef" by auto
  with valueFor_repl [OF replaced(1) _ replaced(6) safe_field [OF replaced(3)]] replaced assms(2) show ?thesis
    unfolding coded_def fst_conv snd_conv good_row_def by blast
qed (simp add: coded_def)

lemma apply_codec_apart:
  assumes "applyFieldCodec f c op v = Inr w" and "good_row v" and "portable_result op v (f, c)" and "apart (path f) (path g)"
  shows "valueFor w g = valueFor v g"
  using assms(1-3) by (cases rule: apply_codec_cases) (use valueFor_apart [OF assms(4)] assms(2) in \<open>auto simp: good_row_def\<close>)

text \<open>A codec commutes with a replacement elsewhere.\<close>

lemma apply_codec_commutes:
  assumes "applyFieldCodec f c op v = Inr w" and "good_row v" and "portable_result op v (f, c)"
    and "apart ks (path f)" and "has_path v ks" and "row_value y"
  shows "applyFieldCodec f c op (repl v ks y) = Inr (repl w ks y)" "has_path w ks" "at_path w ks = at_path v ks"
proof -
  have rv: "row_value v" using assms(2) by (simp add: good_row_def)
  note va = valueFor_apart [OF assms(4,5) rv, of y]
  have ks: "ks \<noteq> []" using assms(4) by (cases ks) auto
  have "applyFieldCodec f c op (repl v ks y) = Inr (repl w ks y) \<and> has_path w ks \<and> at_path w ks = at_path v ks"
    using assms(1-3)
  proof (cases rule: apply_codec_cases)
    case missing
    with va assms(5) show ?thesis by (simp add: applyFieldCodec_def)
  next
    case (replaced x e)
    from replaced(6) have "e \<noteq> Undef" by auto
    have hp: "has_path (repl v ks y) (path f)" using has_path_apart [OF assms(4,5)] replaced(1) by simp
    have "row_value (repl v ks y)" using repl_row [OF assms(5) rv assms(6)] .
    from set_at_repl [OF hp this path_nonempty]
    have "setPath (repl v ks y) f e = Inr (repl (repl v ks y) (path f) e)"
      by (simp add: setPath_eq [OF safe_field [OF replaced(3)]])
    moreover have "repl (repl v ks y) (path f) e = repl w ks y"
      using repl_apart [OF assms(4,5) replaced(1)] replaced(8) by simp
    moreover have "has_path w ks" "at_path w ks = at_path v ks"
      using has_path_apart [OF apart_sym [OF assms(4)] replaced(1), of e] at_apart [OF apart_sym [OF assms(4)] replaced(1) assms(5), of e]
        assms(5) replaced(8) by simp_all
    ultimately show ?thesis
      using va replaced(3,4,7) \<open>e \<noteq> Undef\<close>
      by (simp add: applyFieldCodec_def guarded_def assertDefinedFieldCodecResult_def)
  qed
  then show "applyFieldCodec f c op (repl v ks y) = Inr (repl w ks y)" "has_path w ks" "at_path w ks = at_path v ks" by auto
qed

abbreviation apply_all :: "codec_operation \<Rightarrow> codecs \<Rightarrow> jsval \<Rightarrow> jsval res" where
  "apply_all op \<equiv> rfold (\<lambda>(f, c). applyFieldCodec f c op)"

fun unrelated :: "codecs \<Rightarrow> bool" where
  "unrelated [] = True"
| "unrelated ((f, c) # cs) = (list_all (\<lambda>(g, d). fieldCodecPathRelation f g = None) cs \<and> unrelated cs)"

text \<open>The first step of a run over unrelated codecs, with what the others still need.\<close>

lemma apply_all_step:
  assumes "apply_all op ((f, c) # cs) v = Inr w" and "good_row v" and "list_all (portable_result op v) ((f, c) # cs)" and "unrelated ((f, c) # cs)"
  obtains u where "applyFieldCodec f c op v = Inr u" "apply_all op cs u = Inr w" "good_row u" "list_all (portable_result op u) cs" "unrelated cs"
    "portable_result op v (f, c)" "list_all (\<lambda>gd. apart (path f) (path (fst gd))) cs" "list_all (\<lambda>gd. valueFor u (fst gd) = valueFor v (fst gd)) cs"
proof -
  from assms(1) obtain u where u: "applyFieldCodec f c op v = Inr u" "apply_all op cs u = Inr w" by (auto simp: rbind_Inr_iff)
  from assms(3) have p: "portable_result op v (f, c)" by simp
  from assms(4) have ap: "list_all (\<lambda>gd. apart (path f) (path (fst gd))) cs"
    by (fastforce simp: list_all_iff dest: unrelated_apart)
  then have same: "list_all (\<lambda>gd. valueFor u (fst gd) = valueFor v (fst gd)) cs"
    using apply_codec_apart [OF u(1) assms(2) p] by (simp add: list_all_iff)
  with assms(3) have "list_all (portable_result op u) cs" by (simp add: list_all_iff portable_result_def)
  with u apply_codec_good [OF u(1) assms(2) p] p ap same assms(4) show thesis by (intro that) simp_all
qed

lemma apply_all_good:
  "apply_all op cs v = Inr w \<Longrightarrow> good_row v \<Longrightarrow> list_all (portable_result op v) cs \<Longrightarrow> unrelated cs \<Longrightarrow> good_row w"
proof (induction cs arbitrary: v)
  case (Cons fc cs)
  obtain f c where fc: "fc = (f, c)" by (cases fc)
  from Cons.prems [unfolded fc] show ?case
  proof (cases rule: apply_all_step)
    case (1 u)
    then show ?thesis using Cons.IH by blast
  qed
qed simp

lemma apply_all_apart:
  assumes "apply_all op cs v = Inr w" and "good_row v" and "list_all (portable_result op v) cs" and "unrelated cs"
    and "list_all (\<lambda>gd. apart (path (fst gd)) (path f)) cs"
  shows "valueFor w f = valueFor v f"
  using assms
proof (induction cs arbitrary: v)
  case (Cons gd cs)
  obtain g d where gd: "gd = (g, d)" by (cases gd)
  from Cons.prems(1-4) [unfolded gd] show ?case
  proof (cases rule: apply_all_step)
    case (1 u)
    have "apart (path g) (path f)" using Cons.prems(5) gd by simp
    from apply_codec_apart [OF 1(1) Cons.prems(2) 1(6) this] Cons.IH [OF 1(2-5)] Cons.prems(5) show ?thesis by simp
  qed
qed simp

lemma apart_flip: "list_all (\<lambda>gd. apart ks (path (fst gd))) cs \<Longrightarrow> list_all (\<lambda>gd. apart (path (fst gd)) ks) cs"
  by (auto simp: list_all_iff dest: apart_sym)

text \<open>Every codec of the list has done its work once all have run.\<close>

lemma apply_all_coded:
  assumes "apply_all op cs v = Inr w" and "good_row v" and "list_all (portable_result op v) cs" and "unrelated cs"
  shows "list_all (coded op v w) cs"
  using assms
proof (induction cs arbitrary: v)
  case (Cons fc cs)
  obtain f c where fc: "fc = (f, c)" by (cases fc)
  from Cons.prems [unfolded fc] show ?case
  proof (cases rule: apply_all_step)
    case (1 u)
    from Cons.IH [OF 1(2-5)] 1(8) have "list_all (coded op v w) cs" by (simp add: list_all_iff coded_def)
    moreover have "coded op v w (f, c)"
      using apply_codec_coded [OF 1(1) Cons.prems(2) 1(6)] apply_all_apart [OF 1(2-5) apart_flip [OF 1(7)]] by (simp add: coded_def)
    ultimately show ?thesis by (simp add: fc)
  qed
qed simp

lemma apply_all_commutes:
  assumes "apply_all op cs v = Inr w" and "good_row v" and "list_all (portable_result op v) cs" and "unrelated cs"
    and "list_all (\<lambda>gd. apart ks (path (fst gd))) cs" and "has_path v ks" and "row_value y"
  shows "apply_all op cs (repl v ks y) = Inr (repl w ks y) \<and> has_path w ks \<and> at_path w ks = at_path v ks"
  using assms
proof (induction cs arbitrary: v)
  case (Cons fc cs)
  obtain f c where fc: "fc = (f, c)" by (cases fc)
  from Cons.prems(1-4) [unfolded fc] show ?case
  proof (cases rule: apply_all_step)
    case (1 u)
    have "apart ks (path f)" using Cons.prems(5) fc by simp
    note a = apply_codec_commutes [OF 1(1) Cons.prems(2) 1(6) this Cons.prems(6,7)]
    from Cons.IH [OF 1(2-5) _ a(2) Cons.prems(7)] Cons.prems(5) a show ?thesis by (simp add: fc)
  qed
qed simp

text \<open>On the value a row holds at its field, decoding undoes encoding.\<close>

definition decodes_back :: "jsval \<Rightarrow> string \<times> FieldCodec \<Rightarrow> bool" where
  "decodes_back v fc \<longleftrightarrow>
     (\<forall>x e. valueFor v (fst fc) = Inr x \<longrightarrow> x \<noteq> Undef \<longrightarrow> fc_encode (snd fc) x = Inr e \<longrightarrow> fc_decode (snd fc) e = Inr x)"

lemma decodes_portable:
  assumes "good_row v" and "decodes_back v fc" and "coded WriteOp v w fc"
  shows "portable_result ReadOp w fc"
  using assms value_at_good [OF assms(1) valueFor_path]
  unfolding decodes_back_def coded_def portable_result_def by (auto split: if_splits)

lemma read_back:
  assumes "apply_all WriteOp cs v = Inr w" and "good_row v" and "list_all (portable_result WriteOp v) cs" and "unrelated cs"
    and "list_all (decodes_back v) cs"
  shows "apply_all ReadOp cs w = Inr v"
  using assms
proof (induction cs arbitrary: v)
  case (Cons fc cs)
  obtain f c where fc: "fc = (f, c)" by (cases fc)
  from Cons.prems(1-4) [unfolded fc] show ?case
  proof (cases rule: apply_all_step)
    case (1 u)
    have db: "list_all (decodes_back u) cs" using Cons.prems(5) 1(8) by (simp add: list_all_iff decodes_back_def)
    note rest = Cons.IH [OF 1(2-5) db]
    have gw: "good_row w" using apply_all_good [OF 1(2-5)] .
    have pw: "list_all (portable_result ReadOp w) cs"
      using apply_all_coded [OF 1(2-5)] db decodes_portable [OF 1(3)] by (auto simp: list_all_iff)
    note same = apply_all_apart [OF 1(2-5) apart_flip [OF 1(7)]]
    from 1(1) Cons.prems(2) 1(6) show ?thesis
    proof (cases rule: apply_codec_cases)
      case missing
      with same rest show ?thesis by (simp add: fc applyFieldCodec_def)
    next
      case (replaced x e)
      have dec: "fc_decode c e = Inr x" using Cons.prems(5) replaced(3,4,7) unfolding fc decodes_back_def by simp
      have hu: "has_path u (path f)" "at_path u (path f) = e"
        using replaced(1,8) by (simp_all add: has_path_repl at_repl)
      have hw: "has_path w (path f)" "at_path w (path f) = e"
        using apply_all_commutes [OF 1(2-5) 1(7) hu(1) replaced(5)] hu(2) by simp_all
      have rw: "row_value w" using gw by (simp add: good_row_def)
      have "e \<noteq> Undef" using replaced(6) by auto
      note sf = safe_field [OF replaced(3)]
      have "valueFor w f = Inr e" using value_at_path [OF hw(1) rw] hw(2) by (simp add: valueFor_eq [OF sf])
      moreover have "setPath w f x = Inr (repl w (path f) x)"
        using set_at_repl [OF hw(1) rw path_nonempty] by (simp add: setPath_eq [OF sf])
      ultimately have "applyFieldCodec f c ReadOp w = Inr (repl w (path f) x)"
        using dec \<open>e \<noteq> Undef\<close> replaced(4) by (simp add: applyFieldCodec_def guarded_def assertDefinedFieldCodecResult_def)
      moreover have "apply_all ReadOp cs (repl w (path f) x) = Inr (repl u (path f) x)"
        using apply_all_commutes [OF rest gw pw 1(5) 1(7) hw(1) replaced(5)] by simp
      moreover have "repl u (path f) x = v"
        using repl_repl [OF replaced(1)] repl_same [OF replaced(1)] replaced(2,8) Cons.prems(2) by (simp add: good_row_def)
      ultimately show ?thesis by (simp add: fc)
    qed
  qed
qed simp

text \<open>A codec whose answers on the values of a row are portable data: what it encodes, and what it decodes that to.\<close>

definition portable_codec :: "jsval \<Rightarrow> string \<times> FieldCodec \<Rightarrow> bool" where
  "portable_codec v fc \<longleftrightarrow>
     (\<forall>x e. valueFor v (fst fc) = Inr x \<longrightarrow> x \<noteq> Undef \<longrightarrow> fc_encode (snd fc) x = Inr e \<longrightarrow>
        row_value e \<and> (\<forall>y. fc_decode (snd fc) e = Inr y \<longrightarrow> row_value y))"

lemma portable_codec_results:
  assumes "portable_codec v fc"
  shows "portable_result WriteOp v fc" and "coded WriteOp v w fc \<Longrightarrow> portable_result ReadOp w fc"
  using assms unfolding portable_codec_def portable_result_def coded_def by (auto split: if_splits)

text \<open>A field of the row that was written, of the row that is stored and of the row that is read back.\<close>

definition coded_field :: "jsval \<Rightarrow> jsval \<Rightarrow> jsval \<Rightarrow> string \<times> FieldCodec \<Rightarrow> bool" where
  "coded_field row stored back fc \<longleftrightarrow>
     valueFor row (fst fc) = Inr Undef \<and> valueFor stored (fst fc) = Inr Undef \<and> valueFor back (fst fc) = Inr Undef
     \<or> (\<exists>x e y. valueFor row (fst fc) = Inr x \<and> fc_encode (snd fc) x = Inr e \<and> valueFor stored (fst fc) = Inr e
          \<and> fc_decode (snd fc) e = Inr y \<and> valueFor back (fst fc) = Inr y)"

lemma coded_both: "coded WriteOp row stored fc \<Longrightarrow> coded ReadOp stored back fc \<Longrightarrow> coded_field row stored back fc"
  unfolding coded_def coded_field_def by auto

lemma applied_rows:
  assumes "cloneSafeData data = Inr row" and "good_row row" and "list_all (portable_result op row) cs" and "unrelated cs"
  shows "applyFieldCodecs cs op data = Inr w \<longleftrightarrow> apply_all op cs row = Inr w"
proof -
  have "row_value w" if "apply_all op cs row = Inr w" for w
    using apply_all_good [OF that assms(2-4)] by (simp add: good_row_def)
  then have "rbind (apply_all op cs row) cloneSafeData = apply_all op cs row"
    by (cases "apply_all op cs row") (simp_all add: row_clone)
  then show ?thesis by (simp add: applyFieldCodecs_def assms(1))
qed

section \<open>Property\<close>

text \<open>C29. Codecs lose nothing that they can give back. A row of portable data is written through codecs none of whose fields
  lies inside another, and what each codec answers on the values of this row is portable data. Then, first, if decoding undoes
  encoding on the values that the row holds at the codec fields, reading the stored row back gives the row that was
  written, in the same property order. Second, for any codecs: the stored row holds the encoded value at every
  codec field, a row read back holds the decoded encoded value there (a missing field stays missing), and every
  field path outside the codec fields holds in both what it held in the row.\<close>

theorem codecs_roundtrip:
  assumes "cloneSafeData data = Inr row" and "row_value row" and "is_plain_object row"
    and "list_all (portable_codec row) cs" and "unrelated cs" and "applyFieldCodecs cs WriteOp data = Inr stored"
  shows "(list_all (decodes_back row) cs \<longrightarrow> applyFieldCodecs cs ReadOp stored = Inr row)
    \<and> (\<forall>back. applyFieldCodecs cs ReadOp stored = Inr back \<longrightarrow>
         list_all (coded_field row stored back) cs
         \<and> (\<forall>g. list_all (\<lambda>(f, c). fieldCodecPathRelation f g = None) cs \<longrightarrow>
               valueFor stored g = valueFor row g \<and> valueFor back g = valueFor row g))"
proof -
  have g: "good_row row" using assms(2,3) by (simp add: good_row_def)
  have pw: "list_all (portable_result WriteOp row) cs" using assms(4) portable_codec_results(1) by (auto simp: list_all_iff)
  have w: "apply_all WriteOp cs row = Inr stored" using assms(6) applied_rows [OF assms(1) g pw assms(5)] by simp
  have gs: "good_row stored" using apply_all_good [OF w g pw assms(5)] .
  then have s: "cloneSafeData stored = Inr stored" by (simp add: good_row_def row_clone)
  note cw = apply_all_coded [OF w g pw assms(5)]
  have pr: "list_all (portable_result ReadOp stored) cs"
    using assms(4) cw portable_codec_results(2) by (auto simp: list_all_iff)
  note r = applied_rows [OF s gs pr assms(5)]
  have "list_all (coded_field row stored final) cs" if "apply_all ReadOp cs stored = Inr final" for final
    using apply_all_coded [OF that gs pr assms(5)] cw coded_both by (auto simp: list_all_iff)
  moreover have "valueFor stored g = valueFor row g \<and> valueFor final g = valueFor row g"
    if "apply_all ReadOp cs stored = Inr final" and "list_all (\<lambda>(f, c). fieldCodecPathRelation f g = None) cs" for final g
  proof -
    have "list_all (\<lambda>fc. apart (path (fst fc)) (path g)) cs" using that(2) by (fastforce simp: list_all_iff dest: unrelated_apart)
    from apply_all_apart [OF w g pw assms(5) this] apply_all_apart [OF that(1) gs pr assms(5) this] show ?thesis by simp
  qed
  ultimately show ?thesis using read_back [OF w g pw assms(5)] r by blast
qed

text \<open>A codec as the documentation shows it: the encoder converts its value (a text or an integer) to text and puts a mark before it, the decoder
  takes the mark away. A number comes back as its text.\<close>

definition text_codec :: FieldCodec where
  "text_codec = \<lparr>fc_encode = (\<lambda>v. case v of Str s \<Rightarrow> Inr (Str (''p:'' @ s)) | Num n \<Rightarrow> Inr (Str (''p:'' @ show_int (int_of_num n))) | _ \<Rightarrow> Inl (ExternalError 0)),
     fc_decode = (\<lambda>v. case v of Str s \<Rightarrow> Inr (Str (drop 2 s)) | _ \<Rightarrow> Inl (ExternalError 0)),
     fc_encodeQuery = None, fc_queryOperators = None\<rparr>"

theorem codecs_roundtrip_witness:
  "applyFieldCodecs [(''a.b'', text_codec)] ReadOp (js_object [(''a'', js_object [(''b'', Str ''p:x'')]), (''c'', Null)])
     = Inr (js_object [(''a'', js_object [(''b'', Str ''x'')]), (''c'', Null)]) \<and>
   coded_field (js_object [(''a'', js_int 5)]) (js_object [(''a'', Str ''p:5'')]) (js_object [(''a'', Str ''5'')]) (''a'', text_codec)"
proof -
  have port: "list_all (portable_codec v) [(f, text_codec)]" for v f
    by (auto simp: portable_codec_def text_codec_def split: jsval.splits)
  let ?row = "js_object [(''a'', js_object [(''b'', Str ''x'')]), (''c'', Null)]"
  have r: "cloneSafeData ?row = Inr ?row" "row_value ?row" "is_plain_object ?row" "unrelated [(''a.b'', text_codec)]"
    by code_simp+
  have w: "applyFieldCodecs [(''a.b'', text_codec)] WriteOp ?row
      = Inr (js_object [(''a'', js_object [(''b'', Str ''p:x'')]), (''c'', Null)])" by code_simp
  have "valueFor ?row ''a.b'' = Inr (Str ''x'')" by code_simp
  then have "list_all (decodes_back ?row) [(''a.b'', text_codec)]" by (simp add: decodes_back_def text_codec_def)
  with codecs_roundtrip [OF r(1,2,3) port r(4) w]
  have 1: "applyFieldCodecs [(''a.b'', text_codec)] ReadOp (js_object [(''a'', js_object [(''b'', Str ''p:x'')]), (''c'', Null)]) = Inr ?row"
    by blast
  let ?n = "js_object [(''a'', js_int 5)]"
  have n: "cloneSafeData ?n = Inr ?n" "row_value ?n" "is_plain_object ?n" "unrelated [(''a'', text_codec)]"
    "applyFieldCodecs [(''a'', text_codec)] WriteOp ?n = Inr (js_object [(''a'', Str ''p:5'')])"
    "applyFieldCodecs [(''a'', text_codec)] ReadOp (js_object [(''a'', Str ''p:5'')]) = Inr (js_object [(''a'', Str ''5'')])"
    by code_simp+
  from codecs_roundtrip [OF n(1,2,3) port n(4,5)] n(6)
  have "list_all (coded_field ?n (js_object [(''a'', Str ''p:5'')]) (js_object [(''a'', Str ''5'')])) [(''a'', text_codec)]" by blast
  with 1 show ?thesis by simp
qed

end
