(* ===== verification/DateText.thy ===== *)
theory DateText
  imports IsoDate
begin

text \<open>
  \<open>new Date(text)\<close> of the code, for the only texts whose result the code keeps: it compares the ISO text of the
  parsed date with the input, so a text of another form is rejected whatever date an engine reads from it.
\<close>

definition part :: "nat \<Rightarrow> nat \<Rightarrow> string \<Rightarrow> nat" where
  "part from len s = read_nat (take len (drop from s))"

definition digits_in :: "nat \<Rightarrow> nat \<Rightarrow> string \<Rightarrow> bool" where
  "digits_in from len s = list_all is_digit (take len (drop from s))"

text \<open>\<open>YYYY-MM-DDTHH:mm:ss.sssZ\<close>.\<close>

definition iso_shape :: "string \<Rightarrow> bool" where
  "iso_shape s = (length s = 24 \<and> digits_in 0 4 s \<and> s ! 4 = CHR ''-'' \<and> digits_in 5 2 s \<and> s ! 7 = CHR ''-''
     \<and> digits_in 8 2 s \<and> s ! 10 = CHR ''T'' \<and> digits_in 11 2 s \<and> s ! 13 = CHR '':'' \<and> digits_in 14 2 s
     \<and> s ! 16 = CHR '':'' \<and> digits_in 17 2 s \<and> s ! 19 = CHR ''.'' \<and> digits_in 20 3 s \<and> s ! 23 = CHR ''Z'')"

definition time_of_parts :: "int \<Rightarrow> nat \<Rightarrow> nat \<Rightarrow> nat \<Rightarrow> nat \<Rightarrow> nat \<Rightarrow> nat \<Rightarrow> int" where
  "time_of_parts y m d h mi s ms =
     (days_before_year y + month_starts (leap y) ! (m - 1) + int d - 1 - EPOCH_DAYS) * MS_PER_DAY
       + (int h * 3600000 + int mi * 60000 + int s * 1000 + int ms)"

definition date_parse :: "string \<Rightarrow> int option" where
  "date_parse s =
     (if \<not> iso_shape s then None
      else let m = part 5 2 s; d = part 8 2 s; h = part 11 2 s; mi = part 14 2 s; sec = part 17 2 s in
        if m = 0 \<or> 12 < m \<or> d = 0 \<or> 31 < d \<or> 23 < h \<or> 59 < mi \<or> 59 < sec then None
        else Some (time_of_parts (int (part 0 4 s)) m d h mi sec (part 20 3 s)))"

text \<open>Years outside 0 to 9999 are written with a sign and six digits; \<open>dateParse\<close> reads both forms, which are the forms
  that \<open>toISOString\<close> writes.\<close>

definition date_parse_long :: "string \<Rightarrow> int option" where
  "date_parse_long s = (let rest = ''0000'' @ drop 7 s; year = int (part 1 6 s) in
     if length s \<noteq> 27 \<or> (hd s \<noteq> CHR ''+'' \<and> hd s \<noteq> CHR ''-'') \<or> \<not> digits_in 1 6 s \<or> date_parse rest = None
        \<or> (hd s = CHR ''-'' \<and> year = 0) then None
     else let t = time_of_parts (if hd s = CHR ''-'' then - year else year) (part 5 2 rest) (part 8 2 rest) (part 11 2 rest)
             (part 14 2 rest) (part 17 2 rest) (part 20 3 rest) in
       if \<bar>t\<bar> \<le> 8640000000000000 then Some t else None)"

definition dateParse :: "string \<Rightarrow> int option" where
  "dateParse s = (case date_parse s of Some t \<Rightarrow> Some t | None \<Rightarrow> date_parse_long s)"

section \<open>Years, months and padding\<close>

lemma div_bounds: "0 < k \<Longrightarrow> k * (x div k) \<le> x \<and> x < k * (x div k) + (k :: int)"
  using pos_mod_bound [of k x] pos_mod_sign [of k x] mult_div_mod_eq [of k x] by linarith

lemma days_before_year_le:
  assumes "0 \<le> y"
  shows "days_before_year y \<le> 366 * y"
proof -
  define a b c where "a = (y + 3) div 4" and "b = (y + 99) div 100" and "c = (y + 399) div 400"
  have a: "4 * a \<le> y + 3" using div_bounds [of 4 "y + 3"] by (simp add: a_def)
  have b: "y + 99 < 100 * b + 100" using div_bounds [of 100 "y + 99"] by (simp add: b_def)
  have c: "400 * c \<le> y + 399" using div_bounds [of 400 "y + 399"] by (simp add: c_def)
  have "c \<le> b" using b c assms by linarith
  moreover have "a \<le> y" using a assms by linarith
  ultimately show ?thesis unfolding days_before_year_def a_def b_def c_def by linarith
qed

lemma year_from_bounds:
  "days_before_year y \<le> d \<Longrightarrow> days_before_year (year_from d y) \<le> d \<and> d < days_before_year (year_from d y + 1) \<and> y \<le> year_from d y"
proof (induction d y rule: year_from.induct)
  case (1 d y)
  show ?case
  proof (cases "days_before_year (y + 1) \<le> d")
    case True
    with "1.IH" [OF True True] show ?thesis by (subst (1 2 3) year_from.simps) auto
  next
    case False
    with "1.prems" show ?thesis by (subst (1 2 3) year_from.simps) auto
  qed
qed

lemma year_of_day_bounds:
  assumes "0 \<le> d"
  shows "days_before_year (year_of_day d) \<le> d" "d < days_before_year (year_of_day d + 1)" "0 \<le> year_of_day d"
proof -
  have p: "0 \<le> d div 366" using assms by simp
  have "366 * (d div 366) \<le> d" using div_bounds [of 366 d] by simp
  then have "days_before_year (d div 366) \<le> d" using days_before_year_le [OF p] by linarith
  from year_from_bounds [OF this] p assms
  show "days_before_year (year_of_day d) \<le> d" "d < days_before_year (year_of_day d + 1)" "0 \<le> year_of_day d"
    by (auto simp: year_of_day_def)
qed

lemma days_before_year_mono: "x \<le> y \<Longrightarrow> days_before_year x \<le> days_before_year y"
proof -
  have "days_before_year x \<le> days_before_year (x + int n)" for n
    using days_before_year_less by (induction n) (simp_all, smt (verit) add.commute add.left_commute)
  moreover assume "x \<le> y"
  then have "y = x + int (nat (y - x))" by simp
  ultimately show ?thesis by metis
qed

lemma month_bounds:
  assumes "0 \<le> n" "n < (if l then 366 else 365)"
  shows "1 \<le> month_of l n \<and> month_of l n \<le> 12 \<and> month_starts l ! (month_of l n - 1) \<le> n
    \<and> n - month_starts l ! (month_of l n - 1) < 31"
proof (cases l)
  case True
  have "n < 31 \<or> 31 \<le> n \<and> n < 60 \<or> 60 \<le> n \<and> n < 91 \<or> 91 \<le> n \<and> n < 121 \<or> 121 \<le> n \<and> n < 152 \<or> 152 \<le> n \<and> n < 182 \<or> 182 \<le> n \<and> n < 213 \<or> 213 \<le> n \<and> n < 244 \<or> 244 \<le> n \<and> n < 274 \<or> 274 \<le> n \<and> n < 305 \<or> 305 \<le> n \<and> n < 335 \<or> 335 \<le> n" by linarith
  with assms True show ?thesis by (elim disjE) (simp_all add: month_of_def month_starts_def)
next
  case False
  have "n < 31 \<or> 31 \<le> n \<and> n < 59 \<or> 59 \<le> n \<and> n < 90 \<or> 90 \<le> n \<and> n < 120 \<or> 120 \<le> n \<and> n < 151 \<or> 151 \<le> n \<and> n < 181 \<or> 181 \<le> n \<and> n < 212 \<or> 212 \<le> n \<and> n < 243 \<or> 243 \<le> n \<and> n < 273 \<or> 273 \<le> n \<and> n < 304 \<or> 304 \<le> n \<and> n < 334 \<or> 334 \<le> n" by linarith
  with assms False show ?thesis by (elim disjE) (simp_all add: month_of_def month_starts_def)
qed

lemma show_nat_length: "n < 10 ^ Suc w \<Longrightarrow> length (show_nat n) \<le> Suc w"
proof (induction w arbitrary: n)
  case 0
  then show ?case by (simp add: show_nat.simps)
next
  case (Suc w)
  show ?case
  proof (cases "n < 10")
    case False
    have "n div 10 < 10 ^ Suc w" using Suc.prems by (simp add: less_mult_imp_div_less)
    with Suc.IH False show ?thesis by (subst show_nat.simps) simp
  qed (simp add: show_nat.simps)
qed

lemma read_zeros: "read_nat (replicate k CHR ''0'' @ s) = read_nat s"
proof -
  have "foldl (\<lambda>n c. 10 * n + char_digit c) 0 (replicate k CHR ''0'') = 0"
    by (induction k) (simp_all add: char_digit_def)
  then show ?thesis by (simp add: read_nat_def)
qed

lemma pad_facts:
  assumes "n < 10 ^ Suc w"
  shows "length (pad (Suc w) n) = Suc w" "read_nat (pad (Suc w) n) = n" "list_all is_digit (pad (Suc w) n)"
proof -
  have "is_digit CHR ''0''" by code_simp
  then show "length (pad (Suc w) n) = Suc w" "read_nat (pad (Suc w) n) = n" "list_all is_digit (pad (Suc w) n)"
    using show_nat_length [OF assms] show_nat_digits [of n]
    by (auto simp: pad_def Let_def read_zeros list_all_iff)
qed

lemma pad_width:
  "n < 10 ^ w \<Longrightarrow> 0 < w \<Longrightarrow> length (pad w n) = w \<and> read_nat (pad w n) = n \<and> list_all is_digit (pad w n)"
  using pad_facts by (cases w) auto

section \<open>Parsing the text of a date\<close>

lemma iso_pieces:
  assumes "length a = 4" "length b = 2" "length c = 2" "length d = 2" "length e = 2" "length f = 2" "length g = 3"
    and "list_all is_digit (a @ b @ c @ d @ e @ f @ g)"
  defines "s \<equiv> a @ ''-'' @ b @ ''-'' @ c @ ''T'' @ d @ '':'' @ e @ '':'' @ f @ ''.'' @ g @ ''Z''"
  shows "iso_shape s" "part 0 4 s = read_nat a" "part 5 2 s = read_nat b" "part 8 2 s = read_nat c" "part 11 2 s = read_nat d"
    "part 14 2 s = read_nat e" "part 17 2 s = read_nat f" "part 20 3 s = read_nat g"
  using assms(1-8) unfolding s_def
  by (simp_all add: iso_shape_def digits_in_def part_def nth_append)

lemma mod_60: "\<not> 59 < x mod (60 :: nat)"
  by presburger

lemma sum_parts:
  fixes h m s q p :: nat
  assumes "h * 60 + m = p" "p * 60 + s = q" "q * 1000 + r = ms"
  shows "h * 3600000 + m * 60000 + s * 1000 + r = ms"
  using assms by linarith

lemma clock_sum:
  fixes ms :: nat
  shows "ms div 3600000 * 3600000 + ms div 60000 mod 60 * 60000 + ms div 1000 mod 60 * 1000 + ms mod 1000 = ms"
proof (rule sum_parts)
  have m: "ms div 60000 = ms div 1000 div 60" "ms div 3600000 = ms div 1000 div 60 div 60" by (simp_all add: div_mult2_eq [symmetric])
  show "ms div 3600000 * 60 + ms div 60000 mod 60 = ms div 1000 div 60" unfolding m by (rule div_mult_mod_eq)
  show "ms div 1000 div 60 * 60 + ms div 1000 mod 60 = ms div 1000" by (rule div_mult_mod_eq)
  show "ms div 1000 * 1000 + ms mod 1000 = ms" by (rule div_mult_mod_eq)
qed

lemma date_parse_iso:
  assumes "portable_time t"
  shows "date_parse (dateIsoString t) = Some t"
proof -
  define d where "d = t div MS_PER_DAY + EPOCH_DAYS"
  define ms where "ms = nat (t mod MS_PER_DAY)"
  define y where "y = year_of_day d"
  define n where "n = d - days_before_year y"
  define m where "m = month_of (leap y) n"
  define dom where "dom = nat (n - month_starts (leap y) ! (m - 1)) + 1"
  have t: "- 62167219200000 \<le> t" "t < 253402300800000" using assms by (simp_all add: portable_time_def)
  have t': "t = (d - EPOCH_DAYS) * MS_PER_DAY + int ms" "ms < 86400000"
    by (simp_all add: d_def ms_def MS_PER_DAY_def nat_less_iff)
  have "- 719528 \<le> t div MS_PER_DAY" "t div MS_PER_DAY < 2932897"
    using t div_bounds [of MS_PER_DAY t] by (simp_all add: MS_PER_DAY_def)
  then have d: "0 \<le> d" "d < 3652425" by (simp_all add: d_def EPOCH_DAYS_def)
  note yb = year_of_day_bounds [OF d(1), folded y_def]
  have y: "0 \<le> y" "y \<le> 9999"
  proof -
    show "0 \<le> y" by (rule yb(3))
    have "y < 10000"
    proof (rule ccontr)
      assume "\<not> y < 10000"
      then have "days_before_year 10000 \<le> days_before_year y" by (intro days_before_year_mono) simp
      moreover have "days_before_year 10000 = 3652425" by code_simp
      ultimately show False using yb(1) d(2) by linarith
    qed
    then show "y \<le> 9999" by simp
  qed
  have n: "0 \<le> n" "n < (if leap y then 366 else 365)"
    using yb(1,2) by (auto simp: n_def days_before_year_step)
  note mb = month_bounds [OF n, folded m_def]
  have dom: "1 \<le> dom" "dom \<le> 31" "int dom = n - month_starts (leap y) ! (m - 1) + 1"
    using mb by (auto simp: dom_def)
  let ?a = "pad 4 (nat y)" and ?b = "pad 2 m" and ?c = "pad 2 dom" and ?d = "pad 2 (ms div 3600000)"
    and ?e = "pad 2 (ms div 60000 mod 60)" and ?f = "pad 2 (ms div 1000 mod 60)" and ?g = "pad 3 (ms mod 1000)"
  have h: "ms div 3600000 < 24" using t'(2) by (simp add: less_mult_imp_div_less)
  have pa: "length ?a = 4" "read_nat ?a = nat y" "list_all is_digit ?a"
    using pad_width [of "nat y" 4] y by simp_all
  have p2: "length (pad 2 k) = 2 \<and> read_nat (pad 2 k) = k \<and> list_all is_digit (pad 2 k)" if "k < 100" for k
    using pad_width [of k 2] that by simp
  have p3: "length ?g = 3" "read_nat ?g = ms mod 1000" "list_all is_digit ?g"
    using pad_width [of "ms mod 1000" 3] by simp_all
  have b: "m < 100" "dom < 100" "ms div 3600000 < 100" "ms div 60000 mod 60 < 100" "ms div 1000 mod 60 < 100"
    using mb dom h by (simp_all add: order_less_trans [OF mod_less_divisor])
  have "t mod MS_PER_DAY = int ms" by (simp add: ms_def MS_PER_DAY_def)
  then have clock: "nat (t mod MS_PER_DAY div 3600000) = ms div 3600000" "nat (t mod MS_PER_DAY div 60000 mod 60) = ms div 60000 mod 60"
    "nat (t mod MS_PER_DAY div 1000 mod 60) = ms div 1000 mod 60" "nat (t mod MS_PER_DAY mod 1000) = ms mod 1000"
    by (simp_all add: nat_div_distrib nat_mod_distrib)
  have iso: "dateIsoString t = ?a @ ''-'' @ ?b @ ''-'' @ ?c @ ''T'' @ ?d @ '':'' @ ?e @ '':'' @ ?f @ ''.'' @ ?g @ ''Z''"
    using y by (simp add: dateIsoString_def Let_def iso_year_def clock d_def y_def n_def m_def dom_def)
  have len: "length ?b = 2" "length ?c = 2" "length ?d = 2" "length ?e = 2" "length ?f = 2"
    and rd: "read_nat ?b = m" "read_nat ?c = dom" "read_nat ?d = ms div 3600000" "read_nat ?e = ms div 60000 mod 60"
      "read_nat ?f = ms div 1000 mod 60"
    and dg: "list_all is_digit (?a @ ?b @ ?c @ ?d @ ?e @ ?f @ ?g)"
    using p2 b pa(3) p3(3) by simp_all
  note pieces = iso_pieces [OF pa(1) len p3(1) dg, folded iso]
  have time: "ms div 3600000 * 3600000 + ms div 60000 mod 60 * 60000 + ms div 1000 mod 60 * 1000 + ms mod 1000 = ms"
    by (rule clock_sum)
  then have "int (ms div 3600000) * 3600000 + int (ms div 60000 mod 60) * 60000 + int (ms div 1000 mod 60) * 1000 + int (ms mod 1000) = int ms"
    by linarith
  then have "time_of_parts (int (nat y)) m dom (ms div 3600000) (ms div 60000 mod 60) (ms div 1000 mod 60) (ms mod 1000) = t"
    using y dom(3) unfolding time_of_parts_def t'(1) by (simp add: n_def)
  with pieces mb dom h pa rd p3 show ?thesis
    by (simp add: date_parse_def Let_def mod_60)
qed

end
