(* ===== verification/FieldTypes.thy ===== *)
theory FieldTypes
  imports FieldCodecs DateText
begin

text \<open>
  \<open>src/core/field-types.ts\<close>: declared field types. Dates are stored as ISO text and read back as dates, and the
  operands of a plan are checked against the types of their fields. Types are the strings of the code; the maps
  of a model's field types and codecs are association lists.
\<close>

type_synonym field_types = "(string \<times> string) list"

section \<open>Dates\<close>

definition DATE_ONLY :: "string \<Rightarrow> bool" where
  "DATE_ONLY s = (length s = 10 \<and> digits_in 0 4 s \<and> s ! 4 = CHR ''-'' \<and> digits_in 5 2 s \<and> s ! 7 = CHR ''-'' \<and> digits_in 8 2 s)"

definition assertValidDate :: "jsval \<Rightarrow> unit res" where
  "assertValidDate value =
     (if dateTime value = None then Inl ActiveTsValidationError
      else if \<not> isPortableDate value then Inl ActiveTsValidationError
      else if own_symbols value \<noteq> [] then Inl ActiveTsValidationError
      else if own_names value \<noteq> [] then Inl ActiveTsValidationError
      else Inr ())"

text \<open>A date object that the code makes, \<open>None\<close> being an invalid one.\<close>

definition new_date :: "int option \<Rightarrow> jsval" where
  "new_date t = Obj (CDate t) [] []"

definition normalizeDateString :: "string \<Rightarrow> string res" where
  "normalizeDateString value =
     (if DATE_ONLY value then
        (let t = date_parse (value @ ''T00:00:00.000Z'') in
         rbind (assertValidDate (new_date t)) (\<lambda>_.
         if take 10 (dateIsoString (the t)) \<noteq> value then Inl ActiveTsValidationError
         else Inr (dateIsoString (the t))))
      else
        (let t = date_parse value in
         rbind (assertValidDate (new_date t)) (\<lambda>_.
         if dateIsoString (the t) \<noteq> value then Inl ActiveTsValidationError else Inr value)))"

definition normalizeDateStorageValue :: "jsval \<Rightarrow> jsval res" where
  "normalizeDateStorageValue value =
     (if is_date value then rbind (assertValidDate value) (\<lambda>_. Inr (Str (dateIsoString (the (dateTime value)))))
      else case value of
          Str s \<Rightarrow> rbind (normalizeDateString s) (\<lambda>d. Inr (Str d))
        | _ \<Rightarrow> Inl ActiveTsValidationError)"

definition normalizeDateRuntimeValue :: "jsval \<Rightarrow> jsval res" where
  "normalizeDateRuntimeValue value =
     (if is_date value then rbind (assertValidDate value) (\<lambda>_. Inr value)
      else case value of
          Str s \<Rightarrow> rbind (normalizeDateString s) (\<lambda>d. Inr (new_date (date_parse d)))
        | _ \<Rightarrow> Inl ActiveTsValidationError)"

definition transform_field :: "codec_operation \<Rightarrow> string \<times> string \<Rightarrow> jsval \<Rightarrow> jsval res" where
  "transform_field operation ft data =
     (if snd ft \<noteq> ''date'' then Inr data
      else rbind (valueFor data (fst ft)) (\<lambda>current.
        if current = Undef \<or> current = Null then Inr data
        else rbind (if operation = WriteOp then normalizeDateStorageValue current else normalizeDateRuntimeValue current)
          (setPath data (fst ft))))"

definition applyFieldTypeTransforms :: "field_types \<Rightarrow> codec_operation \<Rightarrow> jsval \<Rightarrow> jsval res" where
  "applyFieldTypeTransforms types operation data =
     rbind (cloneSafeData data) (rfold (transform_field operation) types)"

section \<open>Operands\<close>

definition snapshotDateArrayInput :: "jsval \<Rightarrow> jsval list res" where
  "snapshotDateArrayInput value =
     rbind (snapshotArrayInput value) (\<lambda>safeValue.
     rbind (reach (\<lambda>property.
         if property = ''length'' then Inr ()
         else if \<not> isArrayIndexProperty property (length safeValue) then Inl ActiveTsValidationError
         else case own_prop value property of
             None \<Rightarrow> Inl ActiveTsValidationError
           | Some p \<Rightarrow>
               if \<not> is_data p then Inl ActiveTsValidationError
               else if \<not> enumerable p then Inl ActiveTsValidationError
               else Inr ()) (own_names value)) (\<lambda>_. Inr safeValue))"

lemma snapshotDateArrayInput_size: "snapshotDateArrayInput v = Inr items \<Longrightarrow> x \<in> set items \<Longrightarrow> size x < size v"
  by (auto simp: snapshotDateArrayInput_def rbind_Inr_iff intro: snapshotArrayInput_size)

function normalizeDateQueryValue :: "jsval \<Rightarrow> jsval res" where
  "normalizeDateQueryValue value =
     (if is_array value then
        rbind (snapshotDateArrayInput value) (\<lambda>safeValue.
        rbind (rlist normalizeDateQueryValue safeValue) (\<lambda>vs. Inr (js_array vs)))
      else if value = Null \<or> value = Undef then Inr value
      else normalizeDateStorageValue value)"
  by pat_completeness auto
termination by (relation "measure size") (auto dest: snapshotDateArrayInput_size)

declare normalizeDateQueryValue.simps [simp del]

definition assertOperandCompatibleWithFieldType :: "string \<Rightarrow> jsval \<Rightarrow> unit res" where
  "assertOperandCompatibleWithFieldType type value =
     (if value = Null \<or> value = Undef then Inr ()
      else if type = ''date'' then (if js_typeof value = ''string'' then Inr () else Inl ActiveTsValidationError)
      else if js_typeof value \<noteq> type then Inl ActiveTsValidationError
      else Inr ())"

definition assertWhereCompatibleWithFieldType :: "string option \<Rightarrow> where_entry \<Rightarrow> unit res" where
  "assertWhereCompatibleWithFieldType type entry =
     (let opn = w_op entry in
      case type of
        None \<Rightarrow> Inr ()
      | Some t \<Rightarrow>
          if opn = ''isNull'' \<or> opn = ''isNotNull'' \<or> opn = ''jsonContains'' then Inr ()
          else if opn = ''in'' then
            (if \<not> is_array (w_value entry) then Inr ()
             else reach (\<lambda>slot. assertOperandCompatibleWithFieldType t (case slot of None \<Rightarrow> Undef | Some p \<Rightarrow> prop_val p))
               (slots (w_value entry)))
          else if opn = ''between'' then
            rbind (assertOperandCompatibleWithFieldType t (w_value entry)) (\<lambda>_.
              assertOperandCompatibleWithFieldType t (w_value2 entry))
          else if opn = ''startsWith'' \<or> opn = ''textContains'' then
            (if t \<noteq> ''string'' then Inl ActiveTsValidationError
             else assertOperandCompatibleWithFieldType t (w_value entry))
          else assertOperandCompatibleWithFieldType t (w_value entry))"

text \<open>The object of an entry of a normalised plan; \<open>value2\<close> is present for \<open>between\<close> only.\<close>

definition entry_value :: "where_entry \<Rightarrow> jsval" where
  "entry_value w = js_object ([(''field'', Str (w_field w)), (''op'', Str (w_op w)), (''value'', w_value w)]
     @ (if w_op w = ''between'' then [(''value2'', w_value2 w)] else []))"

definition FIELD_TYPE_WHERE_KEYS :: "string list" where
  "FIELD_TYPE_WHERE_KEYS = [''field'', ''op'', ''value'', ''value2'']"

definition assertPlainFieldTypeObject :: "jsval \<Rightarrow> unit res" where
  "assertPlainFieldTypeObject value =
     (if \<not> is_object value \<or> is_array value then Inl ActiveTsValidationError
      else if \<not> is_plain_object value then Inl ActiveTsValidationError
      else if own_symbols value \<noteq> [] then Inl ActiveTsValidationError
      else reach (\<lambda>property. case own_prop value property of
            None \<Rightarrow> Inl ActiveTsValidationError
          | Some p \<Rightarrow>
              if \<not> is_data p then Inl ActiveTsValidationError
              else if \<not> enumerable p then Inl ActiveTsValidationError
              else Inr ()) (own_names value))"

definition assertKnownFieldTypeKeys :: "jsval \<Rightarrow> string list \<Rightarrow> unit res" where
  "assertKnownFieldTypeKeys value allowed =
     reach (\<lambda>(property, _). if property \<notin> set allowed then Inl ActiveTsValidationError else Inr ()) (entries_of value)"

definition ownFieldTypeValue :: "jsval \<Rightarrow> string \<Rightarrow> jsval res" where
  "ownFieldTypeValue value key = (case own_prop value key of
     None \<Rightarrow> Inr Undef
   | Some p \<Rightarrow>
       if \<not> is_data p then Inl ActiveTsValidationError
       else if \<not> enumerable p then Inl ActiveTsValidationError
       else Inr (prop_val p))"

definition normalizeFieldTypeWhereEntry :: "jsval \<Rightarrow> where_entry res" where
  "normalizeFieldTypeWhereEntry w =
     rbind (assertPlainFieldTypeObject w) (\<lambda>_.
     rbind (assertKnownFieldTypeKeys w FIELD_TYPE_WHERE_KEYS) (\<lambda>_.
     rbind (rbind (ownFieldTypeValue w ''field'') assertSafeFieldPath) (\<lambda>field.
     rbind (ownFieldTypeValue w ''op'') (\<lambda>opv.
     rbind (case opv of Str s \<Rightarrow> if isOperator s then Inr s else Inl ActiveTsValidationError
            | _ \<Rightarrow> Inl ActiveTsValidationError) (\<lambda>opn.
     rbind (ownFieldTypeValue w ''value'') (\<lambda>value.
     rbind (ownFieldTypeValue w ''value2'') (\<lambda>value2.
     rbind (assertValidWhereOperand opv value value2) (\<lambda>_.
     if opn \<noteq> ''between'' \<and> has_own w ''value2'' then Inl ActiveTsValidationError
     else Inr \<lparr>w_field = field, w_op = opn, w_value = value,
            w_value2 = (if has_own w ''value2'' then value2 else Undef)\<rparr>))))))))"

definition normalize_where_type :: "field_types \<Rightarrow> codecs \<Rightarrow> bool \<Rightarrow> jsval \<Rightarrow> where_entry res" where
  "normalize_where_type types cs encoded w =
     rbind (normalizeFieldTypeWhereEntry w) (\<lambda>entry.
     let type = (if encoded \<and> mhas cs (w_field entry) then None else map_of types (w_field entry)) in
     if type \<noteq> Some ''date'' then
       rbind (assertWhereCompatibleWithFieldType type entry) (\<lambda>_. Inr entry)
     else
       rbind (normalizeDateQueryValue (w_value entry)) (\<lambda>value.
       rbind (if has_own w ''value2'' then normalizeDateQueryValue (w_value2 entry) else Inr Undef) (\<lambda>value2.
       rbind (assertValidWhereOperand (Str (w_op entry)) value value2) (\<lambda>_.
       let normalized = entry\<lparr>w_value := value, w_value2 := value2\<rparr> in
       rbind (assertWhereCompatibleWithFieldType type normalized) (\<lambda>_. Inr normalized)))))"

definition normalizeWherePlanFieldTypes :: "field_types \<Rightarrow> codecs \<Rightarrow> bool \<Rightarrow> jsval \<Rightarrow> where_entry list res" where
  "normalizeWherePlanFieldTypes types cs encoded entries =
     rbind (snapshotArrayInput entries) (rlist (normalize_where_type types cs encoded))"

definition normalizeWhereFieldTypes :: "field_types \<Rightarrow> codecs \<Rightarrow> jsval \<Rightarrow> where_entry list res" where
  "normalizeWhereFieldTypes types cs entries = normalizeWherePlanFieldTypes types cs False entries"

fun normalize_filter_types :: "field_types \<Rightarrow> codecs \<Rightarrow> bool \<Rightarrow> plan \<Rightarrow> plan res" where
  "normalize_filter_types types cs encoded (Plan ws os) =
     rbind (rlist (normalize_filter_types types cs encoded) os) (\<lambda>os'.
     rbind (normalizeWherePlanFieldTypes types cs encoded (js_array (map entry_value ws))) (\<lambda>ws'.
     Inr (Plan ws' os')))"

definition normalizeQueryPlanFieldTypes :: "field_types \<Rightarrow> codecs \<Rightarrow> bool \<Rightarrow> QueryPlan \<Rightarrow> QueryPlan res" where
  "normalizeQueryPlanFieldTypes types cs encoded p =
     rbind (normalize_filter_types types cs encoded (q_filter p)) (\<lambda>f. Inr (p\<lparr>q_filter := f\<rparr>))"

definition normalizeAggregatePlanFieldTypes :: "field_types \<Rightarrow> codecs \<Rightarrow> bool \<Rightarrow> plan \<Rightarrow> plan res" where
  "normalizeAggregatePlanFieldTypes types cs encoded f = normalize_filter_types types cs encoded f"

section \<open>Where shapes\<close>

definition normalizeWhereShapeDateValue :: "jsval \<Rightarrow> jsval res" where
  "normalizeWhereShapeDateValue value =
     (if is_array value then
        rbind (snapshotDateArrayInput value) (\<lambda>safeValue.
        let item = (\<lambda>i. if i < length safeValue then safeValue ! i else Undef) in
        if item 0 = Str ''between'' then
          rbind (normalizeDateQueryValue (item 1)) (\<lambda>lower.
          rbind (normalizeDateQueryValue (item 2)) (\<lambda>upper.
          rbind (assertValidWhereOperand (Str ''between'') lower upper) (\<lambda>_.
          rbind (assertWhereArrayArity (length safeValue) ''between'') (\<lambda>_.
          Inr (js_array [Str ''between'', lower, upper])))))
        else if item 0 = Str ''isNull'' \<or> item 0 = Str ''isNotNull'' then
          rbind (assertValidWhereOperand (item 0) Undef Undef) (\<lambda>_.
          rbind (assertWhereArrayArity (length safeValue) (case item 0 of Str s \<Rightarrow> s | _ \<Rightarrow> [])) (\<lambda>_.
          Inr (js_array [item 0])))
        else case item 0 of
          Str s \<Rightarrow>
            if isOperator s then
              rbind (normalizeDateQueryValue (item 1)) (\<lambda>operand.
              rbind (assertValidWhereOperand (item 0) operand Undef) (\<lambda>_.
              rbind (assertWhereArrayArity (length safeValue) s) (\<lambda>_.
              Inr (js_array [item 0, operand]))))
            else rbind (rlist normalizeDateQueryValue safeValue) (\<lambda>vs. Inr (js_array vs))
        | _ \<Rightarrow> rbind (rlist normalizeDateQueryValue safeValue) (\<lambda>vs. Inr (js_array vs)))
      else normalizeDateQueryValue value)"

definition normalize_shape_field :: "field_types \<Rightarrow> string \<times> jsval \<Rightarrow> (string \<times> jsprop) list \<Rightarrow> (string \<times> jsprop) list res" where
  "normalize_shape_field types fv acc =
     (let type = map_of types (fst fv) in
      rbind (if type = Some ''date'' then normalizeWhereShapeDateValue (snd fv) else Inr (snd fv)) (\<lambda>normalized.
      rbind (whereShapeToPlan (js_object [(fst fv, normalized)])) (\<lambda>p.
      rbind (reach (assertWhereCompatibleWithFieldType type) (p_where p)) (\<lambda>_.
      Inr (put_prop (fst fv) (dataP normalized) acc)))))"

definition normalizeWhereShapeFieldTypes :: "field_types \<Rightarrow> jsval \<Rightarrow> jsval res" where
  "normalizeWhereShapeFieldTypes types w =
     (if w = Undef then Inr w
      else rbind (whereShapeEntries w) (\<lambda>entries.
        rbind (rfold (normalize_shape_field types) entries []) (\<lambda>ps. Inr (Obj CPlain ps []))))"

section \<open>Aggregate results\<close>

definition normalizeMinMaxResultValue :: "jsval \<Rightarrow> string \<Rightarrow> jsval res" where
  "normalizeMinMaxResultValue value type =
     (if type = ''date'' then normalizeDateRuntimeValue value
      else if js_typeof value \<noteq> type then Inl ActiveTsValidationError
      else if type = ''number'' \<and> (case value of Num n \<Rightarrow> \<not> is_finite n | _ \<Rightarrow> True) then Inl ActiveTsValidationError
      else Inr value)"

definition normalize_aggregate_type :: "field_types \<Rightarrow> AggregateSpec \<Rightarrow> agg_result \<Rightarrow> agg_result res" where
  "normalize_aggregate_type types spec r =
     (if (ag_op spec \<noteq> AggMin \<and> ag_op spec \<noteq> AggMax) \<or> ag_field spec = [] then Inr r
      else case map_of types (ag_field spec) of
          None \<Rightarrow> Inr r
        | Some type \<Rightarrow>
            let value = result_value r (ag_as spec) in
            if value = Undef \<or> value = Null then Inr r
            else rbind (normalizeMinMaxResultValue value type) (\<lambda>v. Inr (set_result (ag_as spec) v r)))"

definition normalizeAggregateFieldTypes :: "field_types \<Rightarrow> jsval \<Rightarrow> jsval \<Rightarrow> agg_result res" where
  "normalizeAggregateFieldTypes types specs r =
     rbind (validateAggregateSpecs specs) (\<lambda>safeSpecs.
     rbind (normalizeAggregateResult r (specs_value safeSpecs)) (\<lambda>nxt.
     rfold (normalize_aggregate_type types) safeSpecs nxt))"

section \<open>Stored dates\<close>

lemma new_date_simps [simp]:
  "dateTime (new_date t) = t" "is_date (new_date t)" "own_symbols (new_date t) = []" "own_names (new_date t) = []"
  by (simp_all add: new_date_def)

lemma valid_date: "assertValidDate v = Inr () \<Longrightarrow> \<exists>t. dateTime v = Some t \<and> portable_time t"
  by (auto simp: assertValidDate_def isPortableDate_def split: if_splits option.splits)

lemma valid_new_date: "assertValidDate (new_date (Some t)) = (if portable_time t then Inr () else Inl ActiveTsValidationError)"
  by (simp add: assertValidDate_def isPortableDate_def)

lemma iso_text: "portable_time t \<Longrightarrow> \<not> DATE_ONLY (dateIsoString t)"
  using date_parse_iso [of t] by (auto simp: date_parse_def iso_shape_def DATE_ONLY_def split: if_splits)

lemma normalizeDateString_iso: "portable_time t \<Longrightarrow> normalizeDateString (dateIsoString t) = Inr (dateIsoString t)"
  by (simp add: normalizeDateString_def iso_text date_parse_iso valid_new_date)

lemma normalizeDateString_Inr:
  assumes "normalizeDateString s = Inr d"
  shows "\<exists>t. portable_time t \<and> d = dateIsoString t"
  using assms valid_date [of "new_date (date_parse (s @ ''T00:00:00.000Z''))"] valid_date [of "new_date (date_parse s)"]
  by (auto simp: normalizeDateString_def Let_def rbind_Inr_iff split: if_splits)

lemma storage_value:
  assumes "normalizeDateStorageValue v = Inr stored"
  shows "\<exists>t. portable_time t \<and> stored = Str (dateIsoString t) \<and> (is_date v \<longrightarrow> dateTime v = Some t)"
proof (cases "is_date v")
  case True
  with assms valid_date [of v] show ?thesis by (auto simp: normalizeDateStorageValue_def rbind_Inr_iff)
next
  case False
  with assms show ?thesis
    by (auto simp: normalizeDateStorageValue_def rbind_Inr_iff dest: normalizeDateString_Inr split: jsval.splits)
qed

text \<open>C30. Whatever a date field accepts, a date object or a text, is stored as the ISO text of a date of the years 0 to
  9999, the same date where an object was given; and reading the stored text gives that date.\<close>

theorem stored_dates_read_back:
  assumes "normalizeDateStorageValue v = Inr stored"
  shows "\<exists>t. portable_time t \<and> stored = Str (dateIsoString t) \<and> (is_date v \<longrightarrow> dateTime v = Some t)
    \<and> normalizeDateRuntimeValue stored = Inr (new_date (Some t))"
proof -
  from storage_value [OF assms] obtain t where t: "portable_time t" "stored = Str (dateIsoString t)"
    "is_date v \<longrightarrow> dateTime v = Some t" by blast
  have "normalizeDateRuntimeValue stored = Inr (new_date (Some t))"
    by (simp add: t(2) normalizeDateRuntimeValue_def normalizeDateString_iso [OF t(1)] date_parse_iso [OF t(1)])
  with t show ?thesis by blast
qed

theorem stored_dates_read_back_witness:
  "\<exists>t. portable_time t \<and> Str ''2024-02-29T00:00:00.000Z'' = Str (dateIsoString t)
    \<and> (is_date (Str ''2024-02-29'') \<longrightarrow> dateTime (Str ''2024-02-29'') = Some t)
    \<and> normalizeDateRuntimeValue (Str ''2024-02-29T00:00:00.000Z'') = Inr (new_date (Some t))"
proof (rule stored_dates_read_back)
  show "normalizeDateStorageValue (Str ''2024-02-29'') = Inr (Str ''2024-02-29T00:00:00.000Z'')" by code_simp
qed

end
