(* ===== verification/MemoryQuery.thy ===== *)
theory MemoryQuery
  imports FieldTypes
begin

text \<open>
  The queries of \<open>src/adapters/store/memory.ts\<close>: \<open>query\<close> and \<open>aggregate\<close>, with the parts of
  \<open>src/core/store-options.ts\<close> and \<open>src/core/cursor.ts\<close> they use. A plan is normalised, its operands are typed and
  encoded, its rows are filtered and sorted, and one page is cut out. The text of a cursor is
  base64url of JSON; the two library functions are the pair \<open>cursor_text\<close>, a parameter.
\<close>

record query_model = model_meta +
  m_fieldTypes :: field_types
  m_fieldCodecs :: codecs

section \<open>Plans and options\<close>

definition MEMORY_CAPABILITIES :: jsval where
  "MEMORY_CAPABILITIES = js_object (map (\<lambda>(k, b). (k, Bool b))
     [(''or'', True), (''contains'', False), (''arrayContains'', True), (''textContains'', True), (''jsonContains'', True),
      (''startsWith'', True), (''cursor'', True), (''offset'', True), (''select'', True), (''nestedFields'', True),
      (''numericComparisons'', True), (''aggregate'', True), (''transaction'', True), (''transactionConflictDetection'', True),
      (''savepoint'', False), (''uniqueIndex'', False), (''optimisticLock'', True), (''nullOperators'', True),
      (''missingFieldNulls'', True), (''native'', False)])"

definition sameFieldList :: "string list \<Rightarrow> string list \<Rightarrow> bool" where
  "sameFieldList left right = (left = right)"

definition isEmptyQueryMeta :: "jsval option \<Rightarrow> bool" where
  "isEmptyQueryMeta meta = (case meta of None \<Rightarrow> True | Some v \<Rightarrow> list_all (\<lambda>(_, p). \<not> enumerable p) (extras v))"

definition sameQueryMeta :: "jsval option \<Rightarrow> jsval option \<Rightarrow> bool" where
  "sameQueryMeta left right =
     (if isEmptyQueryMeta left \<and> isEmptyQueryMeta right then True
      else case (left, right) of
          (Some l, Some r) \<Rightarrow> isDeepStrictEqual l r
        | (None, None) \<Rightarrow> True
        | _ \<Rightarrow> False)"

definition validateStoreQueryReadOptions :: "jsval \<Rightarrow> QueryPlan \<Rightarrow> StoreReadOptions res" where
  "validateStoreQueryReadOptions options p =
     rbind (normalizeStoreReadOptions options) (\<lambda>normalized.
       if (case ro_select normalized of None \<Rightarrow> False
           | Some fs \<Rightarrow> \<not> sameFieldList fs (case q_select p of None \<Rightarrow> [] | Some gs \<Rightarrow> gs))
         then Inl ActiveTsConfigurationError
       else if (case ro_native normalized of None \<Rightarrow> False
           | Some n \<Rightarrow> (case q_native p of None \<Rightarrow> True | Some own \<Rightarrow> \<not> isDeepStrictEqual n (n_payload own)))
         then Inl ActiveTsConfigurationError
       else if ro_meta normalized \<noteq> None \<and> \<not> sameQueryMeta (ro_meta normalized) (q_meta p)
         then Inl ActiveTsConfigurationError
       else Inr normalized)"

record AggregatePlan =
  a_filter :: plan
  a_specs :: "AggregateSpec list"
  a_native :: "QueryNative option"
  a_meta :: "jsval option"

definition AGGREGATE_PLAN_KEYS :: "string list" where
  "AGGREGATE_PLAN_KEYS = [''where'', ''or'', ''aggregates'', ''native'', ''meta'']"

definition normalizeStoreAggregatePlan :: "jsval \<Rightarrow> AggregatePlan res" where
  "normalizeStoreAggregatePlan p =
     rbind (assertPlainRecord p) (\<lambda>record.
     rbind (assertKnownOptionKeys record AGGREGATE_PLAN_KEYS) (\<lambda>_.
     rbind (rbind (ownOptionValue record ''where'') normalizeWhereEntries) (\<lambda>ws.
     rbind (rbind (ownOptionValue record ''or'') normalizeStoreQueryBranches) (\<lambda>os.
     rbind (rbind (ownOptionValue record ''aggregates'') (\<lambda>v.
       validateAggregateSpecs (if v = Undef \<or> v = Null then js_array [] else v))) (\<lambda>specs.
     rbind (rbind (ownOptionValue record ''native'') normalizeStoreNative) (\<lambda>native.
     rbind (rbind (ownOptionValue record ''meta'') clonePlanMeta) (\<lambda>meta.
     rbind (normalizeMixedOrPlan (Plan ws os)) (\<lambda>mixed.
     Inr \<lparr>a_filter = mixed, a_specs = specs, a_native = native, a_meta = meta\<rparr>))))))))"

text \<open>\<open>assertStorePlanSupported\<close> on an aggregate plan, which has no sort, no page and no projection.\<close>

definition assertAggregatePlanSupported :: "string \<Rightarrow> jsval \<Rightarrow> AggregatePlan \<Rightarrow> unit res" where
  "assertAggregatePlanSupported adapterKind caps p =
     rbind (assertStorePlanSupported adapterKind caps
       \<lparr>q_filter = a_filter p, q_sort = [], q_limit = None, q_offset = None, q_cursor = None, q_select = None,
        q_include = [], q_native = a_native p, q_meta = a_meta p\<rparr>) (\<lambda>_.
     rbind (require (\<not> (a_specs p \<noteq> [] \<and> \<not> storeCapability caps ''aggregate''))) (\<lambda>_.
     reach (\<lambda>spec. require (\<not> (CHR ''.'' \<in> set (ag_field spec) \<and> \<not> storeCapability caps ''nestedFields''))) (a_specs p)))"

section \<open>The text of a cursor\<close>

type_synonym cursor_text = "(jsval \<Rightarrow> string) \<times> (string \<Rightarrow> jsval res)"

definition encodeCursor :: "cursor_text \<Rightarrow> jsval \<Rightarrow> string res" where
  "encodeCursor ct cursor = rbind (sanitizeKeysetCursor cursor) (\<lambda>c. Inr (fst ct (keysetCursorJson c)))"

definition decodeCursor :: "cursor_text \<Rightarrow> string \<Rightarrow> KeysetCursor res" where
  "decodeCursor ct cursor =
     rbind (assertSafeCursor (Str cursor)) (\<lambda>safeCursor. case safeCursor of
       None \<Rightarrow> Inl ActiveTsConfigurationError
     | Some s \<Rightarrow> (case rbind (snd ct s) sanitizeKeysetCursor of
           Inl _ \<Rightarrow> Inl ActiveTsConfigurationError
         | Inr c \<Rightarrow> Inr c))"

section \<open>The rows of a query\<close>

text \<open>The properties of a plan that the filter and the sort read.\<close>

fun filter_value :: "plan \<Rightarrow> jsval" where
  "filter_value (Plan ws os) =
     js_object [(''where'', js_array (map entry_value ws)), (''or'', js_array (map filter_value os))]"

definition filtered_rows :: "plan \<Rightarrow> jsval list \<Rightarrow> jsval list res" where
  "filtered_rows f rows = filterRows (js_array rows) (filter_value f)"

definition rows_after_cursor :: "cursor_text \<Rightarrow> string option \<Rightarrow> CursorSort list \<Rightarrow> jsval list \<Rightarrow> jsval list res" where
  "rows_after_cursor ct cursor sortList rows =
     (if cursor = None \<or> cursor = Some [] then Inr rows
      else rbind (decodeCursor ct (the cursor)) (\<lambda>c.
        rbind (assertCursorMatchesSort (keysetCursorJson c) (sort_value sortList)) (\<lambda>_.
        rbind (rlist (\<lambda>item. rbind (compareRowToCursor item (keysetCursorJson c)) (\<lambda>order. Inr (item, order > 0))) rows)
          (\<lambda>marked. Inr (map fst (filter snd marked))))))"

definition page_cursor :: "cursor_text \<Rightarrow> CursorSort list \<Rightarrow> jsval \<Rightarrow> string res" where
  "page_cursor ct sortList row =
     rbind (cursorValues row (sort_value sortList)) (\<lambda>vs.
       encodeCursor ct (keysetCursorJson \<lparr>cursor_sort = sortList, cursor_values = map comparable_value vs\<rparr>))"

definition page_of :: "cursor_text \<Rightarrow> jsnum option \<Rightarrow> CursorSort list \<Rightarrow> jsval list \<Rightarrow> (jsval list \<times> string option \<times> bool) res" where
  "page_of ct planLimit sortList rows = (case planLimit of
     None \<Rightarrow> Inr (rows, None, False)
   | Some l \<Rightarrow> rbind (assertSafeLimit (Num l)) (\<lambda>safe.
       let limit = (case safe of None \<Rightarrow> 0 | Some n \<Rightarrow> nat (int_of_num n));
           more = limit < length rows;
           page = copyRows rows 0 limit
       in if more \<and> page \<noteq> [] \<and> truthy (last page)
          then rbind (page_cursor ct sortList (last page)) (\<lambda>c. Inr (page, Some c, more))
          else Inr (page, None, more)))"

definition selected_rows :: "string \<Rightarrow> string list option \<Rightarrow> jsval list \<Rightarrow> jsval list res" where
  "selected_rows idField select rows =
     (if select = None \<or> select = Some [] then Inr rows
      else rlist (\<lambda>row. pickFields row (the select) idField) rows)"

record QueryResult =
  qr_list :: "jsval list"
  qr_cursor :: "string option"
  qr_more :: bool
  qr_count :: nat

definition query_rows :: "cursor_text \<Rightarrow> string \<Rightarrow> QueryPlan \<Rightarrow> jsval list \<Rightarrow> QueryResult res" where
  "query_rows ct idField p stored =
     rbind (filtered_rows (q_filter p) stored) (\<lambda>found.
     rbind (sortWithStableId (js_object [(''sort'', sort_value (q_sort p))]) (Str idField)) (\<lambda>sortList.
     rbind (sortMemoryRows found sortList) (\<lambda>ordered.
     rbind (rows_after_cursor ct (q_cursor p) sortList ordered) (\<lambda>later.
     let rest = (case q_offset p of None \<Rightarrow> later | Some n \<Rightarrow> copyRows later (nat (int_of_num n)) (length later)) in
     rbind (page_of ct (q_limit p) sortList rest) (\<lambda>(page, cursor, more).
     rbind (selected_rows idField (q_select p) page) (\<lambda>selected.
     rbind (rlist cloneSafeDataObject selected) (\<lambda>rows.
     Inr \<lparr>qr_list = rows, qr_cursor = cursor, qr_more = more, qr_count = length rows\<rparr>)))))))"

section \<open>The operations\<close>

definition store_query ::
    "cursor_text \<Rightarrow> query_model \<Rightarrow> bool \<Rightarrow> jsval \<Rightarrow> jsval \<Rightarrow> memory_store \<Rightarrow> QueryResult res \<times> memory_store" where
  "store_query ct m encoded p options st =
     (case rbind (normalizeStoreQueryPlan p (m_idField m)) (\<lambda>p1.
           rbind (normalizeQueryPlanFieldTypes (m_fieldTypes m) (m_fieldCodecs m) encoded p1) (\<lambda>p2.
           rbind (encodeQueryPlanFieldCodecs (m_fieldCodecs m) encoded p2) (\<lambda>p3.
           rbind (assertStorePlanSupported ''memory'' MEMORY_CAPABILITIES p3) (\<lambda>_.
           rbind (validateStoreQueryReadOptions options p3) (\<lambda>_. Inr p3))))) of
        Inl e \<Rightarrow> (Inl e, st)
      | Inr safe \<Rightarrow> let st1 = count_query st in
          (rbind (existingCollection (m_name m) st1) (\<lambda>rows.
           query_rows ct (m_idField m) safe (map snd rows)), st1))"

definition count_aggregate :: "memory_store \<Rightarrow> memory_store" where
  "count_aggregate st = st\<lparr>stats := (stats st)\<lparr>s_aggregate := s_aggregate (stats st) + 1\<rparr>\<rparr>"

definition store_aggregate :: "query_model \<Rightarrow> bool \<Rightarrow> jsval \<Rightarrow> memory_store \<Rightarrow> agg_result res \<times> memory_store" where
  "store_aggregate m encoded p st =
     (case rbind (normalizeStoreAggregatePlan p) (\<lambda>p1.
           rbind (normalizeAggregatePlanFieldTypes (m_fieldTypes m) (m_fieldCodecs m) encoded (a_filter p1)) (\<lambda>f2.
           rbind (encodeAggregatePlanFieldCodecs (m_fieldCodecs m) encoded f2) (\<lambda>f3.
           rbind (assertAggregatePlanSupported ''memory'' MEMORY_CAPABILITIES (p1\<lparr>a_filter := f3\<rparr>)) (\<lambda>_.
           rbind (assertAggregateSpecsCompatibleWithModel (m_fieldTypes m) (specs_value (a_specs p1))) (\<lambda>specs.
           rbind (assertNoAggregateFieldCodecSpecs (m_fieldCodecs m) specs) (\<lambda>_. Inr (f3, specs))))))) of
        Inl e \<Rightarrow> (Inl e, st)
      | Inr (f, specs) \<Rightarrow> let st1 = count_aggregate st in
          (rbind (existingCollection (m_name m) st1) (\<lambda>rows.
           rbind (filtered_rows f (map snd rows)) (\<lambda>found.
           aggregateRows (js_array found) (specs_value specs))), st1))"

end
