(* ===== verification/MemoryPaging.thy ===== *)
theory MemoryPaging
  imports MemoryQuery
begin

text \<open>
  Paging through a query of the memory store: a client asks for a page and passes the cursor of each page to
  get the next one. The pages together are the result of the query without a limit.
\<close>

section \<open>Cursors\<close>

lemma comparable_cursor_value [simp]: "comparable (comparable_value c) = Inr c"
  by (cases c) (simp_all add: comparable_def comparable_value_def)

lemma safe_cursor_value [simp]: "assertSafeCursorValue (comparable_value c) = Inr ()"
  by (cases c) (simp_all add: assertSafeCursorValue_def comparable_value_def)

definition safe_sort :: "CursorSort list \<Rightarrow> bool" where
  "safe_sort ss = (\<forall>e \<in> set ss. assertSafeFieldPath (Str (sort_field e)) = Inr (sort_field e))"

definition key_cursor :: "CursorSort list \<Rightarrow> Comparable list \<Rightarrow> KeysetCursor" where
  "key_cursor ss k = \<lparr>cursor_sort = ss, cursor_values = map comparable_value k\<rparr>"

lemma sanitize_cursor:
  assumes "safe_sort ss" and "length k = length ss"
  shows "sanitizeKeysetCursor (keysetCursorJson (key_cursor ss k)) = Inr (key_cursor ss k)"
proof -
  let ?c = "keysetCursorJson (key_cursor ss k)"
  have own: "ownCursorValue ?c ''v'' = Inr (js_int 1)" "ownCursorValue ?c ''kind'' = Inr (Str ''keyset'')"
    "ownCursorValue ?c ''sort'' = Inr (sort_value ss)" "ownCursorValue ?c ''values'' = Inr (js_array (map comparable_value k))"
    by (simp_all add: ownCursorValue_def keysetCursorJson_def key_cursor_def js_object_def dataP_def)
  have plain: "is_object ?c" "\<not> is_array ?c" "assertNoCursorAccessorFields ?c = Inr ()"
    by (simp_all add: keysetCursorJson_def js_object_def assertNoCursorAccessorFields_def dataP_def)
  have "reach assertSafeCursorValue (map comparable_value k) = Inr ()" by (simp add: reach_Inr_iff)
  moreover have "strict_eq (js_int 1) (js_int 1)" by code_simp
  moreover have "sanitizeCursorSortList (sort_value ss) = Inr ss"
    using assms(1) unfolding safe_sort_def by (rule sanitize_accepted)
  ultimately show ?thesis
    using assms(2) own plain by (simp add: sanitizeKeysetCursor_def key_cursor_def)
qed

lemma sort_entry_safe:
  assumes "cursor_sort_entry (sort_entry_value e) = Inr e"
  shows "assertSafeFieldPath (Str (sort_field e)) = Inr (sort_field e)"
proof -
  from assms obtain f where f: "assertSafeFieldPath (Str (sort_field e)) = Inr f"
    by (auto simp: cursor_sort_entry_def rbind_Inr_iff own_sort_entry simp del: assertSafeFieldPath.simps split: if_splits)
  with assertSafeFieldPath_same [OF f] show ?thesis by simp
qed

lemma safe_sort_result:
  assumes "sortWithStableId (js_object [(''sort'', sort_value qs)]) (Str idField) = Inr ss"
  shows "safe_sort ss" "\<exists>e \<in> set ss. sort_field e = idField"
proof -
  have "cursorPlanSort (js_object [(''sort'', sort_value qs)]) = Inr (sort_value qs)"
    by (simp add: cursorPlanSort_def ownCursorValue_def js_object_def dataP_def)
  with assms obtain safe qs' where safe: "assertSafeFieldPath (Str idField) = Inr safe"
    and qs': "sanitizeCursorSortList (sort_value qs) = Inr qs'"
    and ss: "ss = (if \<exists>e \<in> set qs'. sort_field e = safe then qs' else qs' @ [\<lparr>sort_field = safe, sort_direction = Asc\<rparr>])"
    by (auto simp: sortWithStableId_def rbind_Inr_iff simp del: assertSafeFieldPath.simps)
  have i: "safe = idField" by (rule assertSafeFieldPath_same [OF safe])
  have q: "qs' = qs" by (rule sanitize_same [OF qs'])
  from qs' have "rlist cursor_sort_entry (map sort_entry_value qs) = Inr qs"
    by (simp add: sanitizeCursorSortList_def sort_value_def q)
  then have "list_all2 (\<lambda>e e'. cursor_sort_entry (sort_entry_value e) = Inr e') qs qs"
    by (simp add: rlist_Inr_iff list_all2_map1)
  then have "cursor_sort_entry (sort_entry_value e) = Inr e" if "e \<in> set qs" for e
    using that by (auto simp: list_all2_same)
  then have "assertSafeFieldPath (Str (sort_field e)) = Inr (sort_field e)" if "e \<in> set qs" for e
    using that sort_entry_safe by blast
  with ss i q safe show "safe_sort ss" by (auto simp: safe_sort_def simp del: assertSafeFieldPath.simps split: if_splits)
  from ss i show "\<exists>e \<in> set ss. sort_field e = idField" by auto
qed

lemma cursorSortsEqual_refl [simp]: "cursorSortsEqual ss ss"
  by (induction ss) simp_all

lemma compare_to_key:
  "keyFor ss row = Inr rk \<Longrightarrow> length k = length ss \<Longrightarrow>
   compare_to_values row ss (map comparable_value k) = Inr (compareKeys ss rk k)"
proof (induction ss arbitrary: rk k)
  case (Cons e ss)
  from Cons.prems obtain c ck where "k = c # ck" "length ck = length ss" by (cases k) auto
  with Cons show ?case by (auto simp: keyFor_def rbind_Inr_iff Let_def)
qed (simp add: keyFor_def)

text \<open>What is needed of the text of one cursor: it is an acceptable text that decodes to the cursor.\<close>

definition text_ok :: "cursor_text \<Rightarrow> jsval \<Rightarrow> bool" where
  "text_ok ct v = (fst ct v \<noteq> [] \<and> assertSafeCursor (Str (fst ct v)) = Inr (Some (fst ct v)) \<and> snd ct (fst ct v) = Inr v)"

definition row_cursor :: "CursorSort list \<Rightarrow> jsval \<Rightarrow> jsval" where
  "row_cursor ss row = keysetCursorJson (key_cursor ss (projr (keyFor ss row)))"

lemma page_cursor_row:
  assumes "safe_sort ss" and "keyFor ss row = Inr k"
  shows "page_cursor ct ss row = Inr (fst ct (row_cursor ss row))"
  using assms sanitize_cursor [OF assms(1) keyFor_length [OF assms(2)]] sanitize_accepted [of ss]
  by (simp add: page_cursor_def cursorValues_def encodeCursor_def key_cursor_def row_cursor_def safe_sort_def)

lemma after_row:
  assumes "safe_sort ss" and "keyFor ss row = Inr k" and "text_ok ct (row_cursor ss row)"
    and "\<forall>x \<in> set S. \<exists>rk. keyFor ss x = Inr rk"
  shows "rows_after_cursor ct (Some (fst ct (row_cursor ss row))) ss S
    = Inr (filter (\<lambda>x. 0 < compareKeys ss (projr (keyFor ss x)) k) S)"
proof -
  let ?c = "key_cursor ss k"
  have rc: "row_cursor ss row = keysetCursorJson ?c" using assms(2) by (simp add: row_cursor_def)
  note san = sanitize_cursor [OF assms(1) keyFor_length [OF assms(2)]]
  have sl: "sanitizeCursorSortList (sort_value ss) = Inr ss"
    using assms(1) unfolding safe_sort_def by (rule sanitize_accepted)
  have d: "decodeCursor ct (fst ct (row_cursor ss row)) = Inr ?c"
    using assms(3) san by (simp add: decodeCursor_def text_ok_def rc)
  have m: "assertCursorMatchesSort (keysetCursorJson ?c) (sort_value ss) = Inr ()"
    using san sl by (simp add: assertCursorMatchesSort_def) (simp add: key_cursor_def)
  have cmp: "compareRowToCursor x (keysetCursorJson ?c) = Inr (compareKeys ss (projr (keyFor ss x)) k)" if "x \<in> set S" for x
    using assms(4) that san compare_to_key [OF _ keyFor_length [OF assms(2)]]
    by (fastforce simp: compareRowToCursor_def key_cursor_def)
  have "rlist (\<lambda>item. rbind (compareRowToCursor item (keysetCursorJson ?c)) (\<lambda>order. Inr (item, order > 0))) S
      = Inr (map (\<lambda>x. (x, 0 < compareKeys ss (projr (keyFor ss x)) k)) S)"
    by (rule rlist_map_Inr) (simp add: cmp)
  moreover have "fst ct (row_cursor ss row) \<noteq> []" using assms(3) by (simp add: text_ok_def)
  ultimately show ?thesis using d m by (simp add: rows_after_cursor_def filter_map o_def)
qed

section \<open>Positions in the sorted rows\<close>

lemma filter_after:
  assumes "sorted_wrt (\<lambda>x y. f x y < 0) S" and "\<And>x y. f y x = - f x y" and "i < length S"
  shows "filter (\<lambda>x. (0 :: int) < f x (S ! i)) S = drop (Suc i) S"
proof -
  have S: "S = take i S @ S ! i # drop (Suc i) S" by (rule id_take_nth_drop [OF assms(3)])
  then have s: "sorted_wrt (\<lambda>x y. f x y < 0) (take i S @ S ! i # drop (Suc i) S)" using assms(1) by simp
  have "f x (S ! i) < 0" if "x \<in> set (take i S)" for x using s that by (auto simp: sorted_wrt_append)
  then have a: "filter (\<lambda>x. 0 < f x (S ! i)) (take i S) = []" by (force simp: filter_empty_conv)
  have "f (S ! i) x < 0" if "x \<in> set (drop (Suc i) S)" for x using s that by (auto simp: sorted_wrt_append)
  then have b: "filter (\<lambda>x. 0 < f x (S ! i)) (drop (Suc i) S) = drop (Suc i) S"
    using assms(2) [of "S ! i"] by (auto simp: filter_id_conv)
  have "f (S ! i) (S ! i) = 0" using assms(2) [of "S ! i" "S ! i"] by simp
  then have "filter (\<lambda>x. 0 < f x (S ! i)) (take i S @ S ! i # drop (Suc i) S) = drop (Suc i) S" using a b by simp
  with S show ?thesis by simp
qed

lemma copyRows_take: "copyRows xs 0 n = take n xs"
  by (rule nth_equalityI) (simp_all add: copyRows_def)

lemma same_key_same_id:
  assumes "keyFor ss x = Inr k" and "keyFor ss y = Inr k" and "e \<in> set ss"
  shows "rbind (valueFor x (sort_field e)) comparable = rbind (valueFor y (sort_field e)) comparable"
  using assms unfolding keyFor_def rlist_Inr_iff
  by (auto simp: list_all2_conv_all_nth in_set_conv_nth)

lemma strictly_sorted:
  assumes "sortMemoryRows rows ss = Inr S" and "\<exists>e \<in> set ss. sort_field e = idField"
    and "distinct (map (\<lambda>r. rbind (valueFor r idField) comparable) rows)"
  shows "sorted_wrt (\<lambda>x y. compareKeys ss (projr (keyFor ss x)) (projr (keyFor ss y)) < 0) S"
proof -
  note s = sorted_rows [OF assms(1)]
  have "mset (map (\<lambda>r. rbind (valueFor r idField) comparable) S) = mset (map (\<lambda>r. rbind (valueFor r idField) comparable) rows)"
    using s by (simp only: mset_map)
  then have d: "distinct (map (\<lambda>r. rbind (valueFor r idField) comparable) S)"
    using assms(3) by (metis mset_eq_imp_distinct_iff)
  show ?thesis unfolding sorted_wrt_iff_nth_less
  proof (intro allI impI)
    fix i j assume ij: "i < j" "j < length S"
    then have le: "compareKeys ss (projr (keyFor ss (S ! i))) (projr (keyFor ss (S ! j))) \<le> 0"
      using s by (simp add: sorted_wrt_iff_nth_less)
    from s ij obtain k k' where k: "keyFor ss (S ! i) = Inr k" "keyFor ss (S ! j) = Inr k'" "length k = length ss" "length k' = length ss"
      by (meson nth_mem order_less_trans)
    have "k \<noteq> k'"
    proof
      assume "k = k'"
      with k assms(2) same_key_same_id have "rbind (valueFor (S ! i) idField) comparable = rbind (valueFor (S ! j) idField) comparable"
        by blast
      with d ij show False by (simp add: distinct_conv_nth)
    qed
    with le k compareKeys_zero [of k ss k'] show "compareKeys ss (projr (keyFor ss (S ! i))) (projr (keyFor ss (S ! j))) < 0"
      by (auto simp: order_le_less)
  qed
qed

section \<open>Pages\<close>

text \<open>The last steps of a query treat each row on its own.\<close>

lemma rlist_all:
  assumes "rlist g S = Inr ys"
  shows "\<exists>h. ys = map h S \<and> (\<forall>x \<in> set S. g x = Inr (h x))"
proof (intro exI conjI ballI)
  from assms have a: "list_all2 (\<lambda>x y. g x = Inr y) S ys" by (simp add: rlist_Inr_iff)
  then show "g x = Inr (projr (g x))" if "x \<in> set S" for x
    using that by (auto simp: list_all2_conv_all_nth in_set_conv_nth)
  from a show "ys = map (\<lambda>x. projr (g x)) S"
    by (intro nth_equalityI) (auto simp: list_all2_conv_all_nth)
qed

lemma finish_rows:
  assumes "rbind (selected_rows idField sel S) (rlist cloneSafeDataObject) = Inr ys"
  shows "\<exists>h. ys = map h S \<and> (\<forall>T. set T \<subseteq> set S \<longrightarrow> rbind (selected_rows idField sel T) (rlist cloneSafeDataObject) = Inr (map h T))"
proof (cases "sel = None \<or> sel = Some []")
  case True
  with assms have "rlist cloneSafeDataObject S = Inr ys" by (auto simp: selected_rows_def)
  from rlist_all [OF this] obtain h where "ys = map h S" "\<forall>x \<in> set S. cloneSafeDataObject x = Inr (h x)" by blast
  with True show ?thesis by (intro exI [of _ h]) (auto simp: selected_rows_def intro!: rlist_map_Inr)
next
  case False
  with assms obtain zs where z: "rlist (\<lambda>row. pickFields row (the sel) idField) S = Inr zs" "rlist cloneSafeDataObject zs = Inr ys"
    by (auto simp: selected_rows_def rbind_Inr_iff)
  from rlist_all [OF z(1)] obtain g where g: "zs = map g S" "\<forall>x \<in> set S. pickFields x (the sel) idField = Inr (g x)" by blast
  from rlist_all [OF z(2)] obtain h where h: "ys = map h zs" "\<forall>x \<in> set zs. cloneSafeDataObject x = Inr (h x)" by blast
  have "rbind (selected_rows idField sel T) (rlist cloneSafeDataObject) = Inr (map (h \<circ> g) T)" if "set T \<subseteq> set S" for T
  proof -
    have "rlist (\<lambda>row. pickFields row (the sel) idField) T = Inr (map g T)"
      by (rule rlist_map_Inr) (use g(2) that in blast)
    moreover have "rlist cloneSafeDataObject (map g T) = Inr (map h (map g T))"
      by (rule rlist_map_Inr) (use g(1) h(2) that in auto)
    ultimately show ?thesis using False by (auto simp: selected_rows_def)
  qed
  with g h show ?thesis by (intro exI [of _ "h \<circ> g"]) simp
qed

text \<open>What a client does with \<open>cursor\<close>; the fuel is the number of pages it may ask for.\<close>

fun walk_pages :: "nat \<Rightarrow> (string option \<Rightarrow> QueryResult res) \<Rightarrow> string option \<Rightarrow> jsval list res" where
  "walk_pages 0 ask cursor = Inl ActiveTsConfigurationError"
| "walk_pages (Suc n) ask cursor =
     rbind (ask cursor) (\<lambda>r. case qr_cursor r of
       None \<Rightarrow> Inr (qr_list r)
     | Some c \<Rightarrow> rbind (walk_pages n ask (Some c)) (\<lambda>rest. Inr (qr_list r @ rest)))"

definition position :: "cursor_text \<Rightarrow> CursorSort list \<Rightarrow> jsval list \<Rightarrow> nat \<Rightarrow> string option" where
  "position ct ss S i = (case i of 0 \<Rightarrow> None | Suc j \<Rightarrow> Some (fst ct (row_cursor ss (S ! j))))"

text \<open>One query without a limit, cut in its steps.\<close>

lemma full_query:
  assumes "query_rows ct idField (p\<lparr>q_limit := None, q_offset := None, q_cursor := None\<rparr>) stored = Inr full"
  obtains found ss S where "filtered_rows (q_filter p) stored = Inr found"
    and "sortWithStableId (js_object [(''sort'', sort_value (q_sort p))]) (Str idField) = Inr ss"
    and "sortMemoryRows found ss = Inr S"
    and "rbind (selected_rows idField (q_select p) S) (rlist cloneSafeDataObject) = Inr (qr_list full)"
  using assms
  by (auto simp: query_rows_def rbind_Inr_iff rows_after_cursor_def page_of_def Let_def)

lemma filtered_sub:
  assumes "filtered_rows f rows = Inr found"
  shows "\<exists>P. found = filter P rows"
  using assms filter_marked by (fastforce simp: filtered_rows_def filterRows_def rbind_Inr_iff)

lemma page_from:
  assumes S: "sorted_wrt (\<lambda>x y. compareKeys ss (projr (keyFor ss x)) (projr (keyFor ss y)) < 0) S"
    and keys: "\<forall>x \<in> set S. \<exists>k. keyFor ss x = Inr k" and ss: "safe_sort ss"
    and texts: "\<forall>x \<in> set S. text_ok ct (row_cursor ss x)" and obj: "\<forall>x \<in> set S. is_object x"
    and lim: "assertSafeLimit (Num l) = Inr (Some l)" and i: "i \<le> length S"
  defines "n \<equiv> nat (int_of_num l)"
  shows "rows_after_cursor ct (position ct ss S i) ss S = Inr (drop i S)"
    and "page_of ct (Some l) ss (drop i S)
      = Inr (take n (drop i S), if n < length S - i then position ct ss S (i + n) else None, n < length S - i)"
    and "0 < n"
proof -
  show n: "0 < n"
  proof -
    have "is_safe_integer l" "0 < num_value l" using lim by (simp_all split: if_splits)
    then show ?thesis by (cases l rule: safe_integer_cases) (auto simp: n_def num_of_int_def int_of_num_def)
  qed
  show "rows_after_cursor ct (position ct ss S i) ss S = Inr (drop i S)"
  proof (cases i)
    case 0
    then show ?thesis by (simp add: position_def rows_after_cursor_def)
  next
    case (Suc j)
    with i have j: "j < length S" by simp
    then obtain k where k: "keyFor ss (S ! j) = Inr k" using keys by fastforce
    have "rows_after_cursor ct (Some (fst ct (row_cursor ss (S ! j)))) ss S
        = Inr (filter (\<lambda>x. 0 < compareKeys ss (projr (keyFor ss x)) k) S)"
      by (rule after_row [OF ss k]) (use texts keys j in auto)
    moreover have "filter (\<lambda>x. 0 < compareKeys ss (projr (keyFor ss x)) (projr (keyFor ss (S ! j)))) S = drop (Suc j) S"
      by (rule filter_after [OF S _ j]) (rule compareKeys_antisym)
    ultimately show ?thesis using Suc k by (simp add: position_def)
  qed
  show "page_of ct (Some l) ss (drop i S)
      = Inr (take n (drop i S), if n < length S - i then position ct ss S (i + n) else None, n < length S - i)"
  proof (cases "n < length S - i")
    case True
    have pg: "take n (drop i S) \<noteq> []" using True n by auto
    have len: "length (take n (drop i S)) = n" using True by simp
    then have "last (take n (drop i S)) = take n (drop i S) ! (n - 1)" using last_conv_nth [OF pg] by simp
    also have "\<dots> = S ! (i + n - 1)" using True n by simp
    finally have la: "last (take n (drop i S)) = S ! (i + n - 1)" .
    have mem: "S ! (i + n - 1) \<in> set S" using True n by (intro nth_mem) simp
    then obtain k where k: "keyFor ss (S ! (i + n - 1)) = Inr k" using keys by blast
    have "truthy (S ! (i + n - 1))" using obj mem by (cases "S ! (i + n - 1)") auto
    moreover have "position ct ss S (i + n) = Some (fst ct (row_cursor ss (S ! (i + n - 1))))"
      using n by (cases "i + n") (auto simp: position_def)
    ultimately show ?thesis
      using True pg la lim page_cursor_row [OF ss k] by (simp add: page_of_def copyRows_take Let_def n_def)
  qed (use lim in \<open>simp add: page_of_def copyRows_take Let_def n_def\<close>)
qed

text \<open>C31. Paging loses nothing and repeats nothing: when a client asks for pages of a limited query, passing the cursor of
  each page to get the next, it is done after at most one page more than there are rows, and the pages one after
  the other are the result of the query without a limit. The stored rows have different ids, and the texts of
  their cursors are acceptable and decode to the cursors.\<close>

theorem pages_cover_the_query:
  assumes "query_rows ct idField (p\<lparr>q_limit := None, q_offset := None, q_cursor := None\<rparr>) stored = Inr full"
    and "assertSafeLimit (Num l) = Inr (Some l)"
    and "distinct (map (\<lambda>r. rbind (valueFor r idField) comparable) stored)" and "list_all is_object stored"
    and "sortWithStableId (js_object [(''sort'', sort_value (q_sort p))]) (Str idField) = Inr ss"
    and "list_all (\<lambda>row. text_ok ct (row_cursor ss row)) stored"
  shows "walk_pages (Suc (length stored))
      (\<lambda>c. query_rows ct idField (p\<lparr>q_limit := Some l, q_offset := None, q_cursor := c\<rparr>) stored) None = Inr (qr_list full)"
proof -
  obtain found S where f: "filtered_rows (q_filter p) stored = Inr found" and so: "sortMemoryRows found ss = Inr S"
    and fin: "rbind (selected_rows idField (q_select p) S) (rlist cloneSafeDataObject) = Inr (qr_list full)"
    using assms(1,5) by (auto elim: full_query)
  from filtered_sub [OF f] obtain P where found: "found = filter P stored" by blast
  from sorted_rows [OF so] have perm: "mset S = mset found" and keys: "\<forall>x \<in> set S. \<exists>k. keyFor ss x = Inr k" by blast+
  have sub: "set S \<subseteq> set stored" using mset_eq_setD [OF perm] found by auto
  have len: "length S \<le> length stored" using mset_eq_length [OF perm] found by simp
  have d: "distinct (map (\<lambda>r. rbind (valueFor r idField) comparable) found)"
    using assms(3) unfolding found by (rule distinct_map_filter)
  note strict = strictly_sorted [OF so safe_sort_result(2) [OF assms(5)] d]
  have "\<forall>x \<in> set S. text_ok ct (row_cursor ss x)" "\<forall>x \<in> set S. is_object x"
    using sub assms(4,6) by (auto simp: list_all_iff)
  note page = page_from [OF strict keys safe_sort_result(1) [OF assms(5)] this assms(2)]
  define n where "n = nat (int_of_num l)"
  from finish_rows [OF fin] obtain h where h: "qr_list full = map h S"
    "\<And>T. set T \<subseteq> set S \<Longrightarrow> rbind (selected_rows idField (q_select p) T) (rlist cloneSafeDataObject) = Inr (map h T)" by blast
  let ?ask = "\<lambda>c. query_rows ct idField (p\<lparr>q_limit := Some l, q_offset := None, q_cursor := c\<rparr>) stored"
  have ask: "?ask (position ct ss S i) = Inr \<lparr>qr_list = map h (take n (drop i S)),
      qr_cursor = (if n < length S - i then position ct ss S (i + n) else None), qr_more = n < length S - i,
      qr_count = length (take n (drop i S))\<rparr>" if "i \<le> length S" for i
  proof -
    have t: "set (take n (drop i S)) \<subseteq> set S" by (meson set_take_subset set_drop_subset subset_trans)
    from h(2) [OF t] obtain sel where sel: "selected_rows idField (q_select p) (take n (drop i S)) = Inr sel"
      "rlist cloneSafeDataObject sel = Inr (map h (take n (drop i S)))" by (auto simp: rbind_Inr_iff)
    from f assms(5) so page(1,2) [OF that] sel show ?thesis
      by (simp add: query_rows_def n_def [symmetric])
  qed
  have "walk_pages m ?ask (position ct ss S i) = Inr (map h (drop i S))" if "i \<le> length S" "length S - i < m" for m i
    using that
  proof (induction m arbitrary: i)
    case (Suc m)
    show ?case
    proof (cases "n < length S - i")
      case True
      have n: "0 < n" using page(3) [OF Suc.prems(1)] by (simp add: n_def)
      have "walk_pages m ?ask (position ct ss S (i + n)) = Inr (map h (drop (i + n) S))"
        by (rule Suc.IH) (use True n Suc.prems in auto)
      moreover obtain c where "position ct ss S (i + n) = Some c" using n by (cases "i + n") (auto simp: position_def)
      moreover have "map h (take n (drop i S)) @ map h (drop (i + n) S) = map h (drop i S)"
        by (metis append_take_drop_id drop_drop add.commute map_append)
      ultimately show ?thesis using ask [OF Suc.prems(1)] True by simp
    qed (use ask [OF Suc.prems(1)] in simp)
  qed simp
  from this [of 0 "Suc (length stored)"] len h(1) show ?thesis by (simp add: position_def)
qed

text \<open>Three rows, two of them with equal sort values, read in pages of two; the cursors' texts are a table.\<close>

definition sample_rows :: "jsval list" where
  "sample_rows = map (\<lambda>(i, n). js_object [(''id'', js_int i), (''n'', js_int n)]) [(1, 7), (2, 3), (3, 7)]"

definition sample_query :: QueryPlan where
  "sample_query = \<lparr>q_filter = Plan [] [], q_sort = [\<lparr>sort_field = ''n'', sort_direction = Desc\<rparr>], q_limit = None, q_offset = None,
     q_cursor = None, q_select = None, q_include = [], q_native = None, q_meta = None\<rparr>"

definition sample_sort :: "CursorSort list" where
  "sample_sort = [\<lparr>sort_field = ''n'', sort_direction = Desc\<rparr>, \<lparr>sort_field = ''id'', sort_direction = Asc\<rparr>]"

definition sample_text :: cursor_text where
  "sample_text = (let table = zip [''a'', ''b'', ''c''] (map (row_cursor sample_sort) sample_rows) in
     (\<lambda>v. case map_of (map (\<lambda>(t, c). (c, t)) table) v of None \<Rightarrow> ''x'' | Some t \<Rightarrow> t,
      \<lambda>s. case map_of table s of None \<Rightarrow> Inl ActiveTsConfigurationError | Some c \<Rightarrow> Inr c))"

theorem pages_cover_the_query_witness:
  "walk_pages 4 (\<lambda>c. query_rows sample_text ''id'' (sample_query\<lparr>q_limit := Some (num_of_int 2), q_offset := None, q_cursor := c\<rparr>)
       sample_rows) None
   = Inr [sample_rows ! 0, sample_rows ! 2, sample_rows ! 1]"
proof -
  let ?full = "\<lparr>qr_list = [sample_rows ! 0, sample_rows ! 2, sample_rows ! 1], qr_cursor = None, qr_more = False, qr_count = 3\<rparr>"
  have q: "query_rows sample_text ''id'' (sample_query\<lparr>q_limit := None, q_offset := None, q_cursor := None\<rparr>) sample_rows = Inr ?full"
    by code_simp
  have l: "assertSafeLimit (Num (num_of_int 2)) = Inr (Some (num_of_int 2))" by code_simp
  have d: "distinct (map (\<lambda>r. rbind (valueFor r ''id'') comparable) sample_rows)" by code_simp
  have o1: "list_all is_object sample_rows" by code_simp
  have s: "sortWithStableId (js_object [(''sort'', sort_value (q_sort sample_query))]) (Str ''id'') = Inr sample_sort" by code_simp
  have t: "list_all (\<lambda>row. text_ok sample_text (row_cursor sample_sort row)) sample_rows" by code_simp
  have n: "Suc (length sample_rows) = 4" by code_simp
  from pages_cover_the_query [OF q l d o1 s t] show ?thesis unfolding n by simp
qed

end
