(* ===== verification/SoftDelete.thy ===== *)
theory SoftDelete
  imports StorePlan DateText
begin

text \<open>
  \<open>src/core/soft-delete.ts\<close>: the plugin that hides rows with a deletion mark. Its hooks add a condition to every
  plan and every branch of a plan; the plan is changed in place, here the changed plan is returned. Frozen objects
  and arrays are not represented, so the tests for them are left out. The clock function of the options is given by the
  value it returned.
\<close>

section \<open>Reading plans\<close>

datatype SoftDeleteConstraint = EqNull | IsNullC | IsNotNullC

definition constraint_op :: "SoftDeleteConstraint \<Rightarrow> string" where
  "constraint_op c = (case c of EqNull \<Rightarrow> ''='' | IsNullC \<Rightarrow> ''isNull'' | IsNotNullC \<Rightarrow> ''isNotNull'')"

definition constraint_value :: "SoftDeleteConstraint \<Rightarrow> jsval" where
  "constraint_value c = (if c = EqNull then Null else Undef)"

definition hookDataProperty :: "jsval \<Rightarrow> string \<Rightarrow> jsval res" where
  "hookDataProperty record key = (case own_prop record key of
     None \<Rightarrow> Inr Undef
   | Some p \<Rightarrow> if \<not> is_data p then Inl ActiveTsValidationError else Inr (prop_val p))"

definition assertOwnEnumerableDataProperties :: "jsval \<Rightarrow> unit res" where
  "assertOwnEnumerableDataProperties record = reach (\<lambda>key. case own_prop record key of
       None \<Rightarrow> Inl ActiveTsValidationError
     | Some p \<Rightarrow>
         if \<not> is_data p then Inl ActiveTsValidationError
         else if \<not> enumerable p then Inl ActiveTsValidationError
         else Inr ()) (own_names record)"

definition hookPlan :: "jsval \<Rightarrow> unit res" where
  "hookPlan value =
     (if \<not> is_object value \<or> is_array value then Inl ActiveTsValidationError
      else if \<not> is_plain_object value then Inl ActiveTsValidationError
      else if own_symbols value \<noteq> [] then Inl ActiveTsValidationError
      else assertOwnEnumerableDataProperties value)"

definition hookPlainRecord :: "jsval \<Rightarrow> jsval res" where
  "hookPlainRecord value = rbind (hookPlan value) (\<lambda>_. Inr value)"

definition hookPlanArray :: "jsval \<Rightarrow> string \<Rightarrow> jsval res" where
  "hookPlanArray p key =
     rbind (hookDataProperty p key) (\<lambda>value.
     if \<not> is_array value then Inl ActiveTsValidationError
     else if own_symbols value \<noteq> [] then Inl ActiveTsValidationError
     else rbind (assertDenseArrayItems value) (\<lambda>_. Inr value))"

definition hookPlanMeta :: "jsval \<Rightarrow> jsval option res" where
  "hookPlanMeta p =
     rbind (hookDataProperty p ''meta'') (\<lambda>meta.
     if meta = Undef then Inr None else rbind (hookPlainRecord meta) (\<lambda>m. Inr (Some m)))"

definition hookArrayItem :: "jsprop option \<Rightarrow> jsval res" where
  "hookArrayItem slot = (case slot of
     None \<Rightarrow> Inl ActiveTsValidationError
   | Some p \<Rightarrow> if \<not> is_data p then Inl ActiveTsValidationError else Inr (prop_val p))"

definition hookModelName :: "jsval \<Rightarrow> string res" where
  "hookModelName model =
     rbind (hookPlan model) (\<lambda>_. rbind (hookDataProperty model ''name'') assertSafeSchemaIdentifier)"

section \<open>Adding the condition\<close>

fun has_constraint :: "string \<Rightarrow> SoftDeleteConstraint \<Rightarrow> jsprop option list \<Rightarrow> bool res" where
  "has_constraint field c [] = Inr False"
| "has_constraint field c (slot # rest) =
     rbind (hookArrayItem slot) (\<lambda>item.
     rbind (hookPlan item) (\<lambda>_.
     rbind (hookDataProperty item ''field'') (\<lambda>f.
     if f \<noteq> Str field then has_constraint field c rest
     else rbind (hookDataProperty item ''op'') (\<lambda>opv.
       if opv \<noteq> Str (constraint_op c) then has_constraint field c rest
       else if c \<noteq> EqNull then Inr True
       else rbind (hookDataProperty item ''value'') (\<lambda>v.
         if v = Null then Inr True else has_constraint field c rest)))))"

definition constraint_entry :: "string \<Rightarrow> SoftDeleteConstraint \<Rightarrow> jsval" where
  "constraint_entry field c =
     js_object [(''field'', Str field), (''op'', Str (constraint_op c)), (''value'', constraint_value c)]"

fun push_item :: "jsval \<Rightarrow> jsval \<Rightarrow> jsval" where
  "push_item (Arr es ps ss) x = Arr (es @ [Some (dataP x)]) ps ss"
| "push_item v x = v"

definition constrainWhere :: "string \<Rightarrow> SoftDeleteConstraint \<Rightarrow> jsval \<Rightarrow> jsval res" where
  "constrainWhere field c w =
     rbind (assertDenseArrayItems w) (\<lambda>_.
     rbind (has_constraint field c (slots w)) (\<lambda>found.
     Inr (if found then w else push_item w (constraint_entry field c))))"

text \<open>The value of a property after the object or array in it was changed in place.\<close>

definition put_value :: "string \<Rightarrow> jsval \<Rightarrow> jsval \<Rightarrow> jsval" where
  "put_value k v p = (case own_prop p k of None \<Rightarrow> p | Some q \<Rightarrow> put_own k (set_val q v) p)"

fun put_items :: "jsval \<Rightarrow> jsval list \<Rightarrow> jsval" where
  "put_items (Arr es ps ss) xs = Arr (map2 (\<lambda>s x. map_option (\<lambda>q. set_val q x) s) es xs) ps ss"
| "put_items v xs = v"

lemma hook_array_size:
  assumes "hookPlanArray p k = Inr arr" and "rlist hookArrayItem (slots arr) = Inr items" and "x \<in> set items"
  shows "size x < size p"
proof -
  from assms(1) have "hookDataProperty p k = Inr arr" "is_array arr"
    by (auto simp: hookPlanArray_def rbind_Inr_iff split: if_splits)
  then have a: "size arr < size p"
    by (cases arr) (auto simp: hookDataProperty_def dest: own_prop_size split: option.splits if_splits)
  from rlist_member [OF assms(2,3)] obtain s where s: "s \<in> set (slots arr)" "hookArrayItem s = Inr x" by blast
  then obtain q where "s = Some q" "x = prop_val q" by (auto simp: hookArrayItem_def split: option.splits if_splits)
  with s(1) have "size x < size arr" by (cases arr) (auto dest!: size_slot)
  with a show ?thesis by simp
qed

text \<open>The tests of the branches come before their changes here; all of them throw the same error.\<close>

function constrainPlan :: "string \<Rightarrow> SoftDeleteConstraint \<Rightarrow> jsval \<Rightarrow> jsval res" where
  "constrainPlan field c p =
     rbind (hookPlanArray p ''where'') (\<lambda>w.
     rbind (hookPlanArray p ''or'') (\<lambda>ov.
     rbind (if slots w \<noteq> [] \<or> slots ov = [] then constrainWhere field c w else Inr w) (\<lambda>w'.
     rbind (rlist hookArrayItem (slots ov)) (\<lambda>branches.
     rbind (reach hookPlan branches) (\<lambda>_.
     rbind (rlist (constrainPlan field c) branches) (\<lambda>bs.
     Inr (put_value ''or'' (put_items ov bs) (put_value ''where'' w' p))))))))"
  by pat_completeness auto
termination by (relation "measure (size \<circ> snd \<circ> snd)") (auto intro: hook_array_size)

declare constrainPlan.simps [simp del]

section \<open>Options\<close>

record SoftDeleteOptions =
  sd_field :: jsval
  sd_models :: "string list option"
  sd_now :: "jsval option"
  sd_materializedNulls :: bool

definition SOFT_DELETE_OPTION_KEYS :: "string list" where
  "SOFT_DELETE_OPTION_KEYS = [''field'', ''models'', ''now'', ''materializedNulls'']"

definition ownSoftDeleteOption :: "jsval \<Rightarrow> string \<Rightarrow> jsval res" where
  "ownSoftDeleteOption record key = (case own_prop record key of
     None \<Rightarrow> Inr Undef
   | Some p \<Rightarrow>
       if \<not> is_data p then Inl ActiveTsConfigurationError
       else if \<not> enumerable p then Inl ActiveTsConfigurationError
       else Inr (prop_val p))"

definition assertKnownOptions :: "jsval \<Rightarrow> string list \<Rightarrow> unit res" where
  "assertKnownOptions record allowed =
     reach (\<lambda>property. if property \<notin> set allowed then Inl ActiveTsConfigurationError else Inr ()) (own_names record)"

definition validateSoftDeleteOptions :: "jsval \<Rightarrow> SoftDeleteOptions res" where
  "validateSoftDeleteOptions options =
     (if \<not> is_object options \<or> is_array options then Inl ActiveTsConfigurationError
      else if \<not> is_plain_object options then Inl ActiveTsConfigurationError
      else if own_symbols options \<noteq> [] then Inl ActiveTsConfigurationError
      else rbind (assertKnownOptions options SOFT_DELETE_OPTION_KEYS) (\<lambda>_.
        rbind (ownSoftDeleteOption options ''field'') (\<lambda>field.
        rbind (ownSoftDeleteOption options ''models'') (\<lambda>models.
        rbind (ownSoftDeleteOption options ''now'') (\<lambda>now.
        rbind (ownSoftDeleteOption options ''materializedNulls'') (\<lambda>nulls.
        rbind (if models = Undef then Inr None
               else if \<not> is_array models then Inl ActiveTsConfigurationError
               else rbind (rbind (snapshotArrayInput models) (rlist assertSafeSchemaIdentifier)) (\<lambda>ms. Inr (Some ms))) (\<lambda>ms.
        if now \<noteq> Undef \<and> js_typeof now \<noteq> ''function'' then Inl ActiveTsConfigurationError
        else if nulls \<noteq> Undef \<and> js_typeof nulls \<noteq> ''boolean'' then Inl ActiveTsConfigurationError
        else Inr \<lparr>sd_field = field, sd_models = ms, sd_now = (if now = Undef then None else Some now),
               sd_materializedNulls = (nulls = Bool True)\<rparr>)))))))"

text \<open>\<open>createSoftDeletePlugin\<close> with the field it will use.\<close>

definition soft_delete_field :: "SoftDeleteOptions \<Rightarrow> string res" where
  "soft_delete_field o1 =
     assertSafeFieldPath (if sd_field o1 = Undef \<or> sd_field o1 = Null then Str ''deletedAt'' else sd_field o1)"

section \<open>Hooks\<close>

definition materializePlanMeta :: "jsval option \<Rightarrow> jsval res" where
  "materializePlanMeta meta =
     rbind (case meta of
         None \<Rightarrow> Inr []
       | Some m \<Rightarrow> rbind (assertOwnEnumerableDataProperties m) (\<lambda>_.
           rlist (\<lambda>key. rbind (hookDataProperty m key) (\<lambda>v. Inr (key, dataP v))) (own_names m))) (\<lambda>ps.
     Inr (Obj CPlain (put_prop ''requiresMissingFieldNulls'' (dataP (Bool True)) ps) []))"

definition setHookPlanMeta :: "jsval \<Rightarrow> jsval \<Rightarrow> jsval res" where
  "setHookPlanMeta p meta = (case own_prop p ''meta'' of
     Some q \<Rightarrow> if \<not> is_data q \<or> \<not> writable q then Inl ActiveTsValidationError else Inr (put_own ''meta'' (dataP meta) p)
   | None \<Rightarrow> Inr (put_own ''meta'' (dataP meta) p))"

definition soft_delete_constraint :: "SoftDeleteOptions \<Rightarrow> jsval \<Rightarrow> SoftDeleteConstraint" where
  "soft_delete_constraint o1 mode =
     (if mode = Str ''only'' then IsNotNullC else if sd_materializedNulls o1 then EqNull else IsNullC)"

definition plan_mode :: "jsval \<Rightarrow> jsval res" where
  "plan_mode p = rbind (hookPlanMeta p) (\<lambda>meta. case meta of None \<Rightarrow> Inr Undef | Some m \<Rightarrow> hookDataProperty m ''softDelete'')"

definition applies_to :: "SoftDeleteOptions \<Rightarrow> string \<Rightarrow> bool" where
  "applies_to o1 name = (case sd_models o1 of None \<Rightarrow> True | Some ms \<Rightarrow> name \<in> set ms)"

definition soft_delete_apply :: "SoftDeleteOptions \<Rightarrow> string \<Rightarrow> jsval \<Rightarrow> jsval \<Rightarrow> jsval res" where
  "soft_delete_apply o1 field model p =
     (if \<not> truthy model \<or> \<not> truthy p then Inr p
      else rbind (hookModelName model) (\<lambda>name.
        if \<not> applies_to o1 name then Inr p
        else rbind (hookPlan p) (\<lambda>_.
          rbind (hookPlanMeta p) (\<lambda>meta.
          rbind (plan_mode p) (\<lambda>mode.
          if mode = Str ''with'' then Inr p
          else let c = soft_delete_constraint o1 mode in
            rbind (if c = IsNullC then rbind (materializePlanMeta meta) (setHookPlanMeta p) else Inr p)
              (constrainPlan field c))))))"

definition materializeSoftDeleteNull :: "jsval \<Rightarrow> string \<Rightarrow> jsval option res" where
  "materializeSoftDeleteNull data field =
     (if \<not> is_object data \<or> is_array data then Inr None
      else if own_symbols data \<noteq> [] then Inl ActiveTsValidationError
      else rbind (assertOwnEnumerableDataProperties data) (\<lambda>_.
        rbind (rlist (\<lambda>key. rbind (hookDataProperty data key) (\<lambda>v. Inr (key, dataP v))) (own_names data)) (\<lambda>ps.
        rbind (cloneSafeDataObject (Obj CPlain ps [])) (\<lambda>clean.
        rbind (setPath clean field Null) (\<lambda>d. Inr (Some d))))))"

definition soft_delete_before_validate :: "SoftDeleteOptions \<Rightarrow> string \<Rightarrow> jsval \<Rightarrow> jsval \<Rightarrow> string \<Rightarrow> jsval option res" where
  "soft_delete_before_validate o1 field model data operation =
     (if \<not> truthy model \<or> \<not> truthy data \<or> operation \<noteq> ''create'' then Inr None
      else rbind (hookModelName model) (\<lambda>name.
        if \<not> applies_to o1 name then Inr None
        else rbind (valueFor data field) (\<lambda>v.
          if v \<noteq> Undef then Inr None else materializeSoftDeleteNull data field)))"

definition assertCanonicalSoftDeleteTimestamp :: "jsval \<Rightarrow> string res" where
  "assertCanonicalSoftDeleteTimestamp value =
     rbind (assertSafeCacheKey value) (\<lambda>s. case dateParse s of
         None \<Rightarrow> Inl ActiveTsValidationError
       | Some t \<Rightarrow> if dateIsoString t \<noteq> s then Inl ActiveTsValidationError else Inr s)"

text \<open>The clock: what \<open>options.now\<close> returned, or the current time.\<close>

definition softDeleteTimestamp :: "jsval \<Rightarrow> (jsval \<Rightarrow> jsval res) \<Rightarrow> int \<Rightarrow> string res" where
  "softDeleteTimestamp options call time =
     rbind (validateSoftDeleteOptions options) (\<lambda>o1.
     rbind (case sd_now o1 of None \<Rightarrow> Inr (Str (dateIsoString time)) | Some f \<Rightarrow> call f) assertCanonicalSoftDeleteTimestamp)"

text \<open>What \<open>softDelete\<close> and \<open>restore\<close> do to the data of the row they have loaded.\<close>

definition marked_deleted :: "jsval \<Rightarrow> (jsval \<Rightarrow> jsval res) \<Rightarrow> int \<Rightarrow> jsval \<Rightarrow> jsval res" where
  "marked_deleted options call time data =
     rbind (rbind (validateSoftDeleteOptions options) soft_delete_field) (\<lambda>field.
     rbind (softDeleteTimestamp options call time) (\<lambda>s. setPath data field (Str s)))"

definition unmarked_deleted :: "jsval \<Rightarrow> jsval \<Rightarrow> jsval res" where
  "unmarked_deleted options data =
     rbind (rbind (validateSoftDeleteOptions options) soft_delete_field) (\<lambda>field. setPath data field Null)"

section \<open>What the condition adds\<close>

definition constraint_where :: "string \<Rightarrow> SoftDeleteConstraint \<Rightarrow> where_entry" where
  "constraint_where field c = \<lparr>w_field = field, w_op = constraint_op c, w_value = constraint_value c, w_value2 = Undef\<rparr>"

definition good_slots :: "jsprop option list \<Rightarrow> bool" where
  "good_slots es = list_all (\<lambda>s. case s of None \<Rightarrow> False | Some p \<Rightarrow> is_data p \<and> enumerable p) es"

definition names_ok :: "jsprop option list \<Rightarrow> (string \<times> jsprop) list \<Rightarrow> bool" where
  "names_ok es ps = (\<forall>k \<in> fst ` set ps. k = ''length'' \<or> isArrayIndexProperty k (length es) \<or> k \<in> set ARRAY_METHOD_SHADOW_FIELDS)"

lemma index_name_ok: "k \<in> set (index_names es) \<Longrightarrow> isArrayIndexProperty k (length es)"
  by (auto simp: index_names_def isArrayIndexProperty_def)

lemma dense_Arr: "assertDenseArrayItems (Arr es ps ss) = Inr () \<longleftrightarrow> good_slots es \<and> names_ok es ps"
proof -
  have "reach (\<lambda>slot. case slot of
         None \<Rightarrow> Inl ActiveTsValidationError
       | Some p \<Rightarrow>
           if \<not> is_data p then Inl ActiveTsValidationError
           else if \<not> enumerable p then Inl ActiveTsValidationError
           else Inr ()) es = Inr () \<longleftrightarrow> good_slots es"
    unfolding good_slots_def list_all_iff reach_Inr_iff by (rule ball_cong [OF refl]) (auto split: option.splits)
  moreover have "reach (\<lambda>property.
         if property = ''length'' then Inr ()
         else if \<not> isArrayIndexProperty property (length es)
                 \<and> property \<notin> set ARRAY_METHOD_SHADOW_FIELDS then Inl ActiveTsValidationError
         else Inr ()) (index_names es @ ''length'' # map fst ps) = Inr () \<longleftrightarrow> names_ok es ps"
    unfolding names_ok_def reach_Inr_iff by (auto dest: index_name_ok split: if_splits)
  ultimately show ?thesis unfolding assertDenseArrayItems_def slots.simps own_names.simps by (auto simp: rbind_Inr_iff)
qed

lemma slots_values: "good_slots es \<Longrightarrow> rlist (\<lambda>slot. case slot of
            None \<Rightarrow> Inl ActiveTsValidationError
          | Some p \<Rightarrow> if \<not> is_data p then Inl ActiveTsValidationError else Inr (prop_val p)) es = Inr (map (prop_val \<circ> the) es)"
  by (rule rlist_map_Inr) (auto simp: good_slots_def list_all_iff split: option.splits)

lemma snapshot_Arr:
  "snapshotArrayInput (Arr es ps ss) = Inr items \<longleftrightarrow> ss = [] \<and> good_slots es \<and> names_ok es ps \<and> items = map (prop_val \<circ> the) es"
  using dense_Arr [of es ps ss] slots_values [of es] by (auto simp: snapshotArrayInput_def rbind_Inr_iff)

lemma snapshot_array: "snapshotArrayInput v = Inr items \<Longrightarrow> \<exists>es ps. v = Arr es ps [] \<and> good_slots es \<and> names_ok es ps \<and> items = map (prop_val \<circ> the) es"
  by (cases v) (auto simp: snapshot_Arr, auto simp: snapshotArrayInput_def)

lemma snapshot_push:
  assumes "snapshotArrayInput v = Inr items"
  shows "snapshotArrayInput (push_item v x) = Inr (items @ [x])"
proof -
  from snapshot_array [OF assms] obtain es ps where v: "v = Arr es ps []" "good_slots es" "names_ok es ps" "items = map (prop_val \<circ> the) es" by blast
  have "names_ok (es @ [Some (dataP x)]) ps" using v(3) by (auto simp: names_ok_def isArrayIndexProperty_def less_Suc_eq)
  with v show ?thesis by (simp add: snapshot_Arr good_slots_def)
qed

lemma put_item_map:
  "good_slots es \<Longrightarrow> length xs = length es \<Longrightarrow>
   good_slots (map2 (\<lambda>s x. map_option (\<lambda>q. set_val q x) s) es xs) \<and> map (prop_val \<circ> the) (map2 (\<lambda>s x. map_option (\<lambda>q. set_val q x) s) es xs) = xs"
proof (induction es arbitrary: xs)
  case (Cons s es)
  then obtain x xs' where xs: "xs = x # xs'" "length xs' = length es" by (cases xs) auto
  from Cons.prems(1) obtain q where q: "s = Some q" "is_data q" "enumerable q" "good_slots es"
    by (auto simp: good_slots_def split: option.splits)
  with xs Cons.IH [OF q(4) xs(2)] show ?case by (cases q) (auto simp: good_slots_def)
qed simp

lemma snapshot_put_items:
  assumes "snapshotArrayInput v = Inr items" and "length xs = length items"
  shows "snapshotArrayInput (put_items v xs) = Inr xs"
proof -
  from snapshot_array [OF assms(1)] obtain es ps where v: "v = Arr es ps []" "good_slots es" "names_ok es ps" "items = map (prop_val \<circ> the) es" by blast
  with put_item_map [OF v(2), of xs] assms(2) show ?thesis by (simp add: snapshot_Arr names_ok_def)
qed

lemma hook_items: "snapshotArrayInput v = Inr items \<Longrightarrow> rlist hookArrayItem (slots v) = Inr xs \<Longrightarrow> xs = items"
proof -
  assume "snapshotArrayInput v = Inr items" and x: "rlist hookArrayItem (slots v) = Inr xs"
  from snapshot_array [OF this(1)] obtain es ps where v: "v = Arr es ps []" "good_slots es" "items = map (prop_val \<circ> the) es" by blast
  have "rlist hookArrayItem es = Inr (map (prop_val \<circ> the) es)"
    using slots_values [OF v(2)] by (simp add: hookArrayItem_def [abs_def])
  with x v show ?thesis by simp
qed

lemma own_put: "is_plain_object p \<Longrightarrow> own_prop (put_own k q p) j = (if j = k then Some q else own_prop p j)"
  by (cases p) (auto simp: put_own_def map_of_put_prop)

lemma plain_put [simp]: "is_plain_object (put_own k q p) = is_plain_object p" "own_symbols (put_own k q p) = own_symbols p"
  by (cases p; simp add: put_own_def)+

lemma own_filter_value: "ownFilterPlanValue p k = Inr v \<Longrightarrow> \<exists>q. own_prop p k = Some q \<and> is_data q \<and> enumerable q \<and> prop_val q = v"
  by (auto simp: ownFilterPlanValue_def ownFieldValue_def split: option.splits if_splits)

lemma put_value_own:
  assumes "is_plain_object p" and "ownFilterPlanValue p k = Inr v"
  shows "ownFilterPlanValue (put_value k x p) j = (if j = k then Inr x else ownFilterPlanValue p j)"
    and "is_plain_object (put_value k x p)" and "own_symbols (put_value k x p) = own_symbols p"
proof -
  from own_filter_value [OF assms(2)] obtain q where q: "own_prop p k = Some q" "is_data q" "enumerable q" by blast
  then have "is_data (set_val q x) \<and> enumerable (set_val q x) \<and> prop_val (set_val q x) = x" by (cases q) auto
  with q show "ownFilterPlanValue (put_value k x p) j = (if j = k then Inr x else ownFilterPlanValue p j)"
    by (simp add: ownFilterPlanValue_def ownFieldValue_def put_value_def own_put [OF assms(1)])
  from q assms(1) show "is_plain_object (put_value k x p)" "own_symbols (put_value k x p) = own_symbols p"
    by (simp_all add: put_value_def)
qed

lemma hook_value: "ownFilterPlanValue p k = Inr v \<Longrightarrow> hookPlanArray p k = Inr w \<Longrightarrow> w = v"
  using own_filter_value [of p k v] by (auto simp: hookPlanArray_def hookDataProperty_def rbind_Inr_iff split: if_splits)

lemma snapshot_parts:
  assumes "snapshotFilterPlan p = Inr pl"
  obtains w ov items branches ws os where "pl = Plan ws os" and "is_plain_object p"
    and "ownFilterPlanValue p ''where'' = Inr w" and "snapshotArrayInput w = Inr items" and "rlist snapshotFilterWhereEntry items = Inr ws"
    and "ownFilterPlanValue p ''or'' = Inr ov" and "snapshotArrayInput ov = Inr branches" and "rlist snapshotFilterPlan branches = Inr os"
  using assms by (subst (asm) snapshotFilterPlan.simps) (auto simp: rbind_Inr_iff split: if_splits)

lemma hook_property: "hookDataProperty p k = Inr v \<Longrightarrow> ownFilterEntryValue p k = Inr u \<Longrightarrow> u = v"
  by (auto simp: hookDataProperty_def ownFilterEntryValue_def has_own_def ownFieldValue_def split: option.splits if_splits)

lemma entry_sat:
  "w_field w = field \<Longrightarrow> w_op w = constraint_op c \<Longrightarrow> (c = EqNull \<longrightarrow> w_value w = Null) \<Longrightarrow>
   compareWhere row w = compareWhere row (constraint_where field c)"
  by (cases c) (simp_all add: compareWhere_def constraint_where_def constraint_op_def constraint_value_def Let_def)

lemma snapshot_fields:
  assumes "snapshotFilterWhereEntry item = Inr w"
  shows "ownFilterEntryValue item ''field'' = Inr (Str (w_field w))" "ownFilterEntryValue item ''op'' = Inr (Str (w_op w))"
    "\<exists>u. ownFilterEntryValue item ''value'' = Inr u \<and> (u = Null \<longrightarrow> w_value w = Null)"
proof -
  from assms obtain f field where f: "ownFilterEntryValue item ''field'' = Inr f" "assertSafeFieldPath f = Inr field"
    and opv: "ownFilterEntryValue item ''op'' = Inr (Str (w_op w))" and w: "w_field w = field"
    and v: "\<exists>u. ownFilterEntryValue item ''value'' = Inr u \<and> cloneQueryOperand u = Inr (w_value w)"
    by (auto simp: snapshotFilterWhereEntry_def rbind_Inr_iff simp del: assertSafeFieldPath.simps split: if_splits jsval.splits)
  from f(2) have "f = Str field" by (cases f) (auto dest: assertSafeFieldPath_same simp: rbind_Inr_iff split: if_splits)
  with f w opv show "ownFilterEntryValue item ''field'' = Inr (Str (w_field w))" "ownFilterEntryValue item ''op'' = Inr (Str (w_op w))"
    by simp_all
  from v show "\<exists>u. ownFilterEntryValue item ''value'' = Inr u \<and> (u = Null \<longrightarrow> w_value w = Null)"
    by (auto simp: cloneQueryOperand_def)
qed

lemma snapshot_constraint:
  assumes "snapshotFilterWhereEntry (constraint_entry field c) = Inr w"
  shows "compareWhere row w = compareWhere row (constraint_where field c)"
proof (rule entry_sat)
  have own: "ownFilterEntryValue (constraint_entry field c) ''field'' = Inr (Str field)"
    "ownFilterEntryValue (constraint_entry field c) ''op'' = Inr (Str (constraint_op c))"
    "ownFilterEntryValue (constraint_entry field c) ''value'' = Inr (constraint_value c)"
    by (simp_all add: ownFilterEntryValue_def has_own_def ownFieldValue_def constraint_entry_def js_object_def dataP_def)
  with snapshot_fields [OF assms] show "w_field w = field" "w_op w = constraint_op c" "c = EqNull \<longrightarrow> w_value w = Null"
    by (auto simp: constraint_value_def)
qed

lemma found_constraint:
  assumes "has_constraint field c es = Inr True" and "list_all2 (\<lambda>i w. snapshotFilterWhereEntry i = Inr w) (map (prop_val \<circ> the) es) ws"
  shows "\<exists>w \<in> set ws. compareWhere row w = compareWhere row (constraint_where field c)"
  using assms
proof (induction es arbitrary: ws)
  case (Cons s es)
  from Cons.prems(2) obtain w ws' where ws: "ws = w # ws'" "snapshotFilterWhereEntry (prop_val (the s)) = Inr w"
    and rest: "list_all2 (\<lambda>i w. snapshotFilterWhereEntry i = Inr w) (map (prop_val \<circ> the) es) ws'" by (auto simp: list_all2_Cons1 o_def)
  from Cons.prems(1) obtain item where item: "hookArrayItem s = Inr item" by (auto simp: rbind_Inr_iff)
  then have i: "item = prop_val (the s)" by (auto simp: hookArrayItem_def split: option.splits if_splits)
  note w = snapshot_fields [OF ws(2)]
  show ?case
  proof (cases "has_constraint field c es = Inr True")
    case True
    from Cons.IH [OF True rest] ws(1) show ?thesis by auto
  next
    case False
    with Cons.prems(1) item i
    have "hookDataProperty item ''field'' = Inr (Str field)" "hookDataProperty item ''op'' = Inr (Str (constraint_op c))"
      "c = EqNull \<longrightarrow> hookDataProperty item ''value'' = Inr Null"
      by (auto simp: rbind_Inr_iff split: if_splits)
    then have "compareWhere row w = compareWhere row (constraint_where field c)"
      using w i by (intro entry_sat) (auto dest: hook_property)
    with ws(1) show ?thesis by auto
  qed
qed simp

lemma rlist_snoc: "rlist f (xs @ [x]) = rbind (rlist f xs) (\<lambda>ys. rbind (f x) (\<lambda>y. Inr (ys @ [y])))"
  by (induction xs) (simp_all add: rbind_assoc)

lemma constrained_where:
  assumes "snapshotArrayInput w = Inr items" and "rlist snapshotFilterWhereEntry items = Inr ws"
    and "constrainWhere field c w = Inr w'" and "snapshotArrayInput w' = Inr items'" and "rlist snapshotFilterWhereEntry items' = Inr ws'"
  shows "ws' \<noteq> []" and "(\<forall>x \<in> set ws'. compareWhere row x = Inr True) \<longleftrightarrow>
    (\<forall>x \<in> set ws. compareWhere row x = Inr True) \<and> compareWhere row (constraint_where field c) = Inr True"
proof -
  from snapshot_array [OF assms(1)] obtain es ps where v: "w = Arr es ps []" "items = map (prop_val \<circ> the) es" by blast
  from assms(3) v obtain found where found: "has_constraint field c es = Inr found"
    "w' = (if found then w else push_item w (constraint_entry field c))" by (auto simp: constrainWhere_def rbind_Inr_iff)
  have l: "list_all2 (\<lambda>i w. snapshotFilterWhereEntry i = Inr w) (map (prop_val \<circ> the) es) ws"
    using assms(2) v by (simp add: rlist_Inr_iff)
  have "ws' \<noteq> [] \<and> ((\<forall>x \<in> set ws'. compareWhere row x = Inr True) \<longleftrightarrow>
    (\<forall>x \<in> set ws. compareWhere row x = Inr True) \<and> compareWhere row (constraint_where field c) = Inr True)"
  proof (cases found)
    case True
    with found assms have "ws' = ws" by simp
    with found_constraint [OF _ l, of field c row] found True show ?thesis by force
  next
    case False
    with found snapshot_push [OF assms(1)] assms(4) have "items' = items @ [constraint_entry field c]" by simp
    with assms(2,5) obtain e where "ws' = ws @ [e]" "snapshotFilterWhereEntry (constraint_entry field c) = Inr e"
      by (auto simp: rlist_snoc rbind_Inr_iff simp del: rlist_Inr_iff)
    with snapshot_constraint show ?thesis by auto
  qed
  then show "ws' \<noteq> []" "(\<forall>x \<in> set ws'. compareWhere row x = Inr True) \<longleftrightarrow>
    (\<forall>x \<in> set ws. compareWhere row x = Inr True) \<and> compareWhere row (constraint_where field c) = Inr True" by blast+
qed

lemma constrain_parts:
  assumes "constrainPlan field c p = Inr p'"
  obtains w ov w' branches bs where "hookPlanArray p ''where'' = Inr w" and "hookPlanArray p ''or'' = Inr ov"
    and "(if slots w \<noteq> [] \<or> slots ov = [] then constrainWhere field c w else Inr w) = Inr w'"
    and "rlist hookArrayItem (slots ov) = Inr branches" and "rlist (constrainPlan field c) branches = Inr bs"
    and "p' = put_value ''or'' (put_items ov bs) (put_value ''where'' w' p)"
  using assms by (subst (asm) constrainPlan.simps) (auto simp: rbind_Inr_iff simp del: rlist_Inr_iff)

lemma slots_items: "snapshotArrayInput v = Inr items \<Longrightarrow> slots v = [] \<longleftrightarrow> items = []"
  using snapshot_array [of v items] by auto

lemma ex_pointwise:
  assumes "length ys = length xs" and "\<And>i. i < length xs \<Longrightarrow> P (ys ! i) \<longleftrightarrow> P (xs ! i) \<and> E"
  shows "(\<exists>y \<in> set ys. P y) \<longleftrightarrow> (\<exists>x \<in> set xs. P x) \<and> E"
proof -
  have "(\<exists>y \<in> set ys. P y) \<longleftrightarrow> (\<exists>i < length xs. P (ys ! i))" using assms(1) by (metis in_set_conv_nth)
  also have "\<dots> \<longleftrightarrow> (\<exists>i < length xs. P (xs ! i) \<and> E)" using assms(2) by blast
  also have "\<dots> \<longleftrightarrow> (\<exists>x \<in> set xs. P x) \<and> E" by (metis in_set_conv_nth)
  finally show ?thesis .
qed

lemma constrained_plan:
  assumes "snapshotFilterPlan p = Inr pl" and "constrainPlan field c p = Inr p'" and "snapshotFilterPlan p' = Inr pl'"
  shows "plan_sat row pl' \<longleftrightarrow> plan_sat row pl \<and> compareWhere row (constraint_where field c) = Inr True"
  using assms
proof (induction p arbitrary: pl p' pl' rule: measure_induct_rule [of size])
  case (less p)
  let ?E = "compareWhere row (constraint_where field c) = Inr True"
  let ?all = "\<lambda>ws. \<forall>x \<in> set ws. compareWhere row x = Inr True"
  from less.prems(1) obtain w ov items branches ws os where pl: "pl = Plan ws os" and p: "is_plain_object p"
    and w: "ownFilterPlanValue p ''where'' = Inr w" "snapshotArrayInput w = Inr items" "rlist snapshotFilterWhereEntry items = Inr ws"
    and ov: "ownFilterPlanValue p ''or'' = Inr ov" "snapshotArrayInput ov = Inr branches" "rlist snapshotFilterPlan branches = Inr os"
    by (rule snapshot_parts)
  from less.prems(2) obtain w1 ov1 w' bs1 bs where h: "hookPlanArray p ''where'' = Inr w1" "hookPlanArray p ''or'' = Inr ov1"
    and w': "(if slots w1 \<noteq> [] \<or> slots ov1 = [] then constrainWhere field c w1 else Inr w1) = Inr w'"
    and bs: "rlist hookArrayItem (slots ov1) = Inr bs1" "rlist (constrainPlan field c) bs1 = Inr bs"
    and p': "p' = put_value ''or'' (put_items ov1 bs) (put_value ''where'' w' p)"
    by (rule constrain_parts)
  have eq: "w1 = w" "ov1 = ov" "bs1 = branches"
    using hook_value [OF w(1) h(1)] hook_value [OF ov(1) h(2)] hook_items [OF _ bs(1)] ov(2) by auto
  have len: "length bs = length branches" using rlist_length [OF bs(2)] eq by simp
  note put1 = put_value_own [OF p w(1), of w']
  have ov1: "ownFilterPlanValue (put_value ''where'' w' p) ''or'' = Inr ov" using put1(1) ov(1) by simp
  note put2 = put_value_own [OF put1(2) ov1, of "put_items ov bs"]
  from less.prems(3) obtain w2 ov2 items' ws' branches' os' where pl': "pl' = Plan ws' os'"
    and n2: "ownFilterPlanValue p' ''where'' = Inr w2" "ownFilterPlanValue p' ''or'' = Inr ov2"
    and nw2: "snapshotArrayInput w2 = Inr items'" "rlist snapshotFilterWhereEntry items' = Inr ws'"
    and no2: "snapshotArrayInput ov2 = Inr branches'" "rlist snapshotFilterPlan branches' = Inr os'"
    by (rule snapshot_parts)
  have "w2 = w'" "ov2 = put_items ov bs" using n2 put1(1) put2(1) p' eq by simp_all
  then have nw: "snapshotArrayInput w' = Inr items'" "rlist snapshotFilterWhereEntry items' = Inr ws'"
    and no: "snapshotArrayInput (put_items ov bs) = Inr branches'" "rlist snapshotFilterPlan branches' = Inr os'"
    using nw2 no2 by simp_all
  have br: "branches' = bs" using no(1) snapshot_put_items [OF ov(2) len] by simp
  have lens: "length os = length branches" "length os' = length branches"
    using rlist_length [OF ov(3)] rlist_length [OF no(2)] br len by simp_all
  have each: "plan_sat row (os' ! i) \<longleftrightarrow> plan_sat row (os ! i) \<and> ?E" if i: "i < length os" for i
  proof (rule less.IH)
    have b: "branches ! i \<in> set branches" using i lens by simp
    then show "size (branches ! i) < size p" using hook_array_size [OF h(2) bs(1)] eq by simp
    show "snapshotFilterPlan (branches ! i) = Inr (os ! i)"
      using ov(3) i lens by (simp add: rlist_Inr_iff list_all2_conv_all_nth)
    show "constrainPlan field c (branches ! i) = Inr (bs ! i)"
      using bs(2) i lens len eq by (auto simp: rlist_Inr_iff list_all2_conv_all_nth rbind_Inr_iff)
    show "snapshotFilterPlan (bs ! i) = Inr (os' ! i)"
      using no(2) br i lens len by (simp add: rlist_Inr_iff list_all2_conv_all_nth)
  qed
  have ors: "(\<exists>q \<in> set os'. plan_sat row q) \<longleftrightarrow> (\<exists>q \<in> set os. plan_sat row q) \<and> ?E"
    using ex_pointwise [of os' os "plan_sat row"] each lens by simp
  have wsl: "ws = [] \<longleftrightarrow> items = []" using rlist_length [OF w(3)] by auto
  have osl: "os = [] \<longleftrightarrow> branches = []" "os' = [] \<longleftrightarrow> os = []" using lens by auto
  show ?case
  proof (cases "ws \<noteq> [] \<or> os = []")
    case True
    then have "constrainWhere field c w = Inr w'"
      using w' eq wsl osl slots_items [OF w(2)] slots_items [OF ov(2)] by (simp split: if_splits)
    note cw = constrained_where(1) [OF w(2,3) this nw] constrained_where(2) [OF w(2,3) this nw, where row = row]
    show ?thesis using cw True ors osl unfolding pl pl' by auto
  next
    case False
    then have "w' = w" using w' eq wsl osl slots_items [OF w(2)] slots_items [OF ov(2)] by simp
    then have "ws' = ws" using nw w by simp
    with False ors osl show ?thesis unfolding pl pl' by auto
  qed
qed

section \<open>Property\<close>

text \<open>Which rows a plan may show, by the mode in its metadata.\<close>

definition shown :: "SoftDeleteOptions \<Rightarrow> string \<Rightarrow> jsval \<Rightarrow> jsval \<Rightarrow> bool" where
  "shown o1 field mode row =
     (mode = Str ''with'' \<or> (case valueFor row field of
        Inl _ \<Rightarrow> False
      | Inr v \<Rightarrow>
          if mode = Str ''only'' then v \<noteq> Null \<and> v \<noteq> Undef
          else if sd_materializedNulls o1 then v = Null else v = Null \<or> v = Undef))"

lemma strict_eq_null: "strict_eq v Null \<longleftrightarrow> v = Null"
  by (cases v) (simp_all add: strict_eq_def)

lemma plain_object_kind: "is_plain_object p \<Longrightarrow> is_object p \<and> \<not> is_array p"
  by (cases p) simp_all

lemma constraint_sat:
  "compareWhere row (constraint_where field (soft_delete_constraint o1 mode)) = Inr True \<longleftrightarrow>
   (case valueFor row field of
        Inl _ \<Rightarrow> False
      | Inr v \<Rightarrow>
          if mode = Str ''only'' then v \<noteq> Null \<and> v \<noteq> Undef
          else if sd_materializedNulls o1 then v = Null else v = Null \<or> v = Undef)"
  by (auto simp: compareWhere_def constraint_where_def soft_delete_constraint_def constraint_op_def constraint_value_def Let_def
      strict_eq_null rbind_Inr_iff split: sum.splits)

lemma snapshot_meta:
  assumes "setHookPlanMeta p m = Inr q" and "snapshotFilterPlan p = Inr pl"
  shows "snapshotFilterPlan q = Inr pl"
proof -
  from assms(2) have p: "is_plain_object p" by (rule snapshot_parts)
  from assms(1) have q: "q = put_own ''meta'' (dataP m) p" by (auto simp: setHookPlanMeta_def split: option.splits if_splits)
  have own: "ownFilterPlanValue q k = ownFilterPlanValue p k" if "k \<noteq> ''meta''" for k
    using that by (simp add: q ownFilterPlanValue_def ownFieldValue_def own_put [OF p])
  have "snapshotFilterPlan q = snapshotFilterPlan p"
    by (subst (1 2) snapshotFilterPlan.simps) (use p own in \<open>simp add: q plain_object_kind\<close>)
  with assms(2) show ?thesis by simp
qed

text \<open>C32. Soft deletion hides what it should and nothing else: when the hook has changed a plan, the rows that satisfy the
  plan are those that satisfied it before and whose deletion mark is as the mode of the plan asks, missing or null for an
  ordinary query, present for \<open>only\<close>, and anything for \<open>with\<close>; in every branch of the plan alike.\<close>

theorem soft_delete_hides_exactly:
  assumes "snapshotFilterPlan p = Inr pl" and "truthy model" and "hookModelName model = Inr name" and "applies_to o1 name"
    and "plan_mode p = Inr mode" and "soft_delete_apply o1 field model p = Inr p'" and "snapshotFilterPlan p' = Inr pl'"
  shows "plan_sat row pl' \<longleftrightarrow> plan_sat row pl \<and> shown o1 field mode row"
proof (cases "mode = Str ''with''")
  case True
  with assms have "p' = p" by (auto simp: soft_delete_apply_def rbind_Inr_iff split: if_splits)
  with assms(1,7) True show ?thesis by (simp add: shown_def)
next
  case False
  from assms(1) have "is_plain_object p" by (rule snapshot_parts)
  then have "truthy p" by (cases p) auto
  let ?c = "soft_delete_constraint o1 mode"
  have "\<exists>q. constrainPlan field ?c q = Inr p' \<and> (q = p \<or> (\<exists>m. setHookPlanMeta p m = Inr q))"
    using assms(2-6) False \<open>truthy p\<close>
    by (cases "?c = IsNullC") (auto simp: soft_delete_apply_def rbind_Inr_iff Let_def split: if_splits)
  then obtain q where q: "constrainPlan field ?c q = Inr p'" "q = p \<or> (\<exists>m. setHookPlanMeta p m = Inr q)" by blast
  then have "snapshotFilterPlan q = Inr pl" using assms(1) snapshot_meta by blast
  from constrained_plan [OF this q(1) assms(7)] False show ?thesis by (simp add: shown_def constraint_sat)
qed

text \<open>A plan with two branches and the rows it shows.\<close>

definition branch_plan :: jsval where
  "branch_plan = (let branch = (\<lambda>i. js_object [(''where'', js_array [js_object [(''field'', Str ''n''), (''op'', Str ''=''), (''value'', js_int i)]]),
       (''or'', js_array [])]) in js_object [(''where'', js_array []), (''or'', js_array [branch 1, branch 2])])"

definition sample_options :: SoftDeleteOptions where
  "sample_options = \<lparr>sd_field = Undef, sd_models = None, sd_now = None, sd_materializedNulls = False\<rparr>"

theorem soft_delete_hides_exactly_witness:
  "plan_sat (js_object [(''n'', js_int 2)]) (projr (snapshotFilterPlan branch_plan))
   \<and> (\<exists>p'. soft_delete_apply sample_options ''deletedAt'' (js_object [(''name'', Str ''user'')]) branch_plan = Inr p'
     \<and> plan_sat (js_object [(''n'', js_int 2)]) (projr (snapshotFilterPlan p'))
     \<and> \<not> plan_sat (js_object [(''n'', js_int 2), (''deletedAt'', Str ''x'')]) (projr (snapshotFilterPlan p')))"
proof -
  let ?m = "js_object [(''name'', Str ''user'')]" and ?r = "js_object [(''n'', js_int 2)]"
    and ?s = "js_object [(''n'', js_int 2), (''deletedAt'', Str ''x'')]"
  let ?a = "soft_delete_apply sample_options ''deletedAt'' ?m branch_plan"
  have b: "\<not> isl (snapshotFilterPlan branch_plan)" "matchesPlan ?r (projr (snapshotFilterPlan branch_plan)) = Inr True" by code_simp+
  have a: "\<not> isl ?a" "\<not> isl (snapshotFilterPlan (projr ?a))" by code_simp+
  have h: "truthy ?m" "hookModelName ?m = Inr ''user''" "applies_to sample_options ''user''" "plan_mode branch_plan = Inr Undef"
    by code_simp+
  have v: "shown sample_options ''deletedAt'' Undef ?r" "\<not> shown sample_options ''deletedAt'' Undef ?s" by code_simp+
  from b(1) obtain pl where pl: "snapshotFilterPlan branch_plan = Inr pl" by (cases "snapshotFilterPlan branch_plan") auto
  from a(1) obtain p' where p': "?a = Inr p'" by (cases ?a) auto
  with a(2) obtain pl' where pl': "snapshotFilterPlan p' = Inr pl'" by (cases "snapshotFilterPlan p'") auto
  have sat: "plan_sat ?r pl" using b(2) pl matchesPlan_sat by fastforce
  note hides = soft_delete_hides_exactly [OF pl h p' pl']
  have "plan_sat ?r pl'" "\<not> plan_sat ?s pl'" using hides [of ?r] hides [of ?s] sat v by simp_all
  with sat pl p' pl' show ?thesis by simp
qed

end
