(* ===== verification/DatastoreKey.thy ===== *)
theory DatastoreKey
  imports QueryFilter
begin

text \<open>
  \<open>src/core/datastore-key.ts\<close>: hierarchical keys of Datastore entities, their normal form, their identity strings and the
  ancestor of a row read from its entity key. A key is a record; where the code normalises a key once more, the model
  normalises the value \<open>key_value\<close> of it. Values are trees, so the search for cycles in parent keys has nothing to find.
\<close>

section \<open>Keys\<close>

record DatastoreKeyPart =
  part_kind :: string
  part_id :: jsval

record DatastoreKey =
  key_path :: "DatastoreKeyPart list"
  key_namespace :: "string option"

datatype DatastoreKeyEncoding = ActiveTsKeys | NativeKeys

definition key_record :: "jsval \<Rightarrow> jsval res" where
  "key_record value =
     (if \<not> is_object value \<or> is_array value then Inl ActiveTsValidationError
      else if \<not> is_plain_object value then Inl ActiveTsValidationError
      else if own_symbols value \<noteq> [] then Inl ActiveTsValidationError
      else Inr value)"

definition key_known_keys :: "jsval \<Rightarrow> string list \<Rightarrow> unit res" where
  "key_known_keys record allowed = reach (\<lambda>property. case own_prop record property of
       None \<Rightarrow> Inl ActiveTsValidationError
     | Some p \<Rightarrow>
         if \<not> is_data p then Inl ActiveTsValidationError
         else if \<not> enumerable p then Inl ActiveTsValidationError
         else if property \<notin> set allowed then Inl ActiveTsValidationError
         else Inr ()) (own_names record)"

definition key_own_value :: "jsval \<Rightarrow> string \<Rightarrow> jsval res" where
  "key_own_value record key = (case own_prop record key of
     None \<Rightarrow> Inr Undef
   | Some p \<Rightarrow>
       if \<not> is_data p then Inl ActiveTsValidationError
       else if \<not> enumerable p then Inl ActiveTsValidationError
       else Inr (prop_val p))"

definition normalizeDatastoreNamespace :: "jsval \<Rightarrow> string option res" where
  "normalizeDatastoreNamespace value = (case value of
     Undef \<Rightarrow> Inr None
   | Str s \<Rightarrow> if s = [] \<or> nul \<in> set s then Inl ActiveTsValidationError else Inr (Some s)
   | _ \<Rightarrow> Inl ActiveTsValidationError)"

definition normalizeDatastoreKind :: "jsval \<Rightarrow> string res" where
  "normalizeDatastoreKind value =
     rbind (assertSafeSchemaIdentifier value) (\<lambda>name. assertSafePhysicalIdentifierLength name MAX_SCHEMA_IDENTIFIER_BYTES)"

definition normalizeDatastoreEntityId :: "jsval \<Rightarrow> jsval res" where
  "normalizeDatastoreEntityId value = rbind (assertSafeEntityId value) (\<lambda>_. Inr value)"

definition DATASTORE_KEY_KEYS :: "string list" where
  "DATASTORE_KEY_KEYS = [''path'', ''namespace'']"

definition DATASTORE_KEY_PART_KEYS :: "string list" where
  "DATASTORE_KEY_PART_KEYS = [''kind'', ''id'']"

definition DATASTORE_KEY_OPTION_KEYS :: "string list" where
  "DATASTORE_KEY_OPTION_KEYS = [''parent'', ''namespace'']"

definition normalizeDatastoreKeyPart :: "jsval \<Rightarrow> DatastoreKeyPart res" where
  "normalizeDatastoreKeyPart value =
     rbind (key_record value) (\<lambda>record.
     rbind (key_known_keys record DATASTORE_KEY_PART_KEYS) (\<lambda>_.
     rbind (rbind (key_own_value record ''kind'') normalizeDatastoreKind) (\<lambda>kind.
     rbind (rbind (key_own_value record ''id'') normalizeDatastoreEntityId) (\<lambda>ident.
     Inr \<lparr>part_kind = kind, part_id = ident\<rparr>))))"

definition normalizeDatastoreKey :: "jsval \<Rightarrow> DatastoreKey res" where
  "normalizeDatastoreKey value =
     rbind (key_record value) (\<lambda>record.
     rbind (key_known_keys record DATASTORE_KEY_KEYS) (\<lambda>_.
     rbind (key_own_value record ''path'') (\<lambda>path.
     if \<not> is_array path \<or> slots path = [] then Inl ActiveTsValidationError
     else if own_symbols path \<noteq> [] then Inl ActiveTsValidationError
     else rbind (rlist (\<lambda>slot. case slot of
              None \<Rightarrow> Inl ActiveTsValidationError
            | Some p \<Rightarrow>
                if \<not> is_data p then Inl ActiveTsValidationError
                else if \<not> enumerable p then Inl ActiveTsValidationError
                else normalizeDatastoreKeyPart (prop_val p)) (slots path)) (\<lambda>parts.
       rbind (reach (\<lambda>property. if property = ''length'' then Inr ()
            else if \<not> isArrayIndexProperty property (length (slots path)) then Inl ActiveTsValidationError
            else Inr ()) (own_names path)) (\<lambda>_.
       rbind (rbind (key_own_value record ''namespace'') normalizeDatastoreNamespace) (\<lambda>namespace.
       Inr \<lparr>key_path = parts, key_namespace = namespace\<rparr>))))))"

definition part_value :: "DatastoreKeyPart \<Rightarrow> jsval" where
  "part_value p = js_object [(''kind'', Str (part_kind p)), (''id'', part_id p)]"

definition namespace_value :: "string option \<Rightarrow> jsval" where
  "namespace_value n = (case n of None \<Rightarrow> Undef | Some s \<Rightarrow> Str s)"

definition key_value :: "DatastoreKey \<Rightarrow> jsval" where
  "key_value k = js_object [(''path'', js_array (map part_value (key_path k))), (''namespace'', namespace_value (key_namespace k))]"

definition datastoreKey :: "jsval \<Rightarrow> jsval \<Rightarrow> jsval \<Rightarrow> DatastoreKey res" where
  "datastoreKey kind ident options =
     rbind (key_record (if options = Undef then js_object [] else options)) (\<lambda>record.
     rbind (key_known_keys record DATASTORE_KEY_OPTION_KEYS) (\<lambda>_.
     rbind (key_own_value record ''parent'') (\<lambda>parent.
     rbind (rbind (key_own_value record ''namespace'') normalizeDatastoreNamespace) (\<lambda>namespace.
     rbind (if parent = Undef then Inr None else rbind (normalizeDatastoreKey parent) (\<lambda>k. Inr (Some k))) (\<lambda>parentKey.
     let parentNamespace = (case parentKey of None \<Rightarrow> None | Some k \<Rightarrow> key_namespace k) in
     if parentNamespace \<noteq> None \<and> namespace \<noteq> None \<and> parentNamespace \<noteq> namespace then Inl ActiveTsValidationError
     else rbind (normalizeDatastoreKind kind) (\<lambda>safeKind.
       rbind (normalizeDatastoreEntityId ident) (\<lambda>safeId.
       Inr \<lparr>key_path = (case parentKey of None \<Rightarrow> [] | Some k \<Rightarrow> key_path k) @ [\<lparr>part_kind = safeKind, part_id = safeId\<rparr>],
            key_namespace = (case namespace of None \<Rightarrow> parentNamespace | Some n \<Rightarrow> Some n)\<rparr>)))))))"

definition datastoreKeyWithNamespace :: "DatastoreKey \<Rightarrow> jsval \<Rightarrow> DatastoreKey res" where
  "datastoreKeyWithNamespace key namespace =
     rbind (normalizeDatastoreKey (key_value key)) (\<lambda>safeKey.
     rbind (normalizeDatastoreNamespace namespace) (\<lambda>safeNamespace.
     if safeNamespace = None \<or> key_namespace safeKey = safeNamespace then Inr safeKey
     else if key_namespace safeKey \<noteq> None then Inl ActiveTsValidationError
     else Inr \<lparr>key_path = key_path safeKey, key_namespace = safeNamespace\<rparr>))"

definition part_text :: "DatastoreKeyPart \<Rightarrow> string res" where
  "part_text part = rbind (entityIdKey (part_id part)) (\<lambda>i.
         Inr (''kind:'' @ show_nat (length (part_kind part)) @ '':'' @ part_kind part @ '':id:'' @ show_nat (length i) @ '':'' @ i @ '':''))"

definition datastoreKeyIdentity :: "DatastoreKey \<Rightarrow> string res" where
  "datastoreKeyIdentity key =
     rbind (normalizeDatastoreKey (key_value key)) (\<lambda>safeKey.
     rbind (rlist part_text (key_path safeKey)) (\<lambda>parts.
     Inr ((case key_namespace safeKey of
             None \<Rightarrow> ''namespace:''
           | Some n \<Rightarrow> ''namespace:'' @ show_nat (length n) @ '':'' @ n @ '':'') @ concat parts)))"

definition datastoreScopedAncestorMatches :: "DatastoreKey option \<Rightarrow> DatastoreKey option \<Rightarrow> bool res" where
  "datastoreScopedAncestorMatches actual expected = (case (actual, expected) of
     (Some a, Some e) \<Rightarrow>
       rbind (normalizeDatastoreKey (key_value a)) (\<lambda>x.
       rbind (normalizeDatastoreKey (key_value e)) (\<lambda>y.
       if length (key_path x) \<noteq> length (key_path y) then Inr False
       else rbind (rlist (\<lambda>(p, q). if part_kind p \<noteq> part_kind q then Inr False
              else rbind (entityIdKey (part_id p)) (\<lambda>i. rbind (entityIdKey (part_id q)) (\<lambda>j. Inr (i = j))))
              (zip (key_path x) (key_path y))) (\<lambda>same.
         Inr (list_all id same \<and> \<not> (key_namespace x \<noteq> None \<and> key_namespace y = None)
           \<and> (key_namespace x = None \<or> key_namespace y = None \<or> key_namespace x = key_namespace y)))))
   | (None, None) \<Rightarrow> Inr True
   | _ \<Rightarrow> Inr False)"

section \<open>Read policies\<close>

datatype read_policy = ReadTime jsnum | ReadConsistency string

definition normalizeDatastoreReadTime :: "jsval \<Rightarrow> jsnum res" where
  "normalizeDatastoreReadTime value =
     (case (case value of Obj (CDate t) _ _ \<Rightarrow> (case t of None \<Rightarrow> Num NaN | Some i \<Rightarrow> js_int i) | v \<Rightarrow> v) of
        Num n \<Rightarrow> if \<not> is_safe_integer n \<or> num_value n \<le> 0 then Inl ActiveTsValidationError else Inr n
      | _ \<Rightarrow> Inl ActiveTsValidationError)"

definition DATASTORE_READ_POLICY_KEYS :: "string list" where
  "DATASTORE_READ_POLICY_KEYS = [''readTime'', ''consistency'']"

definition DATASTORE_READ_OPTION_KEYS :: "string list" where
  "DATASTORE_READ_OPTION_KEYS = [''readTime'', ''consistency'', ''ancestor'']"

definition normalizeDatastoreReadPolicy :: "jsval \<Rightarrow> read_policy res" where
  "normalizeDatastoreReadPolicy value =
     rbind (key_record value) (\<lambda>record.
     rbind (key_known_keys record DATASTORE_READ_POLICY_KEYS) (\<lambda>_.
     rbind (key_own_value record ''readTime'') (\<lambda>rawReadTime.
     rbind (key_own_value record ''consistency'') (\<lambda>consistency.
     if rawReadTime \<noteq> Undef \<and> consistency \<noteq> Undef then Inl ActiveTsValidationError
     else if rawReadTime = Undef \<and> consistency = Undef then Inl ActiveTsValidationError
     else if rawReadTime \<noteq> Undef then rbind (normalizeDatastoreReadTime rawReadTime) (\<lambda>t. Inr (ReadTime t))
     else case consistency of
         Str s \<Rightarrow> if s = ''strong'' \<or> s = ''eventual'' then Inr (ReadConsistency s) else Inl ActiveTsValidationError
       | _ \<Rightarrow> Inl ActiveTsValidationError))))"

definition datastoreReadOptions :: "jsval \<Rightarrow> (read_policy \<times> DatastoreKey option) res" where
  "datastoreReadOptions options =
     rbind (key_record options) (\<lambda>record.
     rbind (key_known_keys record DATASTORE_READ_OPTION_KEYS) (\<lambda>_.
     rbind (key_own_value record ''readTime'') (\<lambda>readTime.
     rbind (key_own_value record ''consistency'') (\<lambda>consistency.
     rbind (if readTime = Undef then Inr [(''consistency'', consistency)]
            else rbind (normalizeDatastoreReadTime readTime) (\<lambda>t. Inr [(''readTime'', Num t), (''consistency'', consistency)])) (\<lambda>ps.
     rbind (normalizeDatastoreReadPolicy (js_object ps)) (\<lambda>policy.
     rbind (key_own_value record ''ancestor'') (\<lambda>ancestorValue.
     rbind (if ancestorValue = Undef then Inr None else rbind (normalizeDatastoreKey ancestorValue) (\<lambda>k. Inr (Some k))) (\<lambda>ancestor.
     Inr (policy, ancestor)))))))))"

section \<open>Paths and ancestors\<close>

definition assertNativeDatastoreEntityId :: "jsval \<Rightarrow> jsval res" where
  "assertNativeDatastoreEntityId value =
     rbind (assertSafeEntityId value) (\<lambda>_.
     if isDatastoreInt64Id value then Inr value
     else if (case value of Num n \<Rightarrow> num_value n = 0 | _ \<Rightarrow> False) then Inl ActiveTsValidationError
     else Inr value)"

definition datastoreEntityIdFromNativeNumeric :: "jsval \<Rightarrow> jsval res" where
  "datastoreEntityIdFromNativeNumeric value = (case value of
     Str s \<Rightarrow>
       if \<not> canonical_int s \<or> s = ''-0'' then Inl ActiveTsValidationError
       else let parsed = read_int s in
         if - MAX_SAFE_INTEGER \<le> parsed \<and> parsed \<le> MAX_SAFE_INTEGER
         then assertNativeDatastoreEntityId (js_int parsed)
         else rbind (datastoreInt64Id (Str s)) (\<lambda>i. Inr (Str i))
   | v \<Rightarrow> assertNativeDatastoreEntityId v)"

definition datastoreKeyPathValues :: "DatastoreKey \<Rightarrow> DatastoreKeyEncoding \<Rightarrow> jsval list res" where
  "datastoreKeyPathValues key encoding =
     rbind (normalizeDatastoreKey (key_value key)) (\<lambda>safeKey.
     rbind (rlist (\<lambda>part.
         rbind (if encoding = NativeKeys then assertNativeDatastoreEntityId (part_id part)
                else rbind (entityIdKey (part_id part)) (\<lambda>k. Inr (Str k))) (\<lambda>i.
         Inr [Str (part_kind part), i])) (key_path safeKey)) (\<lambda>ps. Inr (concat ps)))"

definition datastoreKeyOptionalProperty :: "jsval \<Rightarrow> string \<Rightarrow> jsval res" where
  "datastoreKeyOptionalProperty key property =
     (if \<not> is_object key \<or> is_array key then Inl ActiveTsValidationError else key_own_value key property)"

text \<open>A class instance may have \<open>path\<close> as a getter; an accessor of this model is a getter with the value it returns.\<close>

definition datastoreKeyOptionalPathProperty :: "jsval \<Rightarrow> jsval res" where
  "datastoreKeyOptionalPathProperty key =
     (if \<not> is_object key \<or> is_array key then Inl ActiveTsValidationError
      else case own_prop key ''path'' of
          None \<Rightarrow> Inr Undef
        | Some p \<Rightarrow>
            if \<not> is_data p then (if \<not> is_plain_object key then Inr (prop_val p) else Inl ActiveTsValidationError)
            else if \<not> enumerable p then Inl ActiveTsValidationError
            else Inr (prop_val p))"

definition datastorePathId :: "jsval \<Rightarrow> DatastoreKeyEncoding \<Rightarrow> jsval res" where
  "datastorePathId value encoding = (case value of
     Num n \<Rightarrow>
       if encoding = NativeKeys then assertNativeDatastoreEntityId value
       else rbind (assertSafeEntityId value) (\<lambda>_. Inr value)
   | Str s \<Rightarrow>
       if encoding = NativeKeys then
         rbind (assertSafeEntityId value) (\<lambda>_. if canonical_int s then Inl ActiveTsValidationError else Inr value)
       else if canonical_int s then
         (let parsed = js_number s in
          rbind (assertSafeEntityId (Num parsed)) (\<lambda>_.
          if show_int (int_of_num parsed) \<noteq> s then Inl ActiveTsValidationError else Inr (Num parsed)))
       else if CHR '':'' \<in> set s then entityIdFromCanonicalKey s else entityIdFromKey s
   | _ \<Rightarrow> rbind (assertSafeEntityId value) (\<lambda>_. Inr value))"

lemma key_own_value_size: "key_own_value v k = Inr x \<Longrightarrow> x \<noteq> Undef \<Longrightarrow> size x < size v"
  by (auto simp: key_own_value_def dest: own_prop_size split: option.splits if_splits)

text \<open>The parts of a native key object, from the root down.\<close>

definition native_part_id :: "jsval \<Rightarrow> jsval \<Rightarrow> jsval res" where
  "native_part_id name rawId =
     (if name \<noteq> Undef \<and> rawId \<noteq> Undef then Inl ActiveTsValidationError
      else if name \<noteq> Undef then
        (case name of Str s \<Rightarrow> rbind (assertSafeEntityId name) (\<lambda>_. Inr name) | _ \<Rightarrow> Inl ActiveTsValidationError)
      else case rawId of
          Num _ \<Rightarrow> datastoreEntityIdFromNativeNumeric rawId
        | Str _ \<Rightarrow> datastoreEntityIdFromNativeNumeric rawId
        | _ \<Rightarrow> Inl ActiveTsValidationError)"

function native_parts :: "jsval \<Rightarrow> DatastoreKeyPart list res" where
  "native_parts cursor =
     (if cursor = Undef then Inr []
      else if \<not> is_object cursor \<or> is_array cursor then Inl ActiveTsValidationError
      else rbind (rbind (datastoreKeyOptionalProperty cursor ''kind'') normalizeDatastoreKind) (\<lambda>kind.
        rbind (datastoreKeyOptionalProperty cursor ''name'') (\<lambda>name.
        rbind (datastoreKeyOptionalProperty cursor ''id'') (\<lambda>rawId.
        rbind (native_part_id name rawId) (\<lambda>ident.
        rbind (datastoreKeyOptionalProperty cursor ''parent'') (\<lambda>parent.
        rbind (if parent = Undef then Inr [] else native_parts parent) (\<lambda>parents.
        Inr (parents @ [\<lparr>part_kind = kind, part_id = ident\<rparr>]))))))))"
  by pat_completeness auto
termination
  by (relation "measure size") (auto simp: datastoreKeyOptionalProperty_def dest: key_own_value_size split: if_splits)

declare native_parts.simps [simp del]

text \<open>The ancestor of a normalised entity key: its path without the last part, which has to be the row.\<close>

definition ancestor_of_key :: "DatastoreKey \<Rightarrow> string \<Rightarrow> jsval \<Rightarrow> DatastoreKeyEncoding \<Rightarrow> DatastoreKey option res" where
  "ancestor_of_key k modelKind expectedId encoding =
     rbind (if encoding = NativeKeys then reach (\<lambda>p. rbind (assertNativeDatastoreEntityId (part_id p)) (\<lambda>_. Inr ())) (key_path k) else Inr ()) (\<lambda>_.
     let final = last (key_path k) in
     if part_kind final \<noteq> modelKind then Inl ActiveTsValidationError
     else rbind (entityIdKey (part_id final)) (\<lambda>i. rbind (entityIdKey expectedId) (\<lambda>j.
       if i \<noteq> j then Inl ActiveTsValidationError
       else if length (key_path k) = 1 then Inr None
       else rbind (normalizeDatastoreKey (key_value (k\<lparr>key_path := butlast (key_path k)\<rparr>))) (\<lambda>a. Inr (Some a)))))"

text \<open>A flat path of kinds and ids; an index beyond a hole reads \<open>undefined\<close>.\<close>

fun path_pairs :: "jsval list \<Rightarrow> DatastoreKeyEncoding \<Rightarrow> DatastoreKeyPart list res" where
  "path_pairs (k # i # rest) encoding =
     rbind (normalizeDatastoreKind k) (\<lambda>kind.
     rbind (datastorePathId i encoding) (\<lambda>ident.
     rbind (path_pairs rest encoding) (\<lambda>ps. Inr (\<lparr>part_kind = kind, part_id = ident\<rparr> # ps))))"
| "path_pairs _ encoding = Inr []"

definition path_items :: "jsval \<Rightarrow> jsval list" where
  "path_items v = map (\<lambda>s. case s of None \<Rightarrow> Undef | Some p \<Rightarrow> prop_val p) (slots v)"

definition ancestor_of_path :: "jsval \<Rightarrow> jsval \<Rightarrow> string \<Rightarrow> jsval \<Rightarrow> DatastoreKeyEncoding \<Rightarrow> DatastoreKey option res" where
  "ancestor_of_path key rawPath modelKind expectedId encoding =
     (let items = path_items rawPath; n = length items in
      if \<not> is_array rawPath \<or> n < 2 \<or> n mod 2 \<noteq> 0 then Inl ActiveTsValidationError
      else rbind (normalizeDatastoreKind (items ! (n - 2))) (\<lambda>finalKind.
        if finalKind \<noteq> modelKind then Inl ActiveTsValidationError
        else rbind (datastorePathId (items ! (n - 1)) encoding) (\<lambda>finalId.
          rbind (entityIdKey finalId) (\<lambda>i. rbind (entityIdKey expectedId) (\<lambda>j.
          if i \<noteq> j then Inl ActiveTsValidationError
          else rbind (rbind (datastoreKeyOptionalProperty key ''namespace'') normalizeDatastoreNamespace) (\<lambda>namespace.
            if n = 2 then Inr None
            else rbind (path_pairs (take (n - 2) items) encoding) (\<lambda>path.
              rbind (normalizeDatastoreKey (key_value \<lparr>key_path = path, key_namespace = namespace\<rparr>)) (\<lambda>a. Inr (Some a)))))))))"

definition datastoreAncestorFromEntityKey :: "jsval \<Rightarrow> string \<Rightarrow> jsval \<Rightarrow> DatastoreKeyEncoding \<Rightarrow> DatastoreKey option res" where
  "datastoreAncestorFromEntityKey key modelKind expectedId encoding =
     rbind (if encoding = NativeKeys then datastoreKeyOptionalProperty key ''kind'' else Inr Undef) (\<lambda>kind.
     if kind \<noteq> Undef then
       rbind (native_parts key) (\<lambda>path.
       rbind (datastoreKeyOptionalProperty key ''namespace'') (\<lambda>namespace.
       rbind (normalizeDatastoreKey (js_object [(''path'', js_array (map part_value path)), (''namespace'', namespace)])) (\<lambda>k.
       ancestor_of_key k modelKind expectedId encoding)))
     else rbind (datastoreKeyOptionalPathProperty key) (\<lambda>rawPath.
       if rawPath = Undef then Inr None
       else if is_array rawPath \<and> path_items rawPath \<noteq> [] \<and> is_object (hd (path_items rawPath))
         then rbind (normalizeDatastoreKey key) (\<lambda>k. ancestor_of_key k modelKind expectedId encoding)
       else ancestor_of_path key rawPath modelKind expectedId encoding))"

definition datastoreEntityKeyNamespace :: "jsval \<Rightarrow> string option res" where
  "datastoreEntityKeyNamespace key = rbind (datastoreKeyOptionalProperty key ''namespace'') normalizeDatastoreNamespace"

section \<open>Normal forms\<close>

definition valid_part :: "DatastoreKeyPart \<Rightarrow> bool" where
  "valid_part p = (normalizeDatastoreKind (Str (part_kind p)) = Inr (part_kind p) \<and> assertSafeEntityId (part_id p) = Inr ())"

definition valid_key :: "DatastoreKey \<Rightarrow> bool" where
  "valid_key k = (key_path k \<noteq> [] \<and> list_all valid_part (key_path k)
     \<and> normalizeDatastoreNamespace (namespace_value (key_namespace k)) = Inr (key_namespace k))"

lemma kind_same: "normalizeDatastoreKind (Str s) = Inr t \<Longrightarrow> t = s"
  by (auto simp: normalizeDatastoreKind_def assertSafePhysicalIdentifierLength_def rbind_Inr_iff split: if_splits)

lemma short_kind:
  "assertSafeSchemaIdentifier (Str s) = Inr s \<Longrightarrow> utf8_length (units s) \<le> 63 \<Longrightarrow> normalizeDatastoreKind (Str s) = Inr s"
  by (simp add: normalizeDatastoreKind_def assertSafePhysicalIdentifierLength_def MAX_SCHEMA_IDENTIFIER_BYTES_def
      del: assertSafeSchemaIdentifier.simps)

lemma namespace_same: "normalizeDatastoreNamespace (namespace_value n) = Inr m \<Longrightarrow> m = n"
  by (auto simp: normalizeDatastoreNamespace_def namespace_value_def split: option.splits if_splits)

lemma part_reads:
  "key_record (part_value p) = Inr (part_value p)" "key_known_keys (part_value p) DATASTORE_KEY_PART_KEYS = Inr ()"
  "key_own_value (part_value p) ''kind'' = Inr (Str (part_kind p))" "key_own_value (part_value p) ''id'' = Inr (part_id p)"
  by (simp_all add: key_record_def key_known_keys_def key_own_value_def part_value_def js_object_def dataP_def DATASTORE_KEY_PART_KEYS_def)

lemma normalize_part: "normalizeDatastoreKeyPart (part_value p) = Inr q \<longleftrightarrow> q = p \<and> valid_part p"
  by (auto simp: normalizeDatastoreKeyPart_def part_reads rbind_Inr_iff valid_part_def normalizeDatastoreEntityId_def dest: kind_same)

lemma key_reads:
  "key_record (key_value k) = Inr (key_value k)" "key_known_keys (key_value k) DATASTORE_KEY_KEYS = Inr ()"
  "key_own_value (key_value k) ''path'' = Inr (js_array (map part_value (key_path k)))"
  "key_own_value (key_value k) ''namespace'' = Inr (namespace_value (key_namespace k))"
  by (simp_all add: key_record_def key_known_keys_def key_own_value_def key_value_def js_object_def dataP_def DATASTORE_KEY_KEYS_def)

lemma array_names: "reach (\<lambda>property. if property = ''length'' then Inr ()
            else if \<not> isArrayIndexProperty property (length (slots (js_array vs))) then Inl ActiveTsValidationError
            else Inr ()) (own_names (js_array vs)) = Inr ()"
  by (auto simp: reach_Inr_iff js_array_def index_names_def isArrayIndexProperty_def)

lemma normalize_parts:
  "rlist (\<lambda>slot. case slot of
              None \<Rightarrow> Inl ActiveTsValidationError
            | Some p \<Rightarrow>
                if \<not> is_data p then Inl ActiveTsValidationError
                else if \<not> enumerable p then Inl ActiveTsValidationError
                else normalizeDatastoreKeyPart (prop_val p)) (map (\<lambda>v. Some (dataP v)) (map part_value ps)) = Inr qs
   \<longleftrightarrow> qs = ps \<and> list_all valid_part ps"
  by (induction ps arbitrary: qs) (auto simp: rbind_Inr_iff normalize_part dataP_def simp del: rlist_Inr_iff)

lemma normalize_key: "normalizeDatastoreKey (key_value k) = Inr l \<longleftrightarrow> l = k \<and> valid_key k"
proof -
  let ?path = "js_array (map part_value (key_path k))"
  have a: "is_array ?path" "own_symbols ?path = []" "slots ?path = map (\<lambda>v. Some (dataP v)) (map part_value (key_path k))"
    by (simp_all add: js_array_def)
  show ?thesis
  proof
    assume l: "normalizeDatastoreKey (key_value k) = Inr l"
    then have "key_path k \<noteq> []" by (auto simp: normalizeDatastoreKey_def key_reads a split: if_splits)
    with l obtain qs n where "rlist (\<lambda>slot. case slot of
              None \<Rightarrow> Inl ActiveTsValidationError
            | Some p \<Rightarrow>
                if \<not> is_data p then Inl ActiveTsValidationError
                else if \<not> enumerable p then Inl ActiveTsValidationError
                else normalizeDatastoreKeyPart (prop_val p)) (map (\<lambda>v. Some (dataP v)) (map part_value (key_path k))) = Inr qs"
      "normalizeDatastoreNamespace (namespace_value (key_namespace k)) = Inr n" "l = \<lparr>key_path = qs, key_namespace = n\<rparr>"
      by (auto simp: normalizeDatastoreKey_def key_reads a rbind_Inr_iff simp del: rlist_Inr_iff)
    with \<open>key_path k \<noteq> []\<close> show "l = k \<and> valid_key k"
      unfolding normalize_parts by (auto simp: valid_key_def dest: namespace_same)
  next
    assume r: "l = k \<and> valid_key k"
    then have "rlist (\<lambda>slot. case slot of
              None \<Rightarrow> Inl ActiveTsValidationError
            | Some p \<Rightarrow>
                if \<not> is_data p then Inl ActiveTsValidationError
                else if \<not> enumerable p then Inl ActiveTsValidationError
                else normalizeDatastoreKeyPart (prop_val p)) (slots ?path) = Inr (key_path k)"
      unfolding a(3) normalize_parts by (simp add: valid_key_def)
    with r a array_names [of "map part_value (key_path k)"] show "normalizeDatastoreKey (key_value k) = Inr l"
      by (simp add: normalizeDatastoreKey_def key_reads valid_key_def)
  qed
qed

section \<open>Identity strings\<close>

lemma digit_prefix:
  assumes "list_all is_digit a" and "list_all is_digit b" and "a @ CHR '':'' # x = b @ CHR '':'' # y"
  shows "a = b \<and> x = y"
proof -
  have c: "\<not> is_digit CHR '':''" by code_simp
  have "takeWhile is_digit (a @ CHR '':'' # x) = a" "takeWhile is_digit (b @ CHR '':'' # y) = b"
    using assms(1,2) c by (simp_all add: list_all_iff takeWhile_append2)
  with assms(3) show ?thesis by simp
qed

text \<open>A string written with its length can be told from what follows it.\<close>

lemma sized_inject:
  assumes "show_nat (length s) @ '':'' @ s @ '':'' @ x = show_nat (length t) @ '':'' @ t @ '':'' @ y"
  shows "s = t \<and> x = y"
proof -
  from digit_prefix [OF show_nat_digits show_nat_digits, of "length s" "s @ '':'' @ x" "length t" "t @ '':'' @ y"] assms
  have "show_nat (length s) = show_nat (length t)" "s @ '':'' @ x = t @ '':'' @ y" by simp_all
  then have "length s = length t" by (blast intro: show_nat_inj)
  with \<open>s @ '':'' @ x = t @ '':'' @ y\<close> show ?thesis by simp
qed

lemma part_text_iff: "part_text p = Inr t \<longleftrightarrow> (\<exists>i. entityIdKey (part_id p) = Inr i \<and>
    t = ''kind:'' @ show_nat (length (part_kind p)) @ '':'' @ part_kind p @ '':id:'' @ show_nat (length i) @ '':'' @ i @ '':'')"
  by (auto simp: part_text_def rbind_Inr_iff)

lemma parts_inject:
  "rlist part_text ps = Inr as \<Longrightarrow> rlist part_text qs = Inr bs \<Longrightarrow> concat as = concat bs \<Longrightarrow> ps = qs"
proof (induction ps arbitrary: as qs bs)
  case Nil
  then show ?case by (cases qs) (auto simp: part_text_iff rbind_Inr_iff simp del: rlist_Inr_iff)
next
  case (Cons p ps)
  then obtain q qs' where qs: "qs = q # qs'"
    by (cases qs) (auto simp: part_text_iff rbind_Inr_iff simp del: rlist_Inr_iff)
  from Cons.prems(1) obtain i as' where i: "entityIdKey (part_id p) = Inr i" "rlist part_text ps = Inr as'"
    and as: "as = (''kind:'' @ show_nat (length (part_kind p)) @ '':'' @ part_kind p @ '':id:'' @ show_nat (length i) @ '':'' @ i @ '':'') # as'"
    by (auto simp: part_text_iff rbind_Inr_iff simp del: rlist_Inr_iff)
  from Cons.prems(2) qs obtain j bs' where j: "entityIdKey (part_id q) = Inr j" "rlist part_text qs' = Inr bs'"
    and bs: "bs = (''kind:'' @ show_nat (length (part_kind q)) @ '':'' @ part_kind q @ '':id:'' @ show_nat (length j) @ '':'' @ j @ '':'') # bs'"
    by (auto simp: part_text_iff rbind_Inr_iff simp del: rlist_Inr_iff)
  let ?x = "show_nat (length i) @ '':'' @ i @ '':'' @ concat as'" and ?y = "show_nat (length j) @ '':'' @ j @ '':'' @ concat bs'"
  have "show_nat (length (part_kind p)) @ '':'' @ part_kind p @ '':'' @ ''id:'' @ ?x
      = show_nat (length (part_kind q)) @ '':'' @ part_kind q @ '':'' @ ''id:'' @ ?y"
    using Cons.prems(3) unfolding as bs by simp
  from sized_inject [OF this] have k: "part_kind p = part_kind q" "?x = ?y" by simp_all
  from sized_inject [OF k(2)] have ij: "i = j" "concat as' = concat bs'" by simp_all
  with i(1) j(1) have "part_id p = part_id q" using entity.encode_inject by blast
  with k(1) have "p = q" by simp
  with Cons.IH [OF i(2) j(2) ij(2)] show ?case unfolding qs by simp
qed

lemma parts_text_head: "rlist part_text ps = Inr as \<Longrightarrow> ps \<noteq> [] \<Longrightarrow> \<exists>r. concat as = CHR ''k'' # r"
  by (cases ps) (auto simp: part_text_iff rbind_Inr_iff simp del: rlist_Inr_iff)

text \<open>C33. The identity string of a Datastore key determines the key: keys with the same identity have the same namespace
  and the same path of kinds and ids, whatever separators, digits or colons their names contain.\<close>

theorem key_identity_injective:
  assumes "datastoreKeyIdentity k = Inr s" and "datastoreKeyIdentity l = Inr s"
  shows "k = l"
proof -
  let ?ns = "\<lambda>n. case n of None \<Rightarrow> ''namespace:'' | Some n \<Rightarrow> ''namespace:'' @ show_nat (length n) @ '':'' @ n @ '':''"
  have id: "\<exists>as. valid_key k \<and> rlist part_text (key_path k) = Inr as \<and> s = ?ns (key_namespace k) @ concat as"
    if "datastoreKeyIdentity k = Inr s" for k
    using that by (auto simp: datastoreKeyIdentity_def normalize_key rbind_Inr_iff simp del: rlist_Inr_iff)
  from id [OF assms(1)] obtain as where k: "valid_key k" "rlist part_text (key_path k) = Inr as" "s = ?ns (key_namespace k) @ concat as" by blast
  from id [OF assms(2)] obtain bs where l: "valid_key l" "rlist part_text (key_path l) = Inr bs" "s = ?ns (key_namespace l) @ concat bs" by blast
  have "\<exists>r. concat as = CHR ''k'' # r" "\<exists>r. concat bs = CHR ''k'' # r"
    using parts_text_head k l by (auto simp: valid_key_def)
  then obtain r r' where r: "concat as = CHR ''k'' # r" "concat bs = CHR ''k'' # r'" by blast
  have no: "show_nat n @ t \<noteq> CHR ''k'' # r" for n t r
  proof
    assume e: "show_nat n @ t = CHR ''k'' # r"
    then have "hd (show_nat n) = CHR ''k''" by (metis hd_append2 list.sel(1) show_nat_nonempty)
    moreover have "is_digit (hd (show_nat n))" using show_nat_digits [of n] by (cases "show_nat n") auto
    moreover have "\<not> is_digit CHR ''k''" by code_simp
    ultimately show False by simp
  qed
  have no': "CHR ''k'' # r \<noteq> show_nat n @ t" for n t r using no [of n t r] by metis
  have same: "key_namespace k = key_namespace l \<and> concat as = concat bs"
  proof (cases "key_namespace k"; cases "key_namespace l")
    fix n m assume "key_namespace k = Some n" "key_namespace l = Some m"
    with k(3) l(3) have "show_nat (length n) @ '':'' @ n @ '':'' @ concat as = show_nat (length m) @ '':'' @ m @ '':'' @ concat bs" by simp
    from sized_inject [OF this] \<open>key_namespace k = Some n\<close> \<open>key_namespace l = Some m\<close> show ?thesis by simp
  qed (use k(3) l(3) r no [of "length (the (key_namespace l))"] no [of "length (the (key_namespace k))"] no' in auto)
  with parts_inject [OF k(2) l(2)] show ?thesis by simp
qed

theorem key_identity_injective_witness:
  "datastoreKeyIdentity \<lparr>key_path = [\<lparr>part_kind = ''a'', part_id = js_int 7\<rparr>], key_namespace = Some ''n''\<rparr>
     = Inr ''namespace:1:n:kind:1:a:id:8:number:7:''
   \<and> \<lparr>key_path = [\<lparr>part_kind = ''a'', part_id = js_int 7\<rparr>], key_namespace = Some ''n''\<rparr>
     = \<lparr>key_path = [\<lparr>part_kind = ''a'', part_id = js_int 7\<rparr>], key_namespace = Some ''n''\<rparr>"
proof -
  let ?k = "\<lparr>key_path = [\<lparr>part_kind = ''a'', part_id = js_int 7\<rparr>], key_namespace = Some ''n''\<rparr>"
  have "assertSafeSchemaIdentifier (Str ''a'') = Inr ''a''" by code_simp
  moreover have "utf8_length (units ''a'') = 1" by (simp add: units_def utf8_length_def utf8_size_def)
  ultimately have "normalizeDatastoreKind (Str ''a'') = Inr ''a''" by (intro short_kind) simp_all
  moreover have "assertSafeEntityId (js_int 7) = Inr ()" "normalizeDatastoreNamespace (namespace_value (Some ''n'')) = Inr (Some ''n'')" by code_simp+
  ultimately have "normalizeDatastoreKey (key_value ?k) = Inr ?k" by (simp add: normalize_key valid_key_def valid_part_def)
  moreover have "part_text \<lparr>part_kind = ''a'', part_id = js_int 7\<rparr> = Inr ''kind:1:a:id:8:number:7:''" "show_nat 1 = ''1''" by code_simp+
  ultimately have k: "datastoreKeyIdentity ?k = Inr ''namespace:1:n:kind:1:a:id:8:number:7:''"
    by (simp add: datastoreKeyIdentity_def)
  from k key_identity_injective [OF k k] show ?thesis by blast
qed

section \<open>Ancestors of flat paths\<close>

lemma key_not_int:
  assumes "entityIdKey i = Inr k"
  shows "\<not> canonical_int k" "CHR '':'' \<in> set k"
proof -
  from assms have "(\<exists>t. k = ''string:'' @ t) \<or> (\<exists>t. k = ''number:'' @ t) \<or> (\<exists>t. k = ''datastore-int64:'' @ t)"
    by (auto simp: entityIdKey_def rbind_Inr_iff split: jsval.splits if_splits)
  moreover have "\<not> is_digit CHR ''s''" "\<not> is_digit CHR ''n''" "\<not> is_digit CHR ''d''" by code_simp+
  ultimately show "\<not> canonical_int k" "CHR '':'' \<in> set k" by (auto simp: canonical_int_def canonical_nat_def)
qed

lemma path_id_key: "entityIdKey i = Inr k \<Longrightarrow> datastorePathId (Str k) ActiveTsKeys = Inr i"
  using key_not_int [of i k] canonical_key_roundtrip [of i k] by (simp add: datastorePathId_def)

definition pair_values :: "DatastoreKeyPart \<Rightarrow> jsval list" where
  "pair_values p = [Str (part_kind p), Str (projr (entityIdKey (part_id p)))]"

definition keyed :: "DatastoreKeyPart \<Rightarrow> bool" where
  "keyed p = (valid_part p \<and> \<not> isl (entityIdKey (part_id p)))"

lemma path_values:
  assumes "datastoreKeyPathValues k ActiveTsKeys = Inr vs"
  shows "valid_key k \<and> list_all keyed (key_path k) \<and> vs = concat (map pair_values (key_path k))"
proof -
  from assms obtain ps where v: "valid_key k"
    and ps: "rlist (\<lambda>part. rbind (rbind (entityIdKey (part_id part)) (\<lambda>k. Inr (Str k))) (\<lambda>i. Inr [Str (part_kind part), i])) (key_path k) = Inr ps"
    and vs: "vs = concat ps"
    by (auto simp: datastoreKeyPathValues_def normalize_key rbind_Inr_iff simp del: rlist_Inr_iff)
  have "list_all (\<lambda>p. \<not> isl (entityIdKey (part_id p))) qs \<and> ps = map pair_values qs"
    if "rlist (\<lambda>part. rbind (rbind (entityIdKey (part_id part)) (\<lambda>k. Inr (Str k))) (\<lambda>i. Inr [Str (part_kind part), i])) qs = Inr ps" for qs ps
    using that by (induction qs arbitrary: ps) (auto simp: rbind_Inr_iff pair_values_def simp del: rlist_Inr_iff)
  from this [OF ps] v vs show ?thesis by (auto simp: keyed_def valid_key_def list_all_iff)
qed

lemma keyed_id: "keyed p \<Longrightarrow> entityIdKey (part_id p) = Inr (projr (entityIdKey (part_id p)))"
  by (cases "entityIdKey (part_id p)") (simp_all add: keyed_def)

lemma pairs_back: "list_all keyed ps \<Longrightarrow> path_pairs (concat (map pair_values ps)) ActiveTsKeys = Inr ps"
proof (induction ps)
  case (Cons p ps)
  then have "keyed p" by simp
  with path_id_key [OF keyed_id] have "datastorePathId (Str (projr (entityIdKey (part_id p)))) ActiveTsKeys = Inr (part_id p)" by blast
  with Cons \<open>keyed p\<close> show ?case by (simp add: pair_values_def keyed_def valid_part_def)
qed simp

lemma pair_values_length: "length (concat (map pair_values ps)) = 2 * length ps"
  by (induction ps) (simp_all add: pair_values_def)

lemma path_items_array [simp]: "path_items (js_array vs) = vs"
  by (induction vs) (simp_all add: path_items_def js_array_def dataP_def)

text \<open>C34. The flat path that a key is stored under keeps its ancestor: reading a row's entity key, written as the kinds and id
  keys of a full path with its namespace, gives exactly the ancestor of the path, or none for a root entity.\<close>

theorem entity_key_ancestor_roundtrip:
  assumes "datastoreKeyPathValues \<lparr>key_path = path @ [\<lparr>part_kind = kind, part_id = ident\<rparr>], key_namespace = namespace\<rparr> ActiveTsKeys = Inr vs"
  shows "datastoreAncestorFromEntityKey (js_object [(''path'', js_array vs), (''namespace'', namespace_value namespace)]) kind ident ActiveTsKeys
    = Inr (if path = [] then None else Some \<lparr>key_path = path, key_namespace = namespace\<rparr>)"
proof -
  let ?last = "\<lparr>part_kind = kind, part_id = ident\<rparr>" and ?e = "js_object [(''path'', js_array vs), (''namespace'', namespace_value namespace)]"
  from path_values [OF assms] have v: "valid_key \<lparr>key_path = path @ [?last], key_namespace = namespace\<rparr>"
    and ps: "list_all keyed path" "keyed ?last" and vs: "vs = concat (map pair_values path) @ pair_values ?last" by simp_all
  have n: "length vs = 2 * length path + 2" using pair_values_length [of path] by (simp add: vs pair_values_def)
  obtain idkey where k: "entityIdKey ident = Inr idkey" using keyed_id [OF ps(2)] by auto
  have at2: "vs ! (2 * length path) = Str kind" "vs ! (2 * length path + 1) = Str idkey"
    using pair_values_length [of path] k by (simp_all add: vs pair_values_def nth_append)
  have pid: "datastorePathId (Str idkey) ActiveTsKeys = Inr ident" by (rule path_id_key [OF k])
  have kind: "normalizeDatastoreKind (Str kind) = Inr kind" using ps(2) by (simp add: keyed_def valid_part_def)
  have ns: "rbind (datastoreKeyOptionalProperty ?e ''namespace'') normalizeDatastoreNamespace = Inr namespace"
    using v by (simp add: datastoreKeyOptionalProperty_def key_own_value_def js_object_def dataP_def valid_key_def)
  have raw: "datastoreKeyOptionalPathProperty ?e = Inr (js_array vs)"
    by (simp add: datastoreKeyOptionalPathProperty_def js_object_def dataP_def)
  have arr: "is_array (js_array vs)" "js_array vs \<noteq> Undef" by (simp_all add: js_array_def)
  have first: "\<not> is_object (hd vs)" by (cases path) (simp_all add: vs pair_values_def)
  have tk: "take (2 * length path) vs = concat (map pair_values path)" using pair_values_length [of path] by (simp add: vs)
  have "ancestor_of_path ?e (js_array vs) kind ident ActiveTsKeys
      = Inr (if path = [] then None else Some \<lparr>key_path = path, key_namespace = namespace\<rparr>)"
  proof (cases "path = []")
    case True
    with n at2 k pid kind ns arr show ?thesis by (simp add: ancestor_of_path_def Let_def)
  next
    case False
    have "valid_key \<lparr>key_path = path, key_namespace = namespace\<rparr>" using v False by (simp add: valid_key_def)
    then have "normalizeDatastoreKey (key_value \<lparr>key_path = path, key_namespace = namespace\<rparr>) = Inr \<lparr>key_path = path, key_namespace = namespace\<rparr>"
      by (simp add: normalize_key)
    with False n at2 k pid kind ns arr tk pairs_back [OF ps(1)] show ?thesis
      by (simp add: ancestor_of_path_def Let_def)
  qed
  with raw arr first n show ?thesis by (simp add: datastoreAncestorFromEntityKey_def)
qed

theorem entity_key_ancestor_roundtrip_witness:
  "datastoreAncestorFromEntityKey (js_object [(''path'', js_array [Str ''org'', Str ''number:7'', Str ''user'', Str ''number:9'']), (''namespace'', Undef)])
     ''user'' (js_int 9) ActiveTsKeys
   = Inr (if [\<lparr>part_kind = ''org'', part_id = js_int 7\<rparr>] = [] then None
      else Some \<lparr>key_path = [\<lparr>part_kind = ''org'', part_id = js_int 7\<rparr>], key_namespace = None\<rparr>)"
proof -
  let ?k = "\<lparr>key_path = [\<lparr>part_kind = ''org'', part_id = js_int 7\<rparr>] @ [\<lparr>part_kind = ''user'', part_id = js_int 9\<rparr>], key_namespace = None\<rparr>"
  have "assertSafeSchemaIdentifier (Str ''org'') = Inr ''org''" "assertSafeSchemaIdentifier (Str ''user'') = Inr ''user''" by code_simp+
  moreover have "utf8_length (units ''org'') = 3" "utf8_length (units ''user'') = 4"
    by (simp_all add: units_def utf8_length_def utf8_size_def)
  ultimately have "normalizeDatastoreKind (Str ''org'') = Inr ''org''" "normalizeDatastoreKind (Str ''user'') = Inr ''user''"
    by (intro short_kind; simp)+
  moreover have "assertSafeEntityId (js_int 7) = Inr ()" "assertSafeEntityId (js_int 9) = Inr ()"
    "normalizeDatastoreNamespace (namespace_value None) = Inr None" by code_simp+
  ultimately have "normalizeDatastoreKey (key_value ?k) = Inr ?k" by (simp add: normalize_key valid_key_def valid_part_def)
  moreover have "entityIdKey (js_int 7) = Inr ''number:7''" "entityIdKey (js_int 9) = Inr ''number:9''" by code_simp+
  ultimately have v: "datastoreKeyPathValues ?k ActiveTsKeys = Inr [Str ''org'', Str ''number:7'', Str ''user'', Str ''number:9'']"
    by (simp add: datastoreKeyPathValues_def)
  have n: "namespace_value None = Undef" by (simp add: namespace_value_def)
  from entity_key_ancestor_roundtrip [OF v] show ?thesis unfolding n .
qed

end
