(* ===== verification/SearchScope.thy ===== *)
theory SearchScope
  imports DatastoreKey
begin

text \<open>
  \<open>src/core/datastore-search-scope.ts\<close> and the document identities of \<open>src/core/search-utils.ts\<close>. A scope is the JSON
  text of five strings or nulls. \<open>JSON.stringify\<close> is written out for such arrays; \<open>JSON.parse\<close> is written
  out for the texts that \<open>JSON.stringify\<close> makes, since the code rejects a scope that is not its own canonical text. The
  digest of an identity is a parameter.
\<close>

section \<open>JSON texts of strings and nulls\<close>

definition hex_char :: "nat \<Rightarrow> char" where
  "hex_char n = ''0123456789abcdef'' ! n"

definition json_escapes :: "(char \<times> char) list" where
  "json_escapes = [(char_of (34 :: nat), char_of (34 :: nat)), (char_of (92 :: nat), char_of (92 :: nat)), (char_of (8 :: nat), CHR ''b''),
     (char_of (9 :: nat), CHR ''t''), (char_of (10 :: nat), CHR ''n''), (char_of (12 :: nat), CHR ''f''), (char_of (13 :: nat), CHR ''r'')]"

definition quote_char :: char where "quote_char = char_of (34 :: nat)"
definition backslash :: char where "backslash = char_of (92 :: nat)"

definition json_char :: "char \<Rightarrow> string" where
  "json_char c = (case map_of json_escapes c of
     Some e \<Rightarrow> [backslash, e]
   | None \<Rightarrow> if (of_char c :: nat) < 32 then backslash # ''u00'' @ [hex_char (of_char c div 16), hex_char (of_char c mod 16)] else [c])"

definition json_string :: "string \<Rightarrow> string" where
  "json_string s = quote_char # concat (map json_char s) @ [quote_char]"

definition json_item :: "string option \<Rightarrow> string" where
  "json_item v = (case v of None \<Rightarrow> ''null'' | Some s \<Rightarrow> json_string s)"

definition json_array :: "string option list \<Rightarrow> string" where
  "json_array vs = ''['' @ join_with CHR '','' (map json_item vs) @ '']''"

text \<open>Reading one character of a canonical string, and a string up to its closing quote.\<close>

definition json_low :: "string \<Rightarrow> char option" where
  "json_low s = List.find (\<lambda>c. json_char c = backslash # s) (map char_of [0 :: nat, 1, 2, 3, 4, 5, 6, 7, 11, 14, 15, 16, 17, 18, 19, 20, 21, 22,
     23, 24, 25, 26, 27, 28, 29, 30, 31])"

fun read_json_char :: "string \<Rightarrow> (char \<times> string) option" where
  "read_json_char [] = None"
| "read_json_char (c # s) =
     (if c = quote_char \<or> (of_char c :: nat) < 32 then None
      else if c \<noteq> backslash then Some (c, s)
      else case s of
          [] \<Rightarrow> None
        | e # t \<Rightarrow>
            if e = CHR ''u'' then map_option (\<lambda>d. (d, drop 4 t)) (json_low (e # take 4 t))
            else map_option (\<lambda>d. (d, t)) (map_of (map (\<lambda>(a, b). (b, a)) json_escapes) e))"

lemma read_json_char_shorter: "read_json_char s = Some (c, t) \<Longrightarrow> length t < length s"
  by (cases s) (auto split: if_splits list.splits)

function read_json_string :: "string \<Rightarrow> (string \<times> string) option" where
  "read_json_string s =
     (if s \<noteq> [] \<and> hd s = quote_char then Some ([], tl s)
      else case read_json_char s of
          None \<Rightarrow> None
        | Some (c, t) \<Rightarrow> map_option (\<lambda>(x, rest). (c # x, rest)) (read_json_string t))"
  by pat_completeness auto
termination by (relation "measure length") (auto dest: read_json_char_shorter)

declare read_json_string.simps [simp del]

definition read_json_item :: "string \<Rightarrow> (string option \<times> string) option" where
  "read_json_item s =
     (if starts_with s ''null'' then Some (None, drop 4 s)
      else if s \<noteq> [] \<and> hd s = quote_char then map_option (\<lambda>(x, rest). (Some x, rest)) (read_json_string (tl s))
      else None)"

text \<open>The items of an array after its bracket; \<open>n\<close> bounds their number.\<close>

fun read_json_items :: "nat \<Rightarrow> string \<Rightarrow> string option list option" where
  "read_json_items 0 s = None"
| "read_json_items (Suc n) s = (case read_json_item s of
     None \<Rightarrow> None
   | Some (v, rest) \<Rightarrow>
       if rest = '']'' then Some [v]
       else if rest \<noteq> [] \<and> hd rest = CHR '','' then map_option (\<lambda>vs. v # vs) (read_json_items n (tl rest))
       else None)"

definition read_json_array :: "string \<Rightarrow> string option list option" where
  "read_json_array s = (if s \<noteq> [] \<and> hd s = CHR ''['' then read_json_items (length s) (tl s) else None)"

section \<open>Scopes\<close>

definition validName :: "string \<Rightarrow> bool" where
  "validName s = (s \<noteq> [] \<and> nul \<notin> set s)"

fun valid_name :: "jsval \<Rightarrow> bool" where
  "valid_name (Str s) = validName s"
| "valid_name _ = False"

record scope_store =
  ss_kind :: string
  ss_cacheScope :: jsval
  ss_projectId :: jsval
  ss_databaseId :: jsval
  ss_namespace :: jsval
  ss_keyEncoding :: jsval
  ss_scopeStability :: jsval

definition normalizeDatastoreCacheScopeStability :: "jsval \<Rightarrow> jsval res" where
  "normalizeDatastoreCacheScopeStability value =
     (if value \<noteq> Undef \<and> value \<noteq> Str ''stable'' \<and> value \<noteq> Str ''client'' then Inl ActiveTsConfigurationError else Inr value)"

definition name_item :: "jsval \<Rightarrow> string option" where
  "name_item v = (case v of Str s \<Rightarrow> Some s | _ \<Rightarrow> None)"

definition datastoreSearchScopeForStore :: "scope_store \<Rightarrow> string option res" where
  "datastoreSearchScopeForStore st =
     (if ss_kind st \<noteq> ''datastore'' \<and> ss_projectId st = Undef \<and> ss_databaseId st = Undef \<and> ss_keyEncoding st = Undef then Inr None
      else if \<not> valid_name (ss_projectId st) \<or> (ss_databaseId st \<noteq> Null \<and> \<not> valid_name (ss_databaseId st))
        \<or> (ss_namespace st \<noteq> Undef \<and> \<not> valid_name (ss_namespace st)) \<or> (ss_cacheScope st \<noteq> Undef \<and> \<not> valid_name (ss_cacheScope st))
        \<or> (ss_keyEncoding st \<noteq> Str ''active-ts'' \<and> ss_keyEncoding st \<noteq> Str ''native'') then Inl ActiveTsConfigurationError
      else rbind (normalizeDatastoreCacheScopeStability (ss_scopeStability st)) (\<lambda>stability.
        if stability = Str ''client'' then Inl ActiveTsConfigurationError
        else Inr (Some (json_array [name_item (ss_projectId st), name_item (ss_databaseId st), name_item (ss_namespace st),
               name_item (ss_keyEncoding st), name_item (ss_cacheScope st)]))))"

definition null_or_name :: "string option \<Rightarrow> bool" where
  "null_or_name v = (case v of None \<Rightarrow> True | Some s \<Rightarrow> validName s)"

definition scope_parts :: "string option list \<Rightarrow> bool" where
  "scope_parts parts = (length parts = 5 \<and> parts ! 0 \<noteq> None \<and> validName (the (parts ! 0)) \<and> null_or_name (parts ! 1) \<and> null_or_name (parts ! 2)
     \<and> (parts ! 3 = Some ''active-ts'' \<or> parts ! 3 = Some ''native'') \<and> null_or_name (parts ! 4))"

definition normalizeDatastoreSearchScope :: "jsval \<Rightarrow> string option res" where
  "normalizeDatastoreSearchScope value = (case value of
     Undef \<Rightarrow> Inr None
   | Str s \<Rightarrow> (case read_json_array s of
         None \<Rightarrow> Inl ActiveTsConfigurationError
       | Some parts \<Rightarrow>
           if \<not> scope_parts parts \<or> json_array parts \<noteq> s then Inl ActiveTsConfigurationError else Inr (Some s))
   | _ \<Rightarrow> Inl ActiveTsConfigurationError)"

definition datastoreSearchScopeNamespace :: "string \<Rightarrow> string option res" where
  "datastoreSearchScopeNamespace scope =
     rbind (normalizeDatastoreSearchScope (Str scope)) (\<lambda>s. case s of
       None \<Rightarrow> Inl JsTypeError
     | Some t \<Rightarrow> (case read_json_array t of None \<Rightarrow> Inl JsTypeError | Some parts \<Rightarrow> Inr (parts ! 2)))"

section \<open>Identities of search documents\<close>

definition datastoreSearchDocumentIdentity ::
    "(string \<Rightarrow> string) \<Rightarrow> string \<Rightarrow> string option \<Rightarrow> jsval \<Rightarrow> DatastoreKey option \<Rightarrow> string option \<Rightarrow> string res" where
  "datastoreSearchDocumentIdentity digest modelName modelScope ident ancestor namespace =
     rbind (normalizeDatastoreSearchScope (namespace_value modelScope)) (\<lambda>scope.
     rbind (case scope of None \<Rightarrow> Inr namespace | Some s \<Rightarrow> datastoreSearchScopeNamespace s) (\<lambda>ns.
     rbind (case ancestor of None \<Rightarrow> Inr None
            | Some a \<Rightarrow> rbind (datastoreKeyWithNamespace a (namespace_value ns)) (\<lambda>k. Inr (Some k))) (\<lambda>safeAncestor.
     let path = (case safeAncestor of None \<Rightarrow> [] | Some k \<Rightarrow> key_path k) @ [\<lparr>part_kind = modelName, part_id = ident\<rparr>];
         keyNamespace = (case safeAncestor of None \<Rightarrow> ns | Some k \<Rightarrow> (case key_namespace k of None \<Rightarrow> ns | Some n \<Rightarrow> Some n)) in
     rbind (datastoreKeyIdentity \<lparr>key_path = path, key_namespace = keyNamespace\<rparr>) (\<lambda>physicalIdentity.
     Inr (''datastore:'' @ digest (case scope of None \<Rightarrow> physicalIdentity | Some s \<Rightarrow> json_array [Some s, Some physicalIdentity]))))))"


section \<open>Reading back what was written\<close>

lemma low_back_1: "list_all (\<lambda>n. json_low (tl (json_char (char_of (n :: nat)))) = Some (char_of n)) [0, 1, 2, 3, 4]"
  by code_simp

lemma low_back_2: "list_all (\<lambda>n. json_low (tl (json_char (char_of (n :: nat)))) = Some (char_of n)) [5, 6, 7, 11]"
  by code_simp

lemma low_back_3: "list_all (\<lambda>n. json_low (tl (json_char (char_of (n :: nat)))) = Some (char_of n)) [14, 15, 16, 17, 18]"
  by code_simp

lemma low_back_4: "list_all (\<lambda>n. json_low (tl (json_char (char_of (n :: nat)))) = Some (char_of n)) [19, 20, 21, 22, 23]"
  by code_simp

lemma low_back_5: "list_all (\<lambda>n. json_low (tl (json_char (char_of (n :: nat)))) = Some (char_of n)) [24, 25, 26, 27]"
  by code_simp

lemma low_back_6: "list_all (\<lambda>n. json_low (tl (json_char (char_of (n :: nat)))) = Some (char_of n)) [28, 29, 30, 31]"
  by code_simp

lemma low_back: "list_all (\<lambda>n. json_low (tl (json_char (char_of (n :: nat)))) = Some (char_of n))
    [0, 1, 2, 3, 4, 5, 6, 7, 11, 14, 15, 16, 17, 18, 19, 20, 21, 22, 23, 24, 25, 26, 27, 28, 29, 30, 31]"
  using low_back_1 low_back_2 low_back_3 low_back_4 low_back_5 low_back_6 by (simp only: list.pred_inject simp_thms)

lemma escapes_back: "list_all (\<lambda>(a, b). map_of (map (\<lambda>(a, b). (b, a)) json_escapes) b = Some a \<and> b \<noteq> CHR ''u'') json_escapes"
  by code_simp

lemma escaped_low: "list_all (\<lambda>n. map_of json_escapes (char_of (n :: nat)) \<noteq> None) [8, 9, 10, 12, 13]"
  by code_simp

lemma control_numbers: "list_all (\<lambda>n :: nat. n \<in> set [8, 9, 10, 12, 13] \<or> n \<in> set [0, 1, 2, 3, 4, 5, 6, 7, 11, 14, 15, 16, 17, 18, 19, 20, 21, 22, 23, 24, 25, 26, 27, 28, 29, 30, 31]) [0..<32]"
  by code_simp

lemma quote_facts: "quote_char \<noteq> CHR ''n''" "quote_char \<noteq> nul"
  by code_simp+

lemma no_escape: "map_of json_escapes c = None \<Longrightarrow> c \<noteq> quote_char \<and> c \<noteq> backslash"
  by (auto simp: json_escapes_def quote_char_def backslash_def)

lemma low_char:
  assumes "(of_char c :: nat) < 32" and "map_of json_escapes c = None"
  shows "json_low (tl (json_char c)) = Some c"
proof -
  have "map_of json_escapes (char_of (of_char c :: nat)) = None" using assms(2) by simp
  with escaped_low have "(of_char c :: nat) \<notin> set [8, 9, 10, 12, 13]" unfolding list_all_iff by blast
  with assms(1) have "(of_char c :: nat) \<in> set [0, 1, 2, 3, 4, 5, 6, 7, 11, 14, 15, 16, 17, 18, 19, 20, 21, 22, 23, 24, 25, 26, 27, 28, 29, 30, 31]"
    using control_numbers unfolding list_all_iff by auto
  with low_back have "json_low (tl (json_char (char_of (of_char c :: nat)))) = Some (char_of (of_char c :: nat))"
    unfolding list_all_iff by blast
  then show ?thesis by simp
qed


lemma read_char: "read_json_char (json_char c @ t) = Some (c, t)"
proof (cases "map_of json_escapes c")
  case (Some e)
  then have "(c, e) \<in> set json_escapes" by (rule map_of_SomeD)
  with escapes_back have "map_of (map (\<lambda>(a, b). (b, a)) json_escapes) e = Some c \<and> e \<noteq> CHR ''u''" unfolding list_all_iff by blast
  with Some show ?thesis by (simp add: json_char_def backslash_def quote_char_def)
next
  case None
  show ?thesis
  proof (cases "(of_char c :: nat) < 32")
    case True
    with low_char [OF True None] None show ?thesis by (simp add: json_char_def backslash_def quote_char_def)
  next
    case False
    with no_escape [OF None] None show ?thesis by (simp add: json_char_def)
  qed
qed

lemma json_char_head: "\<exists>x xs. json_char c = x # xs \<and> x \<noteq> quote_char"
  using no_escape [of c] by (auto simp: json_char_def backslash_def quote_char_def split: option.splits)

lemma read_string: "read_json_string (concat (map json_char s) @ quote_char # rest) = Some (s, rest)"
proof (induction s)
  case Nil
  show ?case by (subst read_json_string.simps) simp
next
  case (Cons c s)
  obtain x xs where h: "json_char c = x # xs" "x \<noteq> quote_char" using json_char_head by blast
  have r: "read_json_char (concat (map json_char (c # s)) @ quote_char # rest) = Some (c, concat (map json_char s) @ quote_char # rest)"
    using read_char [of c] by simp
  show ?case by (subst read_json_string.simps) (use h r in \<open>simp add: Cons.IH del: read_json_char.simps\<close>)
qed

lemma read_item: "read_json_item (json_item v @ rest) = Some (v, rest)"
proof (cases v)
  case None
  then show ?thesis by (simp add: read_json_item_def json_item_def starts_with_def)
next
  case (Some s)
  have "\<not> starts_with (quote_char # t) ''null''" for t using quote_facts by (simp add: starts_with_def)
  with Some read_string [of s rest] show ?thesis by (simp add: read_json_item_def json_item_def json_string_def)
qed

lemma read_items: "vs \<noteq> [] \<Longrightarrow> length vs \<le> n \<Longrightarrow> read_json_items n (join_with CHR '','' (map json_item vs) @ '']'') = Some vs"
proof (induction vs arbitrary: n)
  case (Cons v vs)
  then obtain m where n: "n = Suc m" by (cases n) auto
  show ?case
  proof (cases vs)
    case Nil
    then show ?thesis by (simp add: n read_item)
  next
    case (Cons w ws)
    then have "read_json_items m (join_with CHR '','' (map json_item vs) @ '']'') = Some vs" using Cons.IH [of m] Cons.prems n by simp
    moreover have "join_with CHR '','' (map json_item (v # vs)) @ '']'' = json_item v @ CHR '','' # join_with CHR '','' (map json_item vs) @ '']''"
      using Cons by simp
    ultimately show ?thesis by (simp add: n read_item)
  qed
qed simp

lemma json_item_nonempty: "json_item v \<noteq> []"
  by (simp add: json_item_def json_string_def split: option.splits)

lemma join_length: "length ps \<le> length (join_with c (map json_item ps))"
proof (induction ps)
  case (Cons p ps)
  have "1 \<le> length (json_item p)" using json_item_nonempty [of p] by (cases "json_item p") auto
  with Cons show ?case by (cases ps) auto
qed simp

lemma read_array: "vs \<noteq> [] \<Longrightarrow> read_json_array (json_array vs) = Some vs"
  using join_length [of vs "CHR '',''"] read_items [of vs "length (json_array vs)"]
  by (simp add: read_json_array_def json_array_def del: read_json_items.simps)

section \<open>Properties\<close>

text \<open>C40. The scope that a store is given is always accepted again as the same canonical text, and the namespace read back from
  the text is the namespace of the store, whatever quotes, backslashes or control characters the names contain.\<close>

theorem scope_roundtrip:
  assumes "datastoreSearchScopeForStore st = Inr (Some s)"
  shows "normalizeDatastoreSearchScope (Str s) = Inr (Some s) \<and> datastoreSearchScopeNamespace s = Inr (name_item (ss_namespace st))"
proof -
  let ?parts = "[name_item (ss_projectId st), name_item (ss_databaseId st), name_item (ss_namespace st), name_item (ss_keyEncoding st),
    name_item (ss_cacheScope st)]"
  from assms have s: "s = json_array ?parts" and v: "valid_name (ss_projectId st)" "ss_databaseId st = Null \<or> valid_name (ss_databaseId st)"
    "ss_namespace st = Undef \<or> valid_name (ss_namespace st)" "ss_cacheScope st = Undef \<or> valid_name (ss_cacheScope st)"
    "ss_keyEncoding st = Str ''active-ts'' \<or> ss_keyEncoding st = Str ''native''"
    by (auto simp: datastoreSearchScopeForStore_def rbind_Inr_iff split: if_splits)
  have n: "valid_name w \<Longrightarrow> \<exists>t. w = Str t \<and> validName t" for w by (cases w) auto
  have "scope_parts ?parts" using n v by (fastforce simp: scope_parts_def null_or_name_def name_item_def)
  moreover have r: "read_json_array s = Some ?parts" unfolding s by (rule read_array) simp
  ultimately have "normalizeDatastoreSearchScope (Str s) = Inr (Some s)" by (simp add: normalizeDatastoreSearchScope_def s)
  then show ?thesis by (simp add: datastoreSearchScopeNamespace_def r)
qed

theorem scope_roundtrip_witness:
  "\<exists>s. datastoreSearchScopeForStore \<lparr>ss_kind = ''datastore'', ss_cacheScope = Undef, ss_projectId = Str ''p'', ss_databaseId = Null,
      ss_namespace = Str (quote_char # ''n''), ss_keyEncoding = Str ''native'', ss_scopeStability = Undef\<rparr> = Inr (Some s)
    \<and> datastoreSearchScopeNamespace s = Inr (Some (quote_char # ''n''))"
proof -
  let ?st = "\<lparr>ss_kind = ''datastore'', ss_cacheScope = Undef, ss_projectId = Str ''p'', ss_databaseId = Null,
      ss_namespace = Str (quote_char # ''n''), ss_keyEncoding = Str ''native'', ss_scopeStability = Undef\<rparr>"
  obtain s where s: "datastoreSearchScopeForStore ?st = Inr (Some s)"
    using quote_facts by (auto simp: datastoreSearchScopeForStore_def validName_def normalizeDatastoreCacheScopeStability_def nul_def)
  with scope_roundtrip [OF s] show ?thesis by (auto simp: name_item_def)
qed

end
