(* ===== verification/OutboxEvent.thy ===== *)
theory OutboxEvent
  imports SearchScope DateText
begin

text \<open>
  \<open>src/core/outbox-types.ts\<close> and the input checks of \<open>src/core/outbox-validation.ts\<close>: outbox events, delivery
  identities and delivery failures. A sanitised event is a record; an optional field that is missing is \<open>None\<close>. Where the
  code sanitises an event once more, the model sanitises the object \<open>event_value\<close> of it.
\<close>

section \<open>Events\<close>

datatype OutboxOperation = CreateOp | UpdateOp | DeleteOp

record OutboxEvent =
  ev_id :: string
  ev_model :: string
  ev_operation :: OutboxOperation
  ev_createdAt :: string
  ev_data :: jsval
  ev_modelDatastoreScope :: "string option"
  ev_modelId :: "jsval option"
  ev_modelIdentity :: "string option"
  ev_modelDatastoreAncestor :: "DatastoreKey option"
  ev_modelDatastoreProjectId :: "string option"
  ev_dataEncoding :: "string option"
  ev_reconcileFromStore :: "bool option"
  ev_sequence :: "string option"
  ev_version :: "jsnum option"
  ev_leaseToken :: "string option"
  ev_leaseExpiresAt :: "string option"
  ev_deliveryAttempts :: "jsnum option"
  ev_availableAt :: "string option"
  ev_deadLetteredAt :: "string option"
  ev_lastDeliveryError :: "string option"

record OutboxEventIdentity =
  oi_id :: "string option"
  oi_model :: "string option"
  oi_modelId :: "jsval option"
  oi_modelIdentity :: "string option"
  oi_leaseToken :: "string option"
  oi_leaseExpiresAt :: "string option"

record OutboxDeliveryFailure =
  df_identity :: OutboxEventIdentity
  df_event :: "OutboxEvent option"
  df_attempt :: jsnum
  df_maxAttempts :: jsnum
  df_failedAt :: string
  df_retryAt :: "string option"
  df_error :: string

definition OUTBOX_EVENT_KEYS :: "string list" where
  "OUTBOX_EVENT_KEYS = [''id'', ''model'', ''modelId'', ''modelIdentity'', ''modelDatastoreAncestor'', ''modelDatastoreProjectId'',
     ''modelDatastoreScope'', ''operation'', ''data'', ''dataEncoding'', ''reconcileFromStore'', ''createdAt'', ''sequence'', ''version'',
     ''leaseToken'', ''leaseExpiresAt'', ''deliveryAttempts'', ''availableAt'', ''deadLetteredAt'', ''lastDeliveryError'']"

section \<open>Options\<close>

definition outbox_record :: "jsval \<Rightarrow> jsval res" where
  "outbox_record value =
     (if \<not> is_object value \<or> is_array value then Inl ActiveTsConfigurationError
      else if \<not> is_plain_object value then Inl ActiveTsConfigurationError
      else if own_symbols value \<noteq> [] then Inl ActiveTsConfigurationError
      else Inr value)"

definition outbox_known_options :: "jsval \<Rightarrow> string list \<Rightarrow> unit res" where
  "outbox_known_options record allowed =
     reach (\<lambda>property. if property \<notin> set allowed then Inl ActiveTsConfigurationError else Inr ()) (own_names record)"

definition event_field :: "jsval \<Rightarrow> string \<Rightarrow> jsval res" where
  "event_field record key = (case own_prop record key of
     None \<Rightarrow> Inr Undef
   | Some p \<Rightarrow>
       if \<not> is_data p then Inl ActiveTsConfigurationError
       else if \<not> enumerable p then Inl ActiveTsConfigurationError
       else Inr (prop_val p))"

text \<open>A field that may be left out: \<open>undefined\<close> stands for a missing one.\<close>

definition optional :: "(jsval \<Rightarrow> 'a res) \<Rightarrow> jsval \<Rightarrow> 'a option res" where
  "optional f v = (if v = Undef then Inr None else rbind (f v) (\<lambda>x. Inr (Some x)))"

definition opt_value :: "('a \<Rightarrow> jsval) \<Rightarrow> 'a option \<Rightarrow> jsval" where
  "opt_value g x = (case x of None \<Rightarrow> Undef | Some v \<Rightarrow> g v)"

definition assertPositiveSafeInteger :: "jsval \<Rightarrow> jsnum res" where
  "assertPositiveSafeInteger value = (case value of
     Num n \<Rightarrow> if \<not> is_safe_integer n \<or> num_value n \<le> 0 then Inl ActiveTsConfigurationError else Inr n
   | _ \<Rightarrow> Inl ActiveTsConfigurationError)"

definition assertNonNegativeSafeInteger :: "jsval \<Rightarrow> jsnum res" where
  "assertNonNegativeSafeInteger value = (case value of
     Num n \<Rightarrow> if \<not> is_safe_integer n \<or> num_value n < 0 then Inl ActiveTsConfigurationError else Inr n
   | _ \<Rightarrow> Inl ActiveTsConfigurationError)"

definition assertCanonicalIsoTimestamp :: "jsval \<Rightarrow> string res" where
  "assertCanonicalIsoTimestamp value =
     rbind (assertSafeCacheKey value) (\<lambda>s. case dateParse s of
         None \<Rightarrow> Inl ActiveTsConfigurationError
       | Some t \<Rightarrow> if dateIsoString t \<noteq> s then Inl ActiveTsConfigurationError else Inr s)"

definition normalizeOutboxBatchLimit :: "jsval \<Rightarrow> jsnum option res" where
  "normalizeOutboxBatchLimit options =
     (if options = Undef then Inr None
      else rbind (outbox_record options) (\<lambda>record.
        rbind (outbox_known_options record [''limit'']) (\<lambda>_.
        rbind (event_field record ''limit'') (optional assertPositiveSafeInteger))))"

section \<open>Sanitising events\<close>

definition event_operation :: "jsval \<Rightarrow> OutboxOperation res" where
  "event_operation v =
     (if v = Str ''create'' then Inr CreateOp else if v = Str ''update'' then Inr UpdateOp
      else if v = Str ''delete'' then Inr DeleteOp else Inl ActiveTsConfigurationError)"

definition event_entity_id :: "jsval \<Rightarrow> jsval res" where
  "event_entity_id v = rbind (assertSafeEntityId v) (\<lambda>_. Inr v)"

definition event_project_id :: "jsval \<Rightarrow> string res" where
  "event_project_id v = (case v of
     Str s \<Rightarrow> if s = [] \<or> nul \<in> set s then Inl ActiveTsConfigurationError else Inr s
   | _ \<Rightarrow> Inl ActiveTsConfigurationError)"

definition event_encoding :: "jsval \<Rightarrow> string res" where
  "event_encoding v = (case v of
     Str s \<Rightarrow> if s \<noteq> ''public'' \<and> s \<noteq> ''stored'' then Inl ActiveTsConfigurationError else Inr s
   | _ \<Rightarrow> Inl ActiveTsConfigurationError)"

definition event_flag :: "jsval \<Rightarrow> bool res" where
  "event_flag v = (case v of Bool b \<Rightarrow> Inr b | _ \<Rightarrow> Inl ActiveTsConfigurationError)"

definition event_count :: "jsval \<Rightarrow> jsnum res" where
  "event_count v = (case v of
     Num n \<Rightarrow> if \<not> is_safe_integer n \<or> num_value n < 0 then Inl ActiveTsConfigurationError else Inr n
   | _ \<Rightarrow> Inl ActiveTsConfigurationError)"

definition sanitizeOutboxEvent :: "jsval \<Rightarrow> bool \<Rightarrow> OutboxEvent res" where
  "sanitizeOutboxEvent event requireModelId =
     rbind (outbox_record event) (\<lambda>record.
     rbind (outbox_known_options record OUTBOX_EVENT_KEYS) (\<lambda>_.
     rbind (rbind (event_field record ''id'') assertSafeCacheKey) (\<lambda>ident.
     rbind (rbind (event_field record ''model'') assertSafeSchemaIdentifier) (\<lambda>model.
     rbind (event_field record ''operation'') (\<lambda>operation.
     rbind (event_field record ''modelId'') (\<lambda>modelId.
     rbind (event_field record ''modelIdentity'') (\<lambda>modelIdentity.
     rbind (event_field record ''modelDatastoreAncestor'') (\<lambda>modelDatastoreAncestor.
     rbind (event_field record ''modelDatastoreProjectId'') (\<lambda>modelDatastoreProjectId.
     rbind (rbind (event_field record ''modelDatastoreScope'') normalizeDatastoreSearchScope) (\<lambda>modelDatastoreScope.
     rbind (event_field record ''data'') (\<lambda>data.
     rbind (event_field record ''dataEncoding'') (\<lambda>dataEncoding.
     rbind (event_field record ''reconcileFromStore'') (\<lambda>reconcileFromStore.
     rbind (event_field record ''sequence'') (\<lambda>sequence.
     rbind (event_field record ''version'') (\<lambda>version.
     rbind (event_field record ''leaseToken'') (\<lambda>leaseToken.
     rbind (event_field record ''leaseExpiresAt'') (\<lambda>leaseExpiresAt.
     rbind (event_field record ''deliveryAttempts'') (\<lambda>deliveryAttempts.
     rbind (event_field record ''availableAt'') (\<lambda>availableAt.
     rbind (event_field record ''deadLetteredAt'') (\<lambda>deadLetteredAt.
     rbind (event_field record ''lastDeliveryError'') (\<lambda>lastDeliveryError.
     rbind (event_operation operation) (\<lambda>safeOperation.
     if requireModelId \<and> modelId = Undef then Inl ActiveTsConfigurationError
     else rbind (optional event_entity_id modelId) (\<lambda>safeModelId.
     rbind (optional assertSafeCacheKey modelIdentity) (\<lambda>safeModelIdentity.
     rbind (optional event_project_id modelDatastoreProjectId) (\<lambda>safeProjectId.
     rbind (optional normalizeDatastoreKey modelDatastoreAncestor) (\<lambda>safeModelDatastoreAncestor.
     rbind (optional event_encoding dataEncoding) (\<lambda>safeEncoding.
     if data = Undef \<and> dataEncoding \<noteq> Undef then Inl ActiveTsConfigurationError
     else rbind (optional event_flag reconcileFromStore) (\<lambda>safeReconcile.
     rbind (optional event_count version) (\<lambda>safeVersion.
     rbind (optional event_count deliveryAttempts) (\<lambda>safeAttempts.
     if (leaseToken = Undef) \<noteq> (leaseExpiresAt = Undef) then Inl ActiveTsConfigurationError
     else if deadLetteredAt \<noteq> Undef \<and> leaseToken \<noteq> Undef then Inl ActiveTsConfigurationError
     else rbind (rbind (event_field record ''createdAt'') assertCanonicalIsoTimestamp) (\<lambda>createdAt.
     rbind (if data = Undef then Inr Undef else cloneSafeData data) (\<lambda>safeData.
     rbind (optional assertSafeCacheKey sequence) (\<lambda>safeSequence.
     rbind (optional assertSafeCacheKey leaseToken) (\<lambda>safeLeaseToken.
     rbind (optional assertCanonicalIsoTimestamp leaseExpiresAt) (\<lambda>safeLeaseExpiresAt.
     rbind (optional assertCanonicalIsoTimestamp availableAt) (\<lambda>safeAvailableAt.
     rbind (optional assertCanonicalIsoTimestamp deadLetteredAt) (\<lambda>safeDeadLetteredAt.
     rbind (optional assertSafeCacheKey lastDeliveryError) (\<lambda>safeError.
     Inr \<lparr>ev_id = ident, ev_model = model, ev_operation = safeOperation, ev_createdAt = createdAt, ev_data = safeData,
          ev_modelDatastoreScope = modelDatastoreScope, ev_modelId = safeModelId, ev_modelIdentity = safeModelIdentity,
          ev_modelDatastoreAncestor = safeModelDatastoreAncestor, ev_modelDatastoreProjectId = safeProjectId,
          ev_dataEncoding = safeEncoding, ev_reconcileFromStore = safeReconcile, ev_sequence = safeSequence, ev_version = safeVersion,
          ev_leaseToken = safeLeaseToken, ev_leaseExpiresAt = safeLeaseExpiresAt, ev_deliveryAttempts = safeAttempts,
          ev_availableAt = safeAvailableAt, ev_deadLetteredAt = safeDeadLetteredAt, ev_lastDeliveryError = safeError\<rparr>
     ))))))))))))))))))))))))))))))))))))))"

text \<open>The object that the code has for a sanitised event: the five first fields always, the others when present.\<close>

definition operation_text :: "OutboxOperation \<Rightarrow> string" where
  "operation_text op = (case op of CreateOp \<Rightarrow> ''create'' | UpdateOp \<Rightarrow> ''update'' | DeleteOp \<Rightarrow> ''delete'')"

definition event_fields :: "OutboxEvent \<Rightarrow> (string \<times> jsval) list" where
  "event_fields e =
     [(''id'', Str (ev_id e)), (''model'', Str (ev_model e)), (''operation'', Str (operation_text (ev_operation e))),
      (''createdAt'', Str (ev_createdAt e)), (''data'', ev_data e),
      (''modelDatastoreScope'', opt_value Str (ev_modelDatastoreScope e)), (''modelId'', opt_value id (ev_modelId e)),
      (''modelIdentity'', opt_value Str (ev_modelIdentity e)),
      (''modelDatastoreAncestor'', opt_value key_value (ev_modelDatastoreAncestor e)),
      (''modelDatastoreProjectId'', opt_value Str (ev_modelDatastoreProjectId e)),
      (''dataEncoding'', opt_value Str (ev_dataEncoding e)), (''reconcileFromStore'', opt_value Bool (ev_reconcileFromStore e)),
      (''sequence'', opt_value Str (ev_sequence e)), (''version'', opt_value Num (ev_version e)),
      (''leaseToken'', opt_value Str (ev_leaseToken e)), (''leaseExpiresAt'', opt_value Str (ev_leaseExpiresAt e)),
      (''deliveryAttempts'', opt_value Num (ev_deliveryAttempts e)), (''availableAt'', opt_value Str (ev_availableAt e)),
      (''deadLetteredAt'', opt_value Str (ev_deadLetteredAt e)), (''lastDeliveryError'', opt_value Str (ev_lastDeliveryError e))]"

definition event_value :: "OutboxEvent \<Rightarrow> jsval" where
  "event_value e = js_object (filter (\<lambda>(k, v). v \<noteq> Undef \<or> k = ''data'') (event_fields e))"

section \<open>Delivery failures\<close>

definition sanitizeOutboxEventIdentity :: "jsval \<Rightarrow> OutboxEventIdentity res" where
  "sanitizeOutboxEventIdentity value =
     rbind (outbox_record value) (\<lambda>record.
     rbind (outbox_known_options record [''id'', ''model'', ''modelId'', ''modelIdentity'', ''leaseToken'', ''leaseExpiresAt'']) (\<lambda>_.
     rbind (event_field record ''id'') (\<lambda>ident.
     rbind (event_field record ''model'') (\<lambda>model.
     rbind (event_field record ''modelId'') (\<lambda>modelId.
     rbind (event_field record ''modelIdentity'') (\<lambda>modelIdentity.
     rbind (event_field record ''leaseToken'') (\<lambda>leaseToken.
     rbind (event_field record ''leaseExpiresAt'') (\<lambda>leaseExpiresAt.
     rbind (optional assertSafeCacheKey ident) (\<lambda>safeIdent.
     rbind (optional assertSafeSchemaIdentifier model) (\<lambda>safeModel.
     rbind (optional event_entity_id modelId) (\<lambda>safeModelId.
     rbind (optional assertSafeCacheKey modelIdentity) (\<lambda>safeModelIdentity.
     rbind (optional assertSafeCacheKey leaseToken) (\<lambda>safeLeaseToken.
     rbind (optional assertCanonicalIsoTimestamp leaseExpiresAt) (\<lambda>safeLeaseExpiresAt.
     Inr \<lparr>oi_id = safeIdent, oi_model = safeModel, oi_modelId = safeModelId, oi_modelIdentity = safeModelIdentity,
          oi_leaseToken = safeLeaseToken, oi_leaseExpiresAt = safeLeaseExpiresAt\<rparr>))))))))))))))"

definition sanitizeOutboxDeliveryFailure :: "jsval \<Rightarrow> bool \<Rightarrow> OutboxDeliveryFailure res" where
  "sanitizeOutboxDeliveryFailure value requireEvent =
     rbind (outbox_record value) (\<lambda>record.
     rbind (outbox_known_options record [''identity'', ''event'', ''attempt'', ''maxAttempts'', ''failedAt'', ''retryAt'', ''error'']) (\<lambda>_.
     rbind (event_field record ''event'') (\<lambda>eventValue.
     if requireEvent \<and> eventValue = Undef then Inl ActiveTsConfigurationError
     else rbind (optional (\<lambda>v. sanitizeOutboxEvent v False) eventValue) (\<lambda>event.
     rbind (rbind (event_field record ''identity'') sanitizeOutboxEventIdentity) (\<lambda>identity.
     rbind (rbind (event_field record ''attempt'') assertPositiveSafeInteger) (\<lambda>attempt.
     rbind (rbind (event_field record ''maxAttempts'') assertPositiveSafeInteger) (\<lambda>maxAttempts.
     if num_less maxAttempts attempt then Inl ActiveTsConfigurationError
     else rbind (rbind (event_field record ''failedAt'') assertCanonicalIsoTimestamp) (\<lambda>failedAt.
     rbind (event_field record ''retryAt'') (\<lambda>retryAtValue.
     rbind (optional assertCanonicalIsoTimestamp retryAtValue) (\<lambda>retryAt.
     rbind (rbind (event_field record ''error'') assertSafeCacheKey) (\<lambda>error.
     Inr \<lparr>df_identity = identity, df_event = event, df_attempt = attempt, df_maxAttempts = maxAttempts, df_failedAt = failedAt,
          df_retryAt = retryAt, df_error = error\<rparr>)))))))))))"

definition sanitizeOutboxDeliveryFailureBatch :: "jsval \<Rightarrow> bool \<Rightarrow> OutboxDeliveryFailure list res" where
  "sanitizeOutboxDeliveryFailureBatch failures requireEvent =
     rbind (snapshotArrayInput failures) (rlist (\<lambda>v. sanitizeOutboxDeliveryFailure v requireEvent))"

definition sanitizeOutboxEventBatch :: "jsval \<Rightarrow> OutboxEvent list res" where
  "sanitizeOutboxEventBatch events = rbind (snapshotArrayInput events) (rlist (\<lambda>v. sanitizeOutboxEvent v False))"

section \<open>Sanitised events\<close>

definition valid_event :: "OutboxEvent \<Rightarrow> bool" where
  "valid_event e =
     (assertSafeCacheKey (Str (ev_id e)) = Inr (ev_id e) \<and> assertSafeSchemaIdentifier (Str (ev_model e)) = Inr (ev_model e)
      \<and> assertCanonicalIsoTimestamp (Str (ev_createdAt e)) = Inr (ev_createdAt e)
      \<and> (ev_data e \<noteq> Undef \<longrightarrow> cloneSafeData (ev_data e) = Inr (ev_data e))
      \<and> normalizeDatastoreSearchScope (opt_value Str (ev_modelDatastoreScope e)) = Inr (ev_modelDatastoreScope e)
      \<and> optional event_entity_id (opt_value id (ev_modelId e)) = Inr (ev_modelId e)
      \<and> optional assertSafeCacheKey (opt_value Str (ev_modelIdentity e)) = Inr (ev_modelIdentity e)
      \<and> optional normalizeDatastoreKey (opt_value key_value (ev_modelDatastoreAncestor e)) = Inr (ev_modelDatastoreAncestor e)
      \<and> optional event_project_id (opt_value Str (ev_modelDatastoreProjectId e)) = Inr (ev_modelDatastoreProjectId e)
      \<and> optional event_encoding (opt_value Str (ev_dataEncoding e)) = Inr (ev_dataEncoding e)
      \<and> optional event_count (opt_value Num (ev_version e)) = Inr (ev_version e)
      \<and> optional event_count (opt_value Num (ev_deliveryAttempts e)) = Inr (ev_deliveryAttempts e)
      \<and> optional assertSafeCacheKey (opt_value Str (ev_sequence e)) = Inr (ev_sequence e)
      \<and> optional assertSafeCacheKey (opt_value Str (ev_leaseToken e)) = Inr (ev_leaseToken e)
      \<and> optional assertCanonicalIsoTimestamp (opt_value Str (ev_leaseExpiresAt e)) = Inr (ev_leaseExpiresAt e)
      \<and> optional assertCanonicalIsoTimestamp (opt_value Str (ev_availableAt e)) = Inr (ev_availableAt e)
      \<and> optional assertCanonicalIsoTimestamp (opt_value Str (ev_deadLetteredAt e)) = Inr (ev_deadLetteredAt e)
      \<and> optional assertSafeCacheKey (opt_value Str (ev_lastDeliveryError e)) = Inr (ev_lastDeliveryError e)
      \<and> \<not> (ev_data e = Undef \<and> ev_dataEncoding e \<noteq> None)
      \<and> (ev_leaseToken e = None) = (ev_leaseExpiresAt e = None)
      \<and> \<not> (ev_deadLetteredAt e \<noteq> None \<and> ev_leaseToken e \<noteq> None))"

lemma field_none: "k \<notin> fst ` set kvs \<Longrightarrow> event_field (js_object kvs) k = Inr Undef"
  by (auto simp: event_field_def js_object_def map_of_eq_None_iff [THEN iffD2] image_image case_prod_beta split: option.splits dest!: map_of_SomeD)

lemma field_step: "event_field (js_object ((k', v) # kvs)) k = (if k = k' then Inr v else event_field (js_object kvs) k)"
  by (simp add: event_field_def js_object_def dataP_def)

lemma field_of_object:
  "distinct (map fst kvs) \<Longrightarrow>
   event_field (js_object (filter (\<lambda>(k, v). v \<noteq> Undef \<or> P k) kvs)) k = Inr (case map_of kvs k of None \<Rightarrow> Undef | Some v \<Rightarrow> v)"
proof (induction kvs)
  case Nil
  show ?case by (simp add: field_none)
next
  case (Cons kv kvs)
  obtain k' v where kv: "kv = (k', v)" by (cases kv)
  have none: "map_of kvs k' = None" using Cons.prems by (simp add: kv map_of_eq_None_iff)
  show ?case using Cons none by (cases "v \<noteq> Undef \<or> P k'") (auto simp: kv field_step)
qed

lemma event_names: "map fst (event_fields e) = [''id'', ''model'', ''operation'', ''createdAt'', ''data'', ''modelDatastoreScope'', ''modelId'',
    ''modelIdentity'', ''modelDatastoreAncestor'', ''modelDatastoreProjectId'', ''dataEncoding'', ''reconcileFromStore'', ''sequence'', ''version'',
    ''leaseToken'', ''leaseExpiresAt'', ''deliveryAttempts'', ''availableAt'', ''deadLetteredAt'', ''lastDeliveryError'']"
  by (simp add: event_fields_def)

lemma event_names_known: "set (map fst (event_fields e)) \<subseteq> set OUTBOX_EVENT_KEYS" and event_names_distinct: "distinct (map fst (event_fields e))"
  unfolding event_names by code_simp+

lemma event_reads:
  "outbox_record (event_value e) = Inr (event_value e)" "outbox_known_options (event_value e) OUTBOX_EVENT_KEYS = Inr ()"
proof -
  show "outbox_record (event_value e) = Inr (event_value e)" by (simp add: outbox_record_def event_value_def js_object_def)
  have "set (own_names (event_value e)) \<subseteq> set OUTBOX_EVENT_KEYS"
    using event_names_known [of e] by (force simp: event_value_def js_object_def)
  then show "outbox_known_options (event_value e) OUTBOX_EVENT_KEYS = Inr ()" by (auto simp: outbox_known_options_def reach_Inr_iff)
qed

lemma event_value_field:
  "event_field (event_value e) k = Inr (case map_of (event_fields e) k of None \<Rightarrow> Undef | Some v \<Rightarrow> v)"
  unfolding event_value_def by (rule field_of_object) (rule event_names_distinct)

lemma event_value_fields:
  "event_field (event_value e) ''id'' = Inr (Str (ev_id e))" "event_field (event_value e) ''model'' = Inr (Str (ev_model e))"
  "event_field (event_value e) ''operation'' = Inr (Str (operation_text (ev_operation e)))"
  "event_field (event_value e) ''createdAt'' = Inr (Str (ev_createdAt e))" "event_field (event_value e) ''data'' = Inr (ev_data e)"
  "event_field (event_value e) ''modelDatastoreScope'' = Inr (opt_value Str (ev_modelDatastoreScope e))"
  "event_field (event_value e) ''modelId'' = Inr (opt_value id (ev_modelId e))"
  "event_field (event_value e) ''modelIdentity'' = Inr (opt_value Str (ev_modelIdentity e))"
  "event_field (event_value e) ''modelDatastoreAncestor'' = Inr (opt_value key_value (ev_modelDatastoreAncestor e))"
  "event_field (event_value e) ''modelDatastoreProjectId'' = Inr (opt_value Str (ev_modelDatastoreProjectId e))"
  "event_field (event_value e) ''dataEncoding'' = Inr (opt_value Str (ev_dataEncoding e))"
  "event_field (event_value e) ''reconcileFromStore'' = Inr (opt_value Bool (ev_reconcileFromStore e))"
  "event_field (event_value e) ''sequence'' = Inr (opt_value Str (ev_sequence e))"
  "event_field (event_value e) ''version'' = Inr (opt_value Num (ev_version e))"
  "event_field (event_value e) ''leaseToken'' = Inr (opt_value Str (ev_leaseToken e))"
  "event_field (event_value e) ''leaseExpiresAt'' = Inr (opt_value Str (ev_leaseExpiresAt e))"
  "event_field (event_value e) ''deliveryAttempts'' = Inr (opt_value Num (ev_deliveryAttempts e))"
  "event_field (event_value e) ''availableAt'' = Inr (opt_value Str (ev_availableAt e))"
  "event_field (event_value e) ''deadLetteredAt'' = Inr (opt_value Str (ev_deadLetteredAt e))"
  "event_field (event_value e) ''lastDeliveryError'' = Inr (opt_value Str (ev_lastDeliveryError e))"
  by (simp_all only: event_value_field) (simp_all add: event_fields_def)


lemma opt_value_undefined [simp]:
  "opt_value Str x = Undef \<longleftrightarrow> x = None" "opt_value Num y = Undef \<longleftrightarrow> y = None" "opt_value Bool b = Undef \<longleftrightarrow> b = None"
  by (simp_all add: opt_value_def split: option.splits)

lemma optional_flag [simp]: "optional event_flag (opt_value Bool x) = Inr x"
  by (simp add: optional_def opt_value_def event_flag_def split: option.splits)

lemma operation_back [simp]: "event_operation (Str (operation_text op)) = Inr op"
  by (cases op) (simp_all add: event_operation_def operation_text_def)

text \<open>A valid event but for its data: sanitising clones the data.\<close>

lemma sanitize_data:
  assumes "valid_event e" and "d \<noteq> Undef"
  shows "sanitizeOutboxEvent (event_value (e\<lparr>ev_data := d\<rparr>)) False = rbind (cloneSafeData d) (\<lambda>x. Inr (e\<lparr>ev_data := x\<rparr>))"
proof -
  note v = assms(1) [unfolded valid_event_def]
  have dead: "ev_deadLetteredAt e = None \<or> ev_leaseExpiresAt e = None" using v by metis
  show ?thesis
    unfolding sanitizeOutboxEvent_def event_reads rbind.simps event_value_fields
    using v dead assms(2)
    by (cases "cloneSafeData d") (auto simp del: assertSafeCacheKey.simps assertSafeSchemaIdentifier.simps)
qed

lemma sanitize_valid:
  assumes "valid_event e"
  shows "sanitizeOutboxEvent (event_value e) False = Inr e"
proof -
  note v = assms [unfolded valid_event_def]
  have d: "(if ev_data e = Undef then Inr Undef else cloneSafeData (ev_data e)) = Inr (ev_data e)" using v by auto
  have dead: "ev_deadLetteredAt e = None \<or> ev_leaseExpiresAt e = None" using v by metis
  show ?thesis
    unfolding sanitizeOutboxEvent_def event_reads rbind.simps event_value_fields
    using v dead by (simp add: d del: assertSafeCacheKey.simps assertSafeSchemaIdentifier.simps)
qed

lemma optional_back:
  assumes "optional f v = Inr x" and "\<And>z. f v = Inr z \<Longrightarrow> v \<noteq> Undef \<Longrightarrow> g z \<noteq> Undef \<and> f (g z) = Inr z"
  shows "optional f (opt_value g x) = Inr x"
  using assms by (auto simp: optional_def opt_value_def rbind_Inr_iff split: if_splits)

lemma back_cache_key: "assertSafeCacheKey v = Inr z \<Longrightarrow> Str z \<noteq> Undef \<and> assertSafeCacheKey (Str z) = Inr z"
  by (cases v) (auto split: if_splits)

lemma back_identifier: "assertSafeSchemaIdentifier v = Inr z \<Longrightarrow> assertSafeSchemaIdentifier (Str z) = Inr z"
  by (cases v) (auto split: if_splits)

lemma timestamp_iff:
  "assertCanonicalIsoTimestamp v = Inr z \<longleftrightarrow> assertSafeCacheKey v = Inr z \<and> (\<exists>t. dateParse z = Some t \<and> dateIsoString t = z)"
  by (cases "assertSafeCacheKey v") (auto simp: assertCanonicalIsoTimestamp_def split: option.splits)

lemma back_timestamp: "assertCanonicalIsoTimestamp v = Inr z \<Longrightarrow> Str z \<noteq> Undef \<and> assertCanonicalIsoTimestamp (Str z) = Inr z"
  unfolding timestamp_iff by (blast dest: back_cache_key)

lemma back_simple:
  "event_entity_id v = Inr i \<Longrightarrow> v \<noteq> Undef \<Longrightarrow> id i \<noteq> Undef \<and> event_entity_id (id i) = Inr i"
  "event_project_id v = Inr t \<Longrightarrow> Str t \<noteq> Undef \<and> event_project_id (Str t) = Inr t"
  "event_encoding v = Inr t \<Longrightarrow> Str t \<noteq> Undef \<and> event_encoding (Str t) = Inr t"
  "event_count v = Inr n \<Longrightarrow> Num n \<noteq> Undef \<and> event_count (Num n) = Inr n"
  by (auto simp: event_entity_id_def event_project_id_def event_encoding_def event_count_def rbind_Inr_iff split: jsval.splits if_splits)

lemma back_scope: "normalizeDatastoreSearchScope v = Inr x \<Longrightarrow> normalizeDatastoreSearchScope (opt_value Str x) = Inr x"
  by (auto simp: normalizeDatastoreSearchScope_def opt_value_def split: jsval.splits option.splits if_splits)


lemma back_key_part: "normalizeDatastoreKeyPart v = Inr p \<Longrightarrow> valid_part p"
proof -
  have k: "normalizeDatastoreKind w = Inr s \<Longrightarrow> normalizeDatastoreKind (Str s) = Inr s" for w s
    by (auto simp: normalizeDatastoreKind_def assertSafePhysicalIdentifierLength_def rbind_Inr_iff
        simp del: assertSafeSchemaIdentifier.simps split: if_splits dest: back_identifier)
  assume "normalizeDatastoreKeyPart v = Inr p"
  then show ?thesis
    by (auto simp: normalizeDatastoreKeyPart_def rbind_Inr_iff valid_part_def normalizeDatastoreEntityId_def dest: k)
qed

lemma back_namespace: "normalizeDatastoreNamespace v = Inr n \<Longrightarrow> normalizeDatastoreNamespace (namespace_value n) = Inr n"
  by (auto simp: normalizeDatastoreNamespace_def namespace_value_def split: jsval.splits if_splits)

lemma back_key:
  assumes "normalizeDatastoreKey v = Inr k"
  shows "valid_key k"
proof -
  let ?f = "\<lambda>slot. case slot of
              None \<Rightarrow> Inl ActiveTsValidationError
            | Some p \<Rightarrow>
                if \<not> is_data p then Inl ActiveTsValidationError
                else if \<not> enumerable p then Inl ActiveTsValidationError
                else normalizeDatastoreKeyPart (prop_val p)"
  from assms obtain path w where path: "slots path \<noteq> []" "rlist ?f (slots path) = Inr (key_path k)"
    and n: "normalizeDatastoreNamespace w = Inr (key_namespace k)"
    by (auto simp: normalizeDatastoreKey_def rbind_Inr_iff simp del: rlist_Inr_iff split: if_splits)
  have "valid_part p" if "p \<in> set (key_path k)" for p
    using rlist_member [OF path(2) that] by (auto split: option.splits if_splits dest: back_key_part)
  moreover have "key_path k \<noteq> []" using rlist_length [OF path(2)] path(1) by auto
  ultimately show ?thesis using back_namespace [OF n] by (simp add: valid_key_def list_all_iff)
qed

lemma back_ancestor: "normalizeDatastoreKey v = Inr k \<Longrightarrow> key_value k \<noteq> Undef \<and> normalizeDatastoreKey (key_value k) = Inr k"
proof -
  have "key_value k \<noteq> Undef" by (simp add: key_value_def js_object_def)
  moreover assume "normalizeDatastoreKey v = Inr k"
  ultimately show ?thesis using back_key [of v k] normalize_key [of k k] by blast
qed

lemma normal_symbol_free: "assertSafeDataKeys v = Inr () \<Longrightarrow> symbol_free (normal_data v)"
proof (induction v rule: normal_data.induct)
  case (1 c ps ss)
  show ?case
  proof (cases "c = CPlain \<or> c = CNull")
    case True
    note mem = safe_plain_members [OF "1.prems" True]
    have "symbol_free (normal_data (prop_val p))" if "(k, p) \<in> set ps" "prop_val p \<noteq> Undef" for k p
      using 1 True mem(4) [OF that(1)] that by (cases c) fastforce+
    with True show ?thesis by (auto simp: list_all_iff)
  next
    case False
    with "1.prems" show ?thesis by (cases c) (auto simp: rbind_Inr_iff split: if_splits)
  qed
next
  case (2 es ps ss)
  have "symbol_free (normal_data (prop_val p))" if "Some p \<in> set es" for p
    using 2 safe_array_members [OF "2.prems" that] that by fastforce
  then show ?case by (auto simp: list_all_iff split: option.splits)
qed (auto split: if_splits)

lemma back_data:
  assumes "cloneSafeData v = Inr d" and "symbol_free v"
  shows "cloneSafeData d = Inr d" and "d = Undef \<longleftrightarrow> v = Undef"
proof -
  have s: "assertSafeDataKeys v = Inr ()" using assms(1) by (auto simp: cloneSafeData_def rbind_Inr_iff)
  from clone_normal [OF s assms(2)] assms(1) have d: "d = normal_data v" by simp
  from clone_normal [OF _ normal_symbol_free [OF s]] normal_safe [OF s] normal_idem [OF s]
  show "cloneSafeData d = Inr d" by (simp add: d)
  show "d = Undef \<longleftrightarrow> v = Undef" by (simp add: d)
qed


text \<open>Sanitised events are valid; data that hides an entity key under a symbol is left aside.\<close>

lemma if_error_iff: "(if c then Inl x else m) = Inr y \<longleftrightarrow> \<not> c \<and> m = Inr y"
  by simp

lemma field_symbol_free: "event_field v k = Inr d \<Longrightarrow> is_plain_object v \<Longrightarrow> symbol_free v \<Longrightarrow> symbol_free d"
  by (cases v) (auto simp: event_field_def list_all_iff split: option.splits if_splits dest!: map_of_SomeD)

lemma optional_None: "optional f v = Inr x \<Longrightarrow> x = None \<longleftrightarrow> v = Undef"
  by (auto simp: optional_def rbind_Inr_iff split: if_splits)

lemma event_data_valid:
  "(if v = Undef then Inr Undef else cloneSafeData v) = Inr d \<Longrightarrow> symbol_free v \<Longrightarrow>
   (d \<noteq> Undef \<longrightarrow> cloneSafeData d = Inr d) \<and> (d = Undef \<longleftrightarrow> v = Undef)"
  using back_data [of v d] by (auto split: if_splits)

lemma outbox_record_same: "outbox_record v = Inr w \<Longrightarrow> w = v"
  by (auto simp: outbox_record_def split: if_splits)


lemma optional_fields:
  "optional assertSafeCacheKey v = Inr s \<Longrightarrow> optional assertSafeCacheKey (opt_value Str s) = Inr s"
  "optional assertCanonicalIsoTimestamp v = Inr s \<Longrightarrow> optional assertCanonicalIsoTimestamp (opt_value Str s) = Inr s"
  "optional normalizeDatastoreKey v = Inr k \<Longrightarrow> optional normalizeDatastoreKey (opt_value key_value k) = Inr k"
  "optional event_entity_id v = Inr i \<Longrightarrow> optional event_entity_id (opt_value id i) = Inr i"
  "optional event_project_id v = Inr s \<Longrightarrow> optional event_project_id (opt_value Str s) = Inr s"
  "optional event_encoding v = Inr s \<Longrightarrow> optional event_encoding (opt_value Str s) = Inr s"
  "optional event_count v = Inr n \<Longrightarrow> optional event_count (opt_value Num n) = Inr n"
  by (erule optional_back, blast dest: back_cache_key back_timestamp back_ancestor back_simple)+

lemma event_eq:
  assumes "Inr \<lparr>ev_id = a1, ev_model = a2, ev_operation = a3, ev_createdAt = a4, ev_data = a5, ev_modelDatastoreScope = a6, ev_modelId = a7,
    ev_modelIdentity = a8, ev_modelDatastoreAncestor = a9, ev_modelDatastoreProjectId = a10, ev_dataEncoding = a11,
    ev_reconcileFromStore = a12, ev_sequence = a13, ev_version = a14, ev_leaseToken = a15, ev_leaseExpiresAt = a16,
    ev_deliveryAttempts = a17, ev_availableAt = a18, ev_deadLetteredAt = a19, ev_lastDeliveryError = a20\<rparr> = Inr e"
  shows "ev_id e = a1" "ev_model e = a2" "ev_operation e = a3" "ev_createdAt e = a4" "ev_data e = a5" "ev_modelDatastoreScope e = a6"
    "ev_modelId e = a7" "ev_modelIdentity e = a8" "ev_modelDatastoreAncestor e = a9" "ev_modelDatastoreProjectId e = a10"
    "ev_dataEncoding e = a11" "ev_reconcileFromStore e = a12" "ev_sequence e = a13" "ev_version e = a14" "ev_leaseToken e = a15"
    "ev_leaseExpiresAt e = a16" "ev_deliveryAttempts e = a17" "ev_availableAt e = a18" "ev_deadLetteredAt e = a19"
    "ev_lastDeliveryError e = a20"
  using assms by auto

lemma sanitized_event_valid:
  assumes "sanitizeOutboxEvent v r = Inr e" and "symbol_free v"
  shows "valid_event e"
proof -
  have v: "outbox_record v = Inr v" using assms(1)
    by (auto simp: sanitizeOutboxEvent_def rbind_Inr_iff dest: outbox_record_same)
  then have plain: "is_plain_object v" by (auto simp: outbox_record_def split: if_splits)
  note d = event_data_valid [OF _ field_symbol_free [OF _ plain assms(2)]]
  from assms(1) show ?thesis
    unfolding sanitizeOutboxEvent_def v rbind.simps unfolding rbind_Inr_iff if_error_iff
  proof (elim exE conjE, goal_cases)
    case prems: (1 x0 x1)
    note none = optional_None [OF prems(30)] optional_None [OF prems(41)] optional_None [OF prems(42)] optional_None [OF prems(44)]
    show ?case
      unfolding valid_event_def event_eq [OF prems(46)]
    proof (intro conjI, goal_cases)
      case 4 from d [OF prems(39,13)] show ?case by blast
    next
      case 19 from d [OF prems(39,13)] none prems(31) show ?case by blast
    next
      case 20 from none prems(35) show ?case by blast
    next
      case 21 from none prems(36) show ?case by blast
    qed (rule back_cache_key [OF prems(3), THEN conjunct2] back_identifier [OF prems(5)] back_timestamp [OF prems(38), THEN conjunct2]
        back_scope [OF prems(12)] optional_fields(4) [OF prems(26)] optional_fields(1) [OF prems(27)] optional_fields(5) [OF prems(28)]
        optional_fields(3) [OF prems(29)] optional_fields(6) [OF prems(30)] optional_fields(7) [OF prems(33)] optional_fields(7) [OF prems(34)]
        optional_fields(1) [OF prems(40)] optional_fields(1) [OF prems(41)] optional_fields(2) [OF prems(42)]
        optional_fields(2) [OF prems(43)] optional_fields(2) [OF prems(44)] optional_fields(1) [OF prems(45)])+
  qed
qed

end
