(* ===== verification/OutboxQueue.thy ===== *)
theory OutboxQueue
  imports OutboxEvent
begin

text \<open>
  \<open>src/core/outbox-protocol.ts\<close>: versions, leases, availability and order keys of outbox events, and
  \<open>src/core/outbox-memory.ts\<close>: the queue of the memory outbox. A call is a sequence of steps, written in the order of the
  code's statements: a step that throws ends the call and leaves the queue as the steps before it have made it. The
  digest of document identities is a parameter; the clock is an argument.
\<close>

section \<open>Versions, leases, availability\<close>

definition outboxEventVersion :: "OutboxEvent \<Rightarrow> jsnum" where
  "outboxEventVersion e = (case ev_version e of None \<Rightarrow> Fin 0 | Some v \<Rightarrow> v)"

text \<open>Adding one is exact for a safe integer; the largest one gives \<open>2 ^ 53\<close>, which is not safe.\<close>

definition next_version :: "OutboxEvent \<Rightarrow> jsnum" where
  "next_version e = num_of_int (int_of_num (outboxEventVersion e) + 1)"

definition withOutboxLease :: "OutboxEvent \<Rightarrow> string \<Rightarrow> string \<Rightarrow> OutboxEvent" where
  "withOutboxLease e leaseToken leaseExpiresAt =
     e\<lparr>ev_version := Some (next_version e), ev_leaseToken := Some leaseToken, ev_leaseExpiresAt := Some leaseExpiresAt\<rparr>"

definition withoutOutboxLease :: "OutboxEvent \<Rightarrow> OutboxEvent" where
  "withoutOutboxLease e = e\<lparr>ev_version := Some (next_version e), ev_leaseToken := None, ev_leaseExpiresAt := None\<rparr>"

definition isOutboxLeaseActive :: "OutboxEvent \<Rightarrow> int \<Rightarrow> bool" where
  "isOutboxLeaseActive e now = (case (ev_leaseToken e, ev_leaseExpiresAt e) of
     (Some _, Some s) \<Rightarrow> (case dateParse s of None \<Rightarrow> False | Some t \<Rightarrow> now < t)
   | _ \<Rightarrow> False)"

definition isOutboxLeaseCurrent :: "OutboxEvent \<Rightarrow> string \<Rightarrow> int \<Rightarrow> bool" where
  "isOutboxLeaseCurrent e leaseToken now = (ev_leaseToken e = Some leaseToken \<and> isOutboxLeaseActive e now)"

definition isOutboxDeliveryAvailable :: "OutboxEvent \<Rightarrow> int \<Rightarrow> bool" where
  "isOutboxDeliveryAvailable e now = (case ev_availableAt e of
     None \<Rightarrow> True
   | Some s \<Rightarrow> (case dateParse s of None \<Rightarrow> False | Some t \<Rightarrow> t \<le> now))"

definition outboxEntityIdMatches :: "jsval option \<Rightarrow> jsval option \<Rightarrow> bool res" where
  "outboxEntityIdMatches left right = (case (left, right) of
     (Some l, Some r) \<Rightarrow> rbind (entityIdKey l) (\<lambda>i. rbind (entityIdKey r) (\<lambda>j. Inr (i = j)))
   | (None, None) \<Rightarrow> Inr True
   | _ \<Rightarrow> Inr False)"

definition outboxDatastoreAncestorMatches :: "DatastoreKey option \<Rightarrow> DatastoreKey option \<Rightarrow> bool res" where
  "outboxDatastoreAncestorMatches left right = (case (left, right) of
     (Some l, Some r) \<Rightarrow> rbind (datastoreKeyIdentity l) (\<lambda>i. rbind (datastoreKeyIdentity r) (\<lambda>j. Inr (i = j)))
   | (None, None) \<Rightarrow> Inr True
   | _ \<Rightarrow> Inr False)"

section \<open>Order keys\<close>

definition outboxEntityOrderKeys :: "(string \<Rightarrow> string) \<Rightarrow> OutboxEvent \<Rightarrow> string list res" where
  "outboxEntityOrderKeys digest e =
     rbind (if (ev_modelDatastoreAncestor e \<noteq> None \<or> ev_modelDatastoreScope e \<noteq> None) \<and> ev_modelId e \<noteq> None
            then rbind (datastoreSearchDocumentIdentity digest (ev_model e) (ev_modelDatastoreScope e) (the (ev_modelId e))
                          (ev_modelDatastoreAncestor e) None) (\<lambda>i. Inr [ev_model e @ '':'' @ i])
            else Inr []) (\<lambda>ancestorKeys.
     let keys = (case ev_modelIdentity e of None \<Rightarrow> [] | Some i \<Rightarrow> [ev_model e @ '':'' @ i]) @ ancestorKeys in
     if keys \<noteq> [] then Inr keys
     else case ev_modelId e of
         None \<Rightarrow> Inr [''event:'' @ ev_id e]
       | Some i \<Rightarrow> rbind (entityIdKey i) (\<lambda>k. Inr [ev_model e @ '':'' @ k]))"

definition outboxIsDatastoreIdentityOnlyEvent :: "OutboxEvent \<Rightarrow> bool" where
  "outboxIsDatastoreIdentityOnlyEvent e = (ev_modelId e \<noteq> None \<and> ev_modelDatastoreAncestor e = None
     \<and> (case ev_modelIdentity e of None \<Rightarrow> False | Some i \<Rightarrow> starts_with i ''datastore:''))"

definition outboxIsNamespaceLessDatastoreAncestorEvent :: "OutboxEvent \<Rightarrow> bool" where
  "outboxIsNamespaceLessDatastoreAncestorEvent e = (ev_modelId e \<noteq> None
     \<and> (case ev_modelDatastoreAncestor e of None \<Rightarrow> False | Some k \<Rightarrow> key_namespace k = None))"

definition outboxDatastoreAliasKey :: "OutboxEvent \<Rightarrow> string \<Rightarrow> string res" where
  "outboxDatastoreAliasKey e kind = (case ev_modelId e of
     None \<Rightarrow> Inl JsTypeError
   | Some i \<Rightarrow> rbind (entityIdKey i) (\<lambda>k.
       Inr (ev_model e @ '':datastore-'' @ kind @ ''-namespace-alias:'' @ json_array [ev_modelDatastoreScope e, Some k])))"

definition alias_key :: "bool \<Rightarrow> OutboxEvent \<Rightarrow> string \<Rightarrow> string option res" where
  "alias_key applies e kind = (if applies then rbind (outboxDatastoreAliasKey e kind) (\<lambda>k. Inr (Some k)) else Inr None)"

definition outboxIdentityOnlyDatastoreCheckAliasKey :: "OutboxEvent \<Rightarrow> string option res" where
  "outboxIdentityOnlyDatastoreCheckAliasKey e = alias_key (outboxIsDatastoreIdentityOnlyEvent e) e ''namespace-less-ancestor''"

definition outboxIdentityOnlyDatastoreBlockAliasKey :: "OutboxEvent \<Rightarrow> string option res" where
  "outboxIdentityOnlyDatastoreBlockAliasKey e = alias_key (outboxIsDatastoreIdentityOnlyEvent e) e ''identity-only''"

definition outboxNamespaceLessDatastoreAncestorCheckAliasKey :: "OutboxEvent \<Rightarrow> string option res" where
  "outboxNamespaceLessDatastoreAncestorCheckAliasKey e = alias_key (outboxIsNamespaceLessDatastoreAncestorEvent e) e ''identity-only''"

definition outboxNamespaceLessDatastoreAncestorBlockAliasKey :: "OutboxEvent \<Rightarrow> string option res" where
  "outboxNamespaceLessDatastoreAncestorBlockAliasKey e =
     alias_key (outboxIsNamespaceLessDatastoreAncestorEvent e) e ''namespace-less-ancestor''"

definition appendOutboxEntityOrderKey :: "string list \<Rightarrow> string option \<Rightarrow> string list" where
  "appendOutboxEntityOrderKey keys key = (case key of None \<Rightarrow> keys | Some k \<Rightarrow> if k \<in> set keys then keys else keys @ [k])"

definition outboxEntityOrderCheckKeys :: "(string \<Rightarrow> string) \<Rightarrow> OutboxEvent \<Rightarrow> string list res" where
  "outboxEntityOrderCheckKeys digest e =
     rbind (outboxEntityOrderKeys digest e) (\<lambda>keys.
     rbind (outboxIdentityOnlyDatastoreCheckAliasKey e) (\<lambda>a.
     rbind (outboxNamespaceLessDatastoreAncestorCheckAliasKey e) (\<lambda>b.
     Inr (appendOutboxEntityOrderKey (appendOutboxEntityOrderKey keys a) b))))"

definition outboxEntityOrderBlockKeys :: "(string \<Rightarrow> string) \<Rightarrow> OutboxEvent \<Rightarrow> string list res" where
  "outboxEntityOrderBlockKeys digest e =
     rbind (outboxEntityOrderKeys digest e) (\<lambda>keys.
     rbind (outboxIdentityOnlyDatastoreBlockAliasKey e) (\<lambda>a.
     rbind (outboxNamespaceLessDatastoreAncestorBlockAliasKey e) (\<lambda>b.
     Inr (appendOutboxEntityOrderKey (appendOutboxEntityOrderKey keys a) b))))"

definition outboxEntityOrderKeysBlocked :: "string list \<Rightarrow> string list \<Rightarrow> bool" where
  "outboxEntityOrderKeysBlocked blocked keys = list_ex (\<lambda>k. k \<in> set blocked) keys"

definition blockOutboxEntityOrderKeys :: "string list \<Rightarrow> string list \<Rightarrow> string list" where
  "blockOutboxEntityOrderKeys blocked keys = blocked @ keys"

section \<open>Identities of deliveries\<close>

definition outboxIdentityOrderKeys :: "OutboxEventIdentity \<Rightarrow> nat \<Rightarrow> string list res" where
  "outboxIdentityOrderKeys identity index = (case (oi_model identity, oi_modelIdentity identity, oi_modelId identity, oi_id identity) of
     (Some m, Some i, _, _) \<Rightarrow> Inr [m @ '':'' @ i]
   | (Some m, None, Some i, _) \<Rightarrow> rbind (entityIdKey i) (\<lambda>k. Inr [m @ '':'' @ k])
   | (_, _, _, Some i) \<Rightarrow> Inr [''event:'' @ i]
   | _ \<Rightarrow> Inr [''malformed:'' @ show_nat index])"

definition outboxOwnDataValue :: "jsval \<Rightarrow> string \<Rightarrow> jsval" where
  "outboxOwnDataValue value property = (case own_prop value property of
     None \<Rightarrow> Undef
   | Some p \<Rightarrow> if is_data p \<and> enumerable p then prop_val p else Undef)"

definition keep :: "(jsval \<Rightarrow> 'a res) \<Rightarrow> jsval \<Rightarrow> 'a option" where
  "keep f v = (case f v of Inl _ \<Rightarrow> None | Inr x \<Rightarrow> Some x)"

definition isCanonicalOutboxTimestamp :: "string \<Rightarrow> bool" where
  "isCanonicalOutboxTimestamp s = (case dateParse s of None \<Rightarrow> False | Some t \<Rightarrow> dateIsoString t = s)"

record OutboxDeliveryIdentitySnapshot =
  sn_identity :: OutboxEventIdentity
  sn_release :: "jsval option"
  sn_check :: "string list"
  sn_block :: "string list"
  sn_attempts :: jsnum

definition no_identity :: OutboxEventIdentity where
  "no_identity = \<lparr>oi_id = None, oi_model = None, oi_modelId = None, oi_modelIdentity = None, oi_leaseToken = None, oi_leaseExpiresAt = None\<rparr>"

definition snapshot_identity :: "jsval \<Rightarrow> OutboxEventIdentity" where
  "snapshot_identity value =
     \<lparr>oi_id = keep assertSafeCacheKey (outboxOwnDataValue value ''id''),
      oi_model = keep assertSafeSchemaIdentifier (outboxOwnDataValue value ''model''),
      oi_modelId = keep event_entity_id (outboxOwnDataValue value ''modelId''),
      oi_modelIdentity = keep assertSafeCacheKey (outboxOwnDataValue value ''modelIdentity''),
      oi_leaseToken = keep assertSafeCacheKey (outboxOwnDataValue value ''leaseToken''),
      oi_leaseExpiresAt = (case outboxOwnDataValue value ''leaseExpiresAt'' of
          Str s \<Rightarrow> if isCanonicalOutboxTimestamp s then Some s else None | _ \<Rightarrow> None)\<rparr>"

definition snapshotOutboxDeliveryIdentity :: "jsval \<Rightarrow> nat \<Rightarrow> OutboxDeliveryIdentitySnapshot res" where
  "snapshotOutboxDeliveryIdentity value index =
     (let obj = is_object value \<and> \<not> is_array value;
          identity = (if obj then snapshot_identity value else no_identity);
          version = (if obj then keep event_count (outboxOwnDataValue value ''version'') else None);
          attempts = (if obj then keep event_count (outboxOwnDataValue value ''deliveryAttempts'') else None);
          release = Obj CNull (map (\<lambda>(k, v). (k, dataP v)) (filter (\<lambda>(k, v). v \<noteq> Undef)
            [(''id'', opt_value Str (oi_id identity)), (''model'', opt_value Str (oi_model identity)),
             (''modelId'', opt_value id (oi_modelId identity)), (''modelIdentity'', opt_value Str (oi_modelIdentity identity)),
             (''leaseToken'', opt_value Str (oi_leaseToken identity)), (''leaseExpiresAt'', opt_value Str (oi_leaseExpiresAt identity)),
             (''version'', opt_value Num version), (''deliveryAttempts'', opt_value Num attempts)])) [] in
      rbind (outboxIdentityOrderKeys identity index) (\<lambda>keys.
      Inr \<lparr>sn_identity = identity, sn_release = (if oi_id identity = None then None else Some release), sn_check = keys, sn_block = keys,
           sn_attempts = (case attempts of None \<Rightarrow> Fin 0 | Some n \<Rightarrow> n)\<rparr>))"

section \<open>Failed deliveries\<close>

definition outboxRetryEvent :: "OutboxDeliveryFailure \<Rightarrow> OutboxEvent res" where
  "outboxRetryEvent failure = (case (df_event failure, df_retryAt failure) of
     (Some e, Some retryAt) \<Rightarrow> sanitizeOutboxEvent (event_value (e\<lparr>ev_version := Some (next_version e),
         ev_deliveryAttempts := Some (df_attempt failure), ev_availableAt := Some retryAt, ev_deadLetteredAt := None,
         ev_lastDeliveryError := Some (df_error failure), ev_leaseToken := None, ev_leaseExpiresAt := None\<rparr>)) False
   | _ \<Rightarrow> Inl ActiveTsConfigurationError)"

definition outboxDeadLetterEvent :: "OutboxDeliveryFailure \<Rightarrow> OutboxEvent res" where
  "outboxDeadLetterEvent failure = (case df_event failure of
     Some e \<Rightarrow> sanitizeOutboxEvent (event_value (e\<lparr>ev_version := Some (next_version e),
         ev_deliveryAttempts := Some (df_attempt failure), ev_availableAt := None, ev_deadLetteredAt := Some (df_failedAt failure),
         ev_lastDeliveryError := Some (df_error failure), ev_leaseToken := None, ev_leaseExpiresAt := None\<rparr>)) False
   | None \<Rightarrow> Inl ActiveTsConfigurationError)"

section \<open>The memory outbox\<close>

record memory_outbox =
  mo_events :: "OutboxEvent list"
  mo_deadLetters :: "OutboxEvent list"

definition new_outbox :: memory_outbox where
  "new_outbox = \<lparr>mo_events = [], mo_deadLetters = []\<rparr>"

fun available_ids :: "string list \<Rightarrow> string list \<Rightarrow> OutboxEvent list \<Rightarrow> unit res" where
  "available_ids existing incoming [] = Inr ()"
| "available_ids existing incoming (e # es) =
     (if ev_id e \<in> set incoming then Inl ActiveTsConflictError
      else if ev_id e \<in> set existing then Inl ActiveTsConflictError
      else available_ids existing (incoming @ [ev_id e]) es)"

definition assertAvailableIds :: "memory_outbox \<Rightarrow> OutboxEvent list \<Rightarrow> unit res" where
  "assertAvailableIds q es = available_ids (map ev_id (mo_events q)) [] es"

definition resanitize :: "OutboxEvent list \<Rightarrow> OutboxEvent list res" where
  "resanitize = rlist (\<lambda>e. sanitizeOutboxEvent (event_value e) False)"

definition replaceMemoryOutboxEvents :: "OutboxEvent list \<Rightarrow> memory_outbox \<Rightarrow> memory_outbox" where
  "replaceMemoryOutboxEvents es q = q\<lparr>mo_events := es\<rparr>"

definition prependMemoryOutboxEvents :: "OutboxEvent list \<Rightarrow> memory_outbox \<Rightarrow> memory_outbox" where
  "prependMemoryOutboxEvents prefix q = q\<lparr>mo_events := prefix @ mo_events q\<rparr>"

text \<open>Steps: computations that read the queue, changes of the queue, and their sequence.\<close>

type_synonym 'a queue_step = "memory_outbox \<Rightarrow> 'a res \<times> memory_outbox"

definition query :: "(memory_outbox \<Rightarrow> 'a res) \<Rightarrow> 'a queue_step" where
  "query g = (\<lambda>q. (g q, q))"

definition change :: "(memory_outbox \<Rightarrow> memory_outbox) \<Rightarrow> unit queue_step" where
  "change f = (\<lambda>q. (Inr (), f q))"

definition step_bind :: "'a queue_step \<Rightarrow> ('a \<Rightarrow> 'b queue_step) \<Rightarrow> 'b queue_step" where
  "step_bind m f = (\<lambda>q. case m q of (Inl e, q') \<Rightarrow> (Inl e, q') | (Inr x, q') \<Rightarrow> f x q')"

definition outbox_append :: "jsval \<Rightarrow> OutboxEvent queue_step" where
  "outbox_append event =
     step_bind (query (\<lambda>_. sanitizeOutboxEvent event False)) (\<lambda>normalized.
     step_bind (query (\<lambda>q. assertAvailableIds q [normalized])) (\<lambda>_.
     step_bind (change (\<lambda>q. q\<lparr>mo_events := mo_events q @ [normalized]\<rparr>)) (\<lambda>_.
     query (\<lambda>_. sanitizeOutboxEvent (event_value normalized) False))))"

definition outbox_list :: "memory_outbox \<Rightarrow> OutboxEvent list res" where
  "outbox_list q = resanitize (mo_events q)"

definition outbox_listDeadLetters :: "memory_outbox \<Rightarrow> OutboxEvent list res" where
  "outbox_listDeadLetters q = resanitize (mo_deadLetters q)"

fun drain_loop :: "(string \<Rightarrow> string) \<Rightarrow> jsnum option \<Rightarrow> int \<Rightarrow> string list \<Rightarrow> nat \<Rightarrow> OutboxEvent list \<Rightarrow> (OutboxEvent list \<times> OutboxEvent list) res" where
  "drain_loop digest limit now blocked n [] = Inr ([], [])"
| "drain_loop digest limit now blocked n (stored # rest) =
     rbind (sanitizeOutboxEvent (event_value stored) False) (\<lambda>e.
     if ev_deadLetteredAt e \<noteq> None
     then rbind (drain_loop digest limit now blocked n rest) (\<lambda>(d, r). Inr (d, e # r))
     else rbind (outboxEntityOrderCheckKeys digest e) (\<lambda>checkOrderKeys.
       rbind (outboxEntityOrderBlockKeys digest e) (\<lambda>blockOrderKeys.
       if (case limit of None \<Rightarrow> False | Some l \<Rightarrow> num_value l \<le> of_nat n) \<or> outboxEntityOrderKeysBlocked blocked checkOrderKeys
       then rbind (drain_loop digest limit now blocked n rest) (\<lambda>(d, r). Inr (d, e # r))
       else if \<not> isOutboxDeliveryAvailable e now
       then rbind (drain_loop digest limit now (blockOutboxEntityOrderKeys blocked blockOrderKeys) n rest) (\<lambda>(d, r). Inr (d, e # r))
       else rbind (drain_loop digest limit now blocked (Suc n) rest) (\<lambda>(d, r). Inr (e # d, r)))))"

definition outbox_drain :: "(string \<Rightarrow> string) \<Rightarrow> jsval \<Rightarrow> int \<Rightarrow> OutboxEvent list queue_step" where
  "outbox_drain digest options now =
     step_bind (query (\<lambda>_. normalizeOutboxBatchLimit options)) (\<lambda>limit.
     step_bind (query (\<lambda>q. drain_loop digest limit now [] 0 (mo_events q))) (\<lambda>(drained, retained).
     step_bind (change (replaceMemoryOutboxEvents retained)) (\<lambda>_.
     query (\<lambda>_. Inr drained))))"

definition outbox_requeue :: "jsval \<Rightarrow> unit queue_step" where
  "outbox_requeue events =
     step_bind (query (\<lambda>_. snapshotArrayInput events)) (\<lambda>safeEvents.
     step_bind (query (\<lambda>_. rlist (\<lambda>v. sanitizeOutboxEvent v False) safeEvents)) (\<lambda>normalized.
     step_bind (query (\<lambda>q. assertAvailableIds q normalized)) (\<lambda>_.
     change (prependMemoryOutboxEvents normalized))))"

definition outbox_retry :: "jsval \<Rightarrow> unit queue_step" where
  "outbox_retry failures =
     step_bind (query (\<lambda>_. sanitizeOutboxDeliveryFailureBatch failures True)) (\<lambda>normalized.
     step_bind (query (\<lambda>_. rlist outboxRetryEvent normalized)) (\<lambda>events.
     step_bind (query (\<lambda>q. assertAvailableIds q events)) (\<lambda>_.
     change (prependMemoryOutboxEvents events))))"

text \<open>The two loops of \<open>deadLetter\<close>: the first checks and collects, the second stores.\<close>

fun dead_letter_loop :: "string list \<Rightarrow> OutboxDeliveryFailure list \<Rightarrow> OutboxEvent list queue_step" where
  "dead_letter_loop existing [] = query (\<lambda>_. Inr [])"
| "dead_letter_loop existing (f # fs) =
     step_bind (query (\<lambda>_. outboxDeadLetterEvent f)) (\<lambda>e.
     if ev_id e \<in> set existing then query (\<lambda>_. Inl ActiveTsConflictError)
     else step_bind (dead_letter_loop (existing @ [ev_id e]) fs) (\<lambda>es. query (\<lambda>_. Inr (e # es))))"

fun store_dead_letters :: "OutboxEvent list \<Rightarrow> unit queue_step" where
  "store_dead_letters [] = query (\<lambda>_. Inr ())"
| "store_dead_letters (e # es) =
     step_bind (change (\<lambda>q. q\<lparr>mo_deadLetters := mo_deadLetters q @ [e]\<rparr>)) (\<lambda>_. store_dead_letters es)"

definition outbox_deadLetter :: "jsval \<Rightarrow> unit queue_step" where
  "outbox_deadLetter failures =
     step_bind (query (\<lambda>_. sanitizeOutboxDeliveryFailureBatch failures True)) (\<lambda>normalized.
     step_bind (query (\<lambda>q. Inr (map ev_id (mo_deadLetters q)))) (\<lambda>existing.
     step_bind (dead_letter_loop existing normalized) store_dead_letters))"

section \<open>Rules for steps\<close>

named_theorems queue_simps

lemma query_iff [queue_simps]: "query g q = (r, q') \<longleftrightarrow> g q = r \<and> q' = q"
  by (auto simp: query_def)

lemma change_iff [queue_simps]: "change f q = (r, q') \<longleftrightarrow> r = Inr () \<and> q' = f q"
  by (auto simp: change_def)

lemma step_bind_Inr_iff [queue_simps]:
  "step_bind m f q = (Inr y, q'') \<longleftrightarrow> (\<exists>x q'. m q = (Inr x, q') \<and> f x q' = (Inr y, q''))"
  by (auto simp: step_bind_def split: prod.splits sum.splits)

lemma step_bind_Inl_iff [queue_simps]:
  "step_bind m f q = (Inl e, q'') \<longleftrightarrow> m q = (Inl e, q'') \<or> (\<exists>x q'. m q = (Inr x, q') \<and> f x q' = (Inl e, q''))"
  by (auto simp: step_bind_def split: prod.splits sum.splits)

lemma store_dead_letters_eq: "store_dead_letters es q = (Inr (), q\<lparr>mo_deadLetters := mo_deadLetters q @ es\<rparr>)"
  by (induction es arbitrary: q) (simp_all add: step_bind_def change_def query_def)

lemma dead_letter_loop_keeps: "dead_letter_loop existing fs q = (r, q') \<Longrightarrow> q' = q"
  by (induction fs arbitrary: existing r q')
    (auto simp: step_bind_def query_def split: prod.splits sum.splits if_splits)

section \<open>Draining\<close>

lemma resanitize_valid: "list_all valid_event es \<Longrightarrow> resanitize es = Inr es"
  by (induction es) (simp_all add: resanitize_def sanitize_valid)

text \<open>One step of the loop on a valid event, by what happens to the event.\<close>

lemma drain_cases:
  assumes "drain_loop digest limit now blocked n (e # rest) = Inr (d, r)" and "valid_event e"
  obtains (dead) r' where "ev_deadLetteredAt e \<noteq> None" "drain_loop digest limit now blocked n rest = Inr (d, r')" "r = e # r'"
  | (held) c r' where "outboxEntityOrderCheckKeys digest e = Inr c" "ev_deadLetteredAt e = None"
      "(case limit of None \<Rightarrow> False | Some l \<Rightarrow> num_value l \<le> of_nat n) \<or> outboxEntityOrderKeysBlocked blocked c"
      "drain_loop digest limit now blocked n rest = Inr (d, r')" "r = e # r'"
  | (waiting) c b r' where "outboxEntityOrderCheckKeys digest e = Inr c" "outboxEntityOrderBlockKeys digest e = Inr b"
      "ev_deadLetteredAt e = None" "\<not> isOutboxDeliveryAvailable e now"
      "drain_loop digest limit now (blocked @ b) n rest = Inr (d, r')" "r = e # r'"
  | (delivered) c d' where "outboxEntityOrderCheckKeys digest e = Inr c" "ev_deadLetteredAt e = None"
      "\<not> (case limit of None \<Rightarrow> False | Some l \<Rightarrow> num_value l \<le> of_nat n)" "\<not> outboxEntityOrderKeysBlocked blocked c"
      "isOutboxDeliveryAvailable e now" "drain_loop digest limit now blocked (Suc n) rest = Inr (d', r)" "d = e # d'"
proof -
  show thesis
  proof (cases "ev_deadLetteredAt e = None")
    case False
    with assms show thesis by (auto simp: sanitize_valid rbind_Inr_iff intro: dead)
  next
    case True
    with assms obtain c b where cb: "outboxEntityOrderCheckKeys digest e = Inr c" "outboxEntityOrderBlockKeys digest e = Inr b"
      by (auto simp: sanitize_valid rbind_Inr_iff)
    consider "(case limit of None \<Rightarrow> False | Some l \<Rightarrow> num_value l \<le> of_nat n) \<or> outboxEntityOrderKeysBlocked blocked c"
      | "\<not> ((case limit of None \<Rightarrow> False | Some l \<Rightarrow> num_value l \<le> of_nat n) \<or> outboxEntityOrderKeysBlocked blocked c)"
        "\<not> isOutboxDeliveryAvailable e now"
      | "\<not> ((case limit of None \<Rightarrow> False | Some l \<Rightarrow> num_value l \<le> of_nat n) \<or> outboxEntityOrderKeysBlocked blocked c)"
        "isOutboxDeliveryAvailable e now" by blast
    then show thesis
    proof cases
      case 1
      with assms True cb show thesis by (auto simp: sanitize_valid rbind_Inr_iff intro!: held)
    next
      case 2
      with assms True cb show thesis by (auto simp: sanitize_valid rbind_Inr_iff blockOutboxEntityOrderKeys_def intro!: waiting)
    next
      case 3
      with assms True cb show thesis by (auto simp: sanitize_valid rbind_Inr_iff intro!: delivered)
    qed
  qed
qed

lemma drain_full: "num_value l \<le> of_nat n \<Longrightarrow> list_all valid_event es \<Longrightarrow> drain_loop digest (Some l) now blocked n es = Inr (d, r) \<Longrightarrow> d = []"
proof (induction es arbitrary: blocked d r)
  case (Cons e es)
  from Cons.prems have v: "valid_event e" "list_all valid_event es" by simp_all
  from Cons.prems(3) v(1) show ?case
    by (cases rule: drain_cases) (use Cons.IH [OF Cons.prems(1) v(2)] Cons.prems(1) in auto)
qed simp

lemma drain_split:
  assumes "list_all valid_event es" and "distinct es" and "drain_loop digest limit now blocked n es = Inr (d, r)"
  shows "set d \<subseteq> set es \<and> d = filter (\<lambda>e. e \<in> set d) es \<and> r = filter (\<lambda>e. e \<notin> set d) es
    \<and> (\<forall>e \<in> set d. ev_deadLetteredAt e = None \<and> isOutboxDeliveryAvailable e now
        \<and> (\<exists>c. outboxEntityOrderCheckKeys digest e = Inr c \<and> \<not> outboxEntityOrderKeysBlocked blocked c))"
  using assms
proof (induction es arbitrary: blocked n d r)
  case (Cons e es)
  from Cons.prems have v: "valid_event e" "list_all valid_event es" "distinct es" "e \<notin> set es" by simp_all
  from Cons.prems(3) v(1) show ?case
  proof (cases rule: drain_cases)
    case (dead r')
    from Cons.IH [OF v(2,3) dead(2)] v(4) dead(3) show ?thesis by auto
  next
    case (held c r')
    from Cons.IH [OF v(2,3) held(4)] v(4) held(5) show ?thesis by auto
  next
    case (waiting c b r')
    from Cons.IH [OF v(2,3) waiting(5)] v(4) waiting(6) show ?thesis
      by (auto simp: outboxEntityOrderKeysBlocked_def list_ex_iff)
  next
    case (delivered c d')
    have d: "filter (\<lambda>x. x \<in> set (e # d')) es = filter (\<lambda>x. x \<in> set d') es" "filter (\<lambda>x. x \<notin> set (e # d')) es = filter (\<lambda>x. x \<notin> set d') es"
      using v(4) by (auto intro: filter_cong)
    note IH = Cons.IH [OF v(2,3) delivered(6)]
    have "d = filter (\<lambda>x. x \<in> set d) (e # es)" "r = filter (\<lambda>x. x \<notin> set d) (e # es)"
      using IH unfolding delivered(7) by (simp_all only: filter.simps d) auto
    with IH delivered show ?thesis by auto
  qed
qed simp

lemma drain_bound:
  assumes "list_all valid_event es" and "num_value l = of_nat m" and "n \<le> m" and "drain_loop digest (Some l) now blocked n es = Inr (d, r)"
  shows "n + length d \<le> m"
  using assms
proof (induction es arbitrary: blocked n d r)
  case (Cons e es)
  from Cons.prems have v: "valid_event e" "list_all valid_event es" by simp_all
  from Cons.prems(4) v(1) show ?case
  proof (cases rule: drain_cases)
    case (delivered c d')
    then have "Suc n \<le> m" using Cons.prems(2) by simp
    from Cons.IH [OF v(2) Cons.prems(2) this delivered(6)] delivered(7) show ?thesis by simp
  qed (use Cons.IH [OF v(2) Cons.prems(2,3)] in auto)
qed simp


lemma append_keys: "set keys \<subseteq> set (appendOutboxEntityOrderKey keys key)"
  by (auto simp: appendOutboxEntityOrderKey_def split: option.splits)

text \<open>Every order key of an event is among the keys it checks and among the keys it blocks.\<close>

lemma order_keys_shared:
  assumes "outboxEntityOrderCheckKeys digest e = Inr c" and "outboxEntityOrderBlockKeys digest e = Inr b"
  shows "\<exists>k. k \<in> set c \<and> k \<in> set b"
proof -
  have sub: "set keys \<subseteq> set (appendOutboxEntityOrderKey (appendOutboxEntityOrderKey keys a) a')" for keys a a'
    using append_keys [of keys a] append_keys [of "appendOutboxEntityOrderKey keys a" a'] by (rule subset_trans)
  from assms(1) obtain ks where ks: "outboxEntityOrderKeys digest e = Inr ks" "set ks \<subseteq> set c"
    unfolding outboxEntityOrderCheckKeys_def rbind_Inr_iff using sub by blast
  from assms(2) ks(1) have "set ks \<subseteq> set b"
    unfolding outboxEntityOrderBlockKeys_def rbind_Inr_iff using sub by auto
  moreover have "ks \<noteq> []" using ks(1)
    by (auto simp: outboxEntityOrderKeys_def rbind_Inr_iff Let_def split: option.splits if_splits)
  ultimately show ?thesis using ks(2) by (cases ks) auto
qed

lemma drain_order:
  assumes "list_all valid_event (xs @ e1 # ys)" and "distinct (xs @ e1 # ys)"
    and "drain_loop digest limit now blocked n (xs @ e1 # ys) = Inr (d, r)" and "ev_deadLetteredAt e1 = None"
    and "outboxEntityOrderCheckKeys digest e1 = outboxEntityOrderCheckKeys digest e2" and "e2 \<in> set ys" and "e2 \<in> set d"
  shows "e1 \<in> set d"
  using assms
proof (induction xs arbitrary: blocked n d r)
  case Nil
  then have v: "valid_event e1" "list_all valid_event ys" "distinct ys" "e1 \<notin> set ys" by simp_all
  from Nil.prems(3) have "drain_loop digest limit now blocked n (e1 # ys) = Inr (d, r)" by simp
  from this v(1) show ?case
  proof (cases rule: drain_cases)
    case (dead r')
    with Nil.prems(4) show ?thesis by simp
  next
    case (held c r')
    from drain_split [OF v(2,3) held(4)] Nil.prems(7) held(1) Nil.prems(5)
    have "\<not> outboxEntityOrderKeysBlocked blocked c" by auto
    with held(3) obtain l where "limit = Some l" "num_value l \<le> of_nat n" by (auto split: option.splits)
    with drain_full [of l n ys digest now blocked d r'] held(4) v(2) Nil.prems(7) show ?thesis by simp
  next
    case (waiting c b r')
    obtain k where "k \<in> set c" "k \<in> set b" using order_keys_shared [OF waiting(1,2)] by blast
    moreover from drain_split [OF v(2,3) waiting(5)] Nil.prems(7) waiting(1) Nil.prems(5)
    have "\<not> outboxEntityOrderKeysBlocked (blocked @ b) c" by auto
    ultimately show ?thesis by (auto simp: outboxEntityOrderKeysBlocked_def list_ex_iff)
  next
    case (delivered c d')
    then show ?thesis by simp
  qed
next
  case (Cons x xs)
  have v: "valid_event x" "list_all valid_event (xs @ e1 # ys)" "distinct (xs @ e1 # ys)" using Cons.prems(1,2) by simp_all
  have "x \<notin> set ys" using Cons.prems(2) by simp
  with Cons.prems(6) have v4: "x \<noteq> e2" by blast
  from Cons.prems(3) have "drain_loop digest limit now blocked n (x # xs @ e1 # ys) = Inr (d, r)" by simp
  from this v(1) show ?case
  proof (cases rule: drain_cases)
    case (dead r')
    from Cons.IH [OF v(2,3) dead(2) Cons.prems(4-7)] show ?thesis .
  next
    case (held c r')
    from Cons.IH [OF v(2,3) held(4) Cons.prems(4-7)] show ?thesis .
  next
    case (waiting c b r')
    from Cons.IH [OF v(2,3) waiting(5) Cons.prems(4-7)] show ?thesis .
  next
    case (delivered c d')
    then have "e2 \<in> set d'" using Cons.prems(7) v4 by simp
    from Cons.IH [OF v(2,3) delivered(6) Cons.prems(4-6) this] delivered(7) show ?thesis by simp
  qed
qed

lemma drain_progress:
  assumes "list_all valid_event (xs @ e # ys)" and "drain_loop digest None now blocked n (xs @ e # ys) = Inr (d, r)"
    and "ev_deadLetteredAt e = None" and "isOutboxDeliveryAvailable e now" and "outboxEntityOrderCheckKeys digest e = Inr c"
    and "set c \<inter> set blocked = {}" and "\<forall>x \<in> set xs. \<forall>b. ev_deadLetteredAt x = None \<longrightarrow> \<not> isOutboxDeliveryAvailable x now \<longrightarrow>
          outboxEntityOrderBlockKeys digest x = Inr b \<longrightarrow> set c \<inter> set b = {}"
  shows "e \<in> set d"
  using assms
proof (induction xs arbitrary: blocked n d r)
  case Nil
  then have v: "valid_event e" and run: "drain_loop digest None now blocked n (e # ys) = Inr (d, r)" by simp_all
  from run v show ?case
    by (cases rule: drain_cases) (use Nil.prems in \<open>auto simp: outboxEntityOrderKeysBlocked_def list_ex_iff\<close>)
next
  case (Cons x xs)
  then have v: "valid_event x" "list_all valid_event (xs @ e # ys)"
    and run: "drain_loop digest None now blocked n (x # xs @ e # ys) = Inr (d, r)"
    and rest: "\<forall>y \<in> set xs. \<forall>b. ev_deadLetteredAt y = None \<longrightarrow> \<not> isOutboxDeliveryAvailable y now \<longrightarrow>
          outboxEntityOrderBlockKeys digest y = Inr b \<longrightarrow> set c \<inter> set b = {}" by simp_all
  note IH = Cons.IH [OF v(2) _ Cons.prems(3,4,5) _ rest]
  from run v(1) show ?case
  proof (cases rule: drain_cases)
    case (dead r')
    from IH [OF dead(2) Cons.prems(6)] show ?thesis .
  next
    case (held c' r')
    from IH [OF held(4) Cons.prems(6)] show ?thesis .
  next
    case (waiting c' b r')
    then have "set c \<inter> set (blocked @ b) = {}" using Cons.prems(6,7) by auto
    from IH [OF waiting(5) this] show ?thesis .
  next
    case (delivered c' d')
    from IH [OF delivered(6) Cons.prems(6)] delivered(7) show ?thesis by simp
  qed
qed

lemma drain_loop_succeeds:
  assumes "list_all valid_event es"
    and "\<forall>e \<in> set es. ev_deadLetteredAt e = None \<longrightarrow>
           (\<exists>c b. outboxEntityOrderCheckKeys digest e = Inr c \<and> outboxEntityOrderBlockKeys digest e = Inr b)"
  shows "\<exists>d r. drain_loop digest limit now blocked n es = Inr (d, r)"
  using assms
proof (induction es arbitrary: blocked n)
  case (Cons a es)
  then have a: "valid_event a" and IH: "\<exists>d r. drain_loop digest limit now bl m es = Inr (d, r)" for bl m by simp_all
  show ?case
  proof (cases "ev_deadLetteredAt a")
    case None
    with Cons.prems(2) obtain c b where "outboxEntityOrderCheckKeys digest a = Inr c" "outboxEntityOrderBlockKeys digest a = Inr b" by auto
    with IH [of blocked n] IH [of "blockOutboxEntityOrderKeys blocked b" n] IH [of blocked "Suc n"] None show ?thesis
      by (auto simp: sanitize_valid [OF a])
  next
    case (Some s)
    with IH [of blocked n] show ?thesis by (auto simp: sanitize_valid [OF a])
  qed
qed simp

section \<open>The queue invariant\<close>

definition queue_ok :: "memory_outbox \<Rightarrow> bool" where
  "queue_ok q = (list_all valid_event (mo_events q) \<and> distinct (map ev_id (mo_events q))
     \<and> list_all valid_event (mo_deadLetters q) \<and> distinct (map ev_id (mo_deadLetters q)))"

lemma queue_events_distinct: "queue_ok q \<Longrightarrow> distinct (mo_events q)"
  by (auto simp: queue_ok_def distinct_map)

lemma available_ids_iff:
  "available_ids existing incoming es = Inr () \<longleftrightarrow>
     distinct (map ev_id es) \<and> (\<forall>e \<in> set es. ev_id e \<notin> set existing \<and> ev_id e \<notin> set incoming)"
  by (induction es arbitrary: incoming) (auto simp: image_iff)

lemma assert_ids_iff:
  "assertAvailableIds q es = Inr () \<longleftrightarrow> distinct (map ev_id es) \<and> ev_id ` set es \<inter> ev_id ` set (mo_events q) = {}"
  by (auto simp: assertAvailableIds_def available_ids_iff)

lemma sanitize_version_raw:
  assumes "sanitizeOutboxEvent v r = Inr e"
  shows "\<exists>w. event_field v ''version'' = Inr w \<and> optional event_count w = Inr (ev_version e)"
proof -
  have v: "outbox_record v = Inr v" using assms
    by (auto simp: sanitizeOutboxEvent_def rbind_Inr_iff dest: outbox_record_same)
  from assms show ?thesis
    unfolding sanitizeOutboxEvent_def v rbind.simps unfolding rbind_Inr_iff if_error_iff
  proof (elim exE conjE, goal_cases)
    case prems: (1 x0 x1)
    from prems(17,33) show ?case unfolding event_eq(14) [OF prems(46)] by blast
  qed
qed

lemma sanitize_version:
  "sanitizeOutboxEvent (event_value e) False = Inr x \<Longrightarrow> optional event_count (opt_value Num (ev_version e)) = Inr (ev_version x)"
  by (drule sanitize_version_raw) (simp add: event_value_fields)

lemma valid_eventI:
  assumes "valid_event e" and "event_count (Num v) = Inr v" and "optional event_count (opt_value Num a) = Inr a"
    and "optional assertCanonicalIsoTimestamp (opt_value Str av) = Inr av"
    and "optional assertCanonicalIsoTimestamp (opt_value Str dl) = Inr dl" and "assertSafeCacheKey (Str err) = Inr err"
  shows "valid_event (e\<lparr>ev_version := Some v, ev_deliveryAttempts := a, ev_availableAt := av, ev_deadLetteredAt := dl,
    ev_lastDeliveryError := Some err, ev_leaseToken := None, ev_leaseExpiresAt := None\<rparr>)"
  using assms unfolding valid_event_def
  by (simp add: optional_def opt_value_def del: assertSafeCacheKey.simps assertSafeSchemaIdentifier.simps)


definition valid_failure :: "OutboxDeliveryFailure \<Rightarrow> bool" where
  "valid_failure f = ((\<forall>e. df_event f = Some e \<longrightarrow> valid_event e) \<and> event_count (Num (df_attempt f)) = Inr (df_attempt f)
     \<and> assertCanonicalIsoTimestamp (Str (df_failedAt f)) = Inr (df_failedAt f)
     \<and> optional assertCanonicalIsoTimestamp (opt_value Str (df_retryAt f)) = Inr (df_retryAt f)
     \<and> assertSafeCacheKey (Str (df_error f)) = Inr (df_error f))"

lemma positive_count: "assertPositiveSafeInteger v = Inr n \<Longrightarrow> event_count (Num n) = Inr n"
  by (auto simp: assertPositiveSafeInteger_def event_count_def split: jsval.splits if_splits)

lemma sanitized_failure_valid:
  assumes "sanitizeOutboxDeliveryFailure v r = Inr f" and "symbol_free v"
  shows "valid_failure f"
proof -
  have v: "outbox_record v = Inr v" using assms(1)
    by (auto simp: sanitizeOutboxDeliveryFailure_def rbind_Inr_iff dest: outbox_record_same)
  then have plain: "is_plain_object v" by (auto simp: outbox_record_def split: if_splits)
  have ev: "\<forall>e. x = Some e \<longrightarrow> valid_event e"
    if "event_field v ''event'' = Inr w" "optional (\<lambda>v. sanitizeOutboxEvent v False) w = Inr x" for w x
    using that sanitized_event_valid [OF _ field_symbol_free [OF that(1) plain assms(2)]]
    by (auto simp: optional_def rbind_Inr_iff split: if_splits)
  from assms(1) show ?thesis
    unfolding sanitizeOutboxDeliveryFailure_def v rbind.simps unfolding rbind_Inr_iff if_error_iff
  proof (elim exE conjE, goal_cases)
    case prems: 1
    from ev [OF prems(2,4)] positive_count [OF prems(8)] back_timestamp [OF prems(13)] optional_fields(2) [OF prems(15)]
      back_cache_key [OF prems(18)] prems(16)
    show ?case unfolding valid_failure_def by (auto simp del: assertSafeCacheKey.simps)
  qed
qed

lemma failed_event_valid:
  assumes "valid_event e" and "event_count (Num a) = Inr a" and "optional assertCanonicalIsoTimestamp (opt_value Str av) = Inr av"
    and "optional assertCanonicalIsoTimestamp (opt_value Str dl) = Inr dl" and "assertSafeCacheKey (Str err) = Inr err"
    and "sanitizeOutboxEvent (event_value (e\<lparr>ev_version := Some v, ev_deliveryAttempts := Some a, ev_availableAt := av, ev_deadLetteredAt := dl,
    ev_lastDeliveryError := Some err, ev_leaseToken := None, ev_leaseExpiresAt := None\<rparr>)) False = Inr x"
  shows "valid_event x \<and> x = e\<lparr>ev_version := Some v, ev_deliveryAttempts := Some a, ev_availableAt := av, ev_deadLetteredAt := dl,
    ev_lastDeliveryError := Some err, ev_leaseToken := None, ev_leaseExpiresAt := None\<rparr>"
proof -
  let ?e = "e\<lparr>ev_version := Some v, ev_deliveryAttempts := Some a, ev_availableAt := av, ev_deadLetteredAt := dl,
    ev_lastDeliveryError := Some err, ev_leaseToken := None, ev_leaseExpiresAt := None\<rparr>"
  from sanitize_version [OF assms(6)] have "event_count (Num v) = Inr v"
    by (auto simp: optional_def opt_value_def event_count_def rbind_Inr_iff split: if_splits)
  moreover have "optional event_count (opt_value Num (Some a)) = Inr (Some a)" using assms(2) by (simp add: optional_def opt_value_def)
  ultimately have "valid_event ?e" using assms by (intro valid_eventI)
  with assms(6) sanitize_valid [of ?e] show ?thesis by simp
qed

lemma retry_event:
  assumes "valid_failure f" and "outboxRetryEvent f = Inr x"
  shows "\<exists>e s. df_event f = Some e \<and> df_retryAt f = Some s \<and> valid_event x
    \<and> x = e\<lparr>ev_version := Some (next_version e), ev_deliveryAttempts := Some (df_attempt f), ev_availableAt := Some s,
        ev_deadLetteredAt := None, ev_lastDeliveryError := Some (df_error f), ev_leaseToken := None, ev_leaseExpiresAt := None\<rparr>"
proof -
  from assms(2) obtain e s where es: "df_event f = Some e" "df_retryAt f = Some s"
    by (auto simp: outboxRetryEvent_def split: option.splits)
  from assms(1) have v: "valid_event e" "event_count (Num (df_attempt f)) = Inr (df_attempt f)"
      "optional assertCanonicalIsoTimestamp (opt_value Str (Some s)) = Inr (Some s)" "assertSafeCacheKey (Str (df_error f)) = Inr (df_error f)"
    by (simp_all add: valid_failure_def es del: assertSafeCacheKey.simps)
  have none: "optional assertCanonicalIsoTimestamp (opt_value Str None) = Inr None" by (simp add: optional_def opt_value_def)
  from assms(2) have "sanitizeOutboxEvent (event_value (e\<lparr>ev_version := Some (next_version e), ev_deliveryAttempts := Some (df_attempt f),
      ev_availableAt := Some s, ev_deadLetteredAt := None, ev_lastDeliveryError := Some (df_error f), ev_leaseToken := None,
      ev_leaseExpiresAt := None\<rparr>)) False = Inr x"
    by (simp add: outboxRetryEvent_def es)
  from failed_event_valid [OF v(1,2,3) none v(4) this] es show ?thesis by blast
qed

lemma dead_letter_event:
  assumes "valid_failure f" and "outboxDeadLetterEvent f = Inr x"
  shows "\<exists>e. df_event f = Some e \<and> valid_event x
    \<and> x = e\<lparr>ev_version := Some (next_version e), ev_deliveryAttempts := Some (df_attempt f), ev_availableAt := None,
        ev_deadLetteredAt := Some (df_failedAt f), ev_lastDeliveryError := Some (df_error f), ev_leaseToken := None, ev_leaseExpiresAt := None\<rparr>"
proof -
  from assms(2) obtain e where es: "df_event f = Some e"
    by (auto simp: outboxDeadLetterEvent_def split: option.splits)
  from assms(1) have v: "valid_event e" "event_count (Num (df_attempt f)) = Inr (df_attempt f)"
      "optional assertCanonicalIsoTimestamp (opt_value Str (Some (df_failedAt f))) = Inr (Some (df_failedAt f))"
      "assertSafeCacheKey (Str (df_error f)) = Inr (df_error f)"
    by (simp_all add: valid_failure_def es optional_def opt_value_def del: assertSafeCacheKey.simps)
  have none: "optional assertCanonicalIsoTimestamp (opt_value Str None) = Inr None" by (simp add: optional_def opt_value_def)
  from assms(2) have "sanitizeOutboxEvent (event_value (e\<lparr>ev_version := Some (next_version e), ev_deliveryAttempts := Some (df_attempt f),
      ev_availableAt := None, ev_deadLetteredAt := Some (df_failedAt f), ev_lastDeliveryError := Some (df_error f), ev_leaseToken := None,
      ev_leaseExpiresAt := None\<rparr>)) False = Inr x"
    by (simp add: outboxDeadLetterEvent_def es)
  from failed_event_valid [OF v(1,2) none v(3,4) this] es show ?thesis by blast
qed


section \<open>Calls\<close>

lemma snapshot_symbol_free:
  assumes "snapshotArrayInput v = Inr xs" and "symbol_free v" and "x \<in> set xs"
  shows "symbol_free x"
proof -
  let ?f = "\<lambda>slot. case slot of None \<Rightarrow> Inl ActiveTsValidationError
      | Some p \<Rightarrow> if \<not> is_data p then Inl ActiveTsValidationError else Inr (prop_val p)"
  from assms(1) have "rlist ?f (slots v) = Inr xs"
    by (auto simp: snapshotArrayInput_def rbind_Inr_iff simp del: rlist_Inr_iff split: if_splits)
  from rlist_member [OF this assms(3)] obtain p where "Some p \<in> set (slots v)" "x = prop_val p"
    by (auto split: option.splits if_splits)
  with assms(2) show ?thesis by (cases v) (auto simp: list_all_iff)
qed

lemma sanitized_list_valid:
  "rlist (\<lambda>v. sanitizeOutboxEvent v False) vs = Inr es \<Longrightarrow> (\<And>v. v \<in> set vs \<Longrightarrow> symbol_free v) \<Longrightarrow> list_all valid_event es"
  by (auto simp: list_all_iff dest!: rlist_member dest: sanitized_event_valid)

lemma failure_batch_valid:
  assumes "sanitizeOutboxDeliveryFailureBatch v r = Inr fs" and "symbol_free v"
  shows "list_all valid_failure fs"
proof -
  from assms(1) obtain vs where "snapshotArrayInput v = Inr vs" "rlist (\<lambda>v. sanitizeOutboxDeliveryFailure v r) vs = Inr fs"
    by (auto simp: sanitizeOutboxDeliveryFailureBatch_def rbind_Inr_iff simp del: rlist_Inr_iff)
  then show ?thesis using snapshot_symbol_free [OF _ assms(2)]
    by (auto simp: list_all_iff dest!: rlist_member dest: sanitized_failure_valid)
qed

lemma retry_list_valid:
  "rlist outboxRetryEvent fs = Inr es \<Longrightarrow> list_all valid_failure fs \<Longrightarrow> list_all valid_event es"
  by (auto simp: list_all_iff dest!: rlist_member dest: retry_event)

lemma dead_letter_list:
  "dead_letter_loop existing fs q = (Inr es, q') \<Longrightarrow> list_all valid_failure fs \<Longrightarrow>
   list_all valid_event es \<and> distinct (map ev_id es) \<and> set existing \<inter> ev_id ` set es = {}"
proof (induction fs arbitrary: existing es q')
  case (Cons f fs)
  then obtain e es' p where e: "outboxDeadLetterEvent f = Inr e" "ev_id e \<notin> set existing" "es = e # es'"
    and rest: "dead_letter_loop (existing @ [ev_id e]) fs q = (Inr es', p)"
    by (auto simp: queue_simps split: if_splits)
  from Cons.prems(2) have "valid_event e" using dead_letter_event [OF _ e(1)] by auto
  with Cons.IH [OF rest] Cons.prems(2) e show ?case by auto
qed (simp add: queue_simps)

datatype outbox_call = AppendCall jsval | RequeueCall jsval | RetryCall jsval | DeadLetterCall jsval | DrainCall jsval int

fun call_input :: "outbox_call \<Rightarrow> jsval" where
  "call_input (AppendCall v) = v"
| "call_input (RequeueCall v) = v"
| "call_input (RetryCall v) = v"
| "call_input (DeadLetterCall v) = v"
| "call_input (DrainCall v now) = v"

definition outcome :: "'a res \<times> memory_outbox \<Rightarrow> unit res \<times> memory_outbox" where
  "outcome r = (rbind (fst r) (\<lambda>_. Inr ()), snd r)"

fun perform_outbox :: "(string \<Rightarrow> string) \<Rightarrow> outbox_call \<Rightarrow> memory_outbox \<Rightarrow> unit res \<times> memory_outbox" where
  "perform_outbox digest (AppendCall v) q = outcome (outbox_append v q)"
| "perform_outbox digest (RequeueCall v) q = outbox_requeue v q"
| "perform_outbox digest (RetryCall v) q = outbox_retry v q"
| "perform_outbox digest (DeadLetterCall v) q = outbox_deadLetter v q"
| "perform_outbox digest (DrainCall v now) q = outcome (outbox_drain digest v now q)"

text \<open>The states that the queue reaches by calls, failed ones included, whose inputs carry no symbol-keyed property: no event data
  with an entity key under the symbol of the library. A class instance under that symbol can hold values that pass the first
  sanitising and fail the second (\<open>append_fails_after_storing\<close> below).\<close>

inductive outbox_reachable :: "(string \<Rightarrow> string) \<Rightarrow> memory_outbox \<Rightarrow> bool" for digest where
  start: "outbox_reachable digest new_outbox"
| call: "outbox_reachable digest q \<Longrightarrow> symbol_free (call_input c) \<Longrightarrow> outbox_reachable digest (snd (perform_outbox digest c q))"

lemma append_step:
  assumes "symbol_free v" and "outbox_append v q = (r, q')"
  shows "(\<exists>e. r = Inl e \<and> q' = q) \<or>
    (\<exists>e. r = Inr e \<and> q' = q\<lparr>mo_events := mo_events q @ [e]\<rparr> \<and> valid_event e \<and> ev_id e \<notin> ev_id ` set (mo_events q))"
proof (cases "rbind (sanitizeOutboxEvent v False) (\<lambda>e. rbind (assertAvailableIds q [e]) (\<lambda>_. Inr e))")
  case (Inl e)
  with assms(2) have "(\<exists>e. r = Inl e) \<and> q' = q"
    by (cases "sanitizeOutboxEvent v False") (auto simp: outbox_append_def step_bind_def query_def rbind_Inl_iff)
  then show ?thesis by blast
next
  case (Inr e)
  then have e: "sanitizeOutboxEvent v False = Inr e" "assertAvailableIds q [e] = Inr ()" by (auto simp: rbind_Inr_iff)
  from sanitized_event_valid [OF e(1) assms(1)] have v: "valid_event e" .
  from e(2) have "ev_id e \<notin> ev_id ` set (mo_events q)" by (simp add: assert_ids_iff)
  with v e assms(2) show ?thesis by (auto simp: outbox_append_def step_bind_def query_def change_def sanitize_valid)
qed

lemma prepend_ok:
  "queue_ok q \<Longrightarrow> list_all valid_event es \<Longrightarrow> assertAvailableIds q es = Inr () \<Longrightarrow> queue_ok (prependMemoryOutboxEvents es q)"
  by (auto simp: queue_ok_def prependMemoryOutboxEvents_def assert_ids_iff)

lemma append_ok: "queue_ok q \<Longrightarrow> symbol_free v \<Longrightarrow> outbox_append v q = (r, q') \<Longrightarrow> queue_ok q'"
  using append_step [of v q r q'] by (auto simp: queue_ok_def)

text \<open>Every other call changes the queue in its last step, if at all, for whatever input.\<close>

lemma requeue_cases:
  assumes "outbox_requeue v q = (r, q')"
  obtains e where "r = Inl e" "q' = q"
  | vs es where "snapshotArrayInput v = Inr vs" "rlist (\<lambda>v. sanitizeOutboxEvent v False) vs = Inr es" "assertAvailableIds q es = Inr ()"
      "r = Inr ()" "q' = prependMemoryOutboxEvents es q"
  using assms by (cases r) (auto simp: outbox_requeue_def queue_simps simp del: rlist_Inr_iff)

lemma retry_cases:
  assumes "outbox_retry v q = (r, q')"
  obtains e where "r = Inl e" "q' = q"
  | fs es where "sanitizeOutboxDeliveryFailureBatch v True = Inr fs" "rlist outboxRetryEvent fs = Inr es" "assertAvailableIds q es = Inr ()"
      "r = Inr ()" "q' = prependMemoryOutboxEvents es q"
  using assms by (cases r) (auto simp: outbox_retry_def queue_simps simp del: rlist_Inr_iff)

lemma dead_letter_cases:
  assumes "outbox_deadLetter v q = (r, q')"
  obtains e where "r = Inl e" "q' = q"
  | fs es where "sanitizeOutboxDeliveryFailureBatch v True = Inr fs" "dead_letter_loop (map ev_id (mo_deadLetters q)) fs q = (Inr es, q)"
      "r = Inr ()" "q' = q\<lparr>mo_deadLetters := mo_deadLetters q @ es\<rparr>"
proof (cases r)
  case (Inl e)
  with assms have "q' = q" by (auto simp: outbox_deadLetter_def queue_simps store_dead_letters_eq dest: dead_letter_loop_keeps)
  with Inl that(1) show thesis by blast
next
  case (Inr u)
  with assms obtain fs es p where f: "sanitizeOutboxDeliveryFailureBatch v True = Inr fs"
    and l: "dead_letter_loop (map ev_id (mo_deadLetters q)) fs q = (Inr es, p)" and q': "q' = p\<lparr>mo_deadLetters := mo_deadLetters p @ es\<rparr>"
    by (auto simp: outbox_deadLetter_def queue_simps store_dead_letters_eq)
  from dead_letter_loop_keeps [OF l] have "p = q" .
  with f l q' Inr that(2) show thesis by simp
qed

lemma drain_call_cases:
  assumes "outbox_drain digest v now q = (r, q')"
  obtains e where "r = Inl e" "q' = q"
  | limit d kept where "normalizeOutboxBatchLimit v = Inr limit" "drain_loop digest limit now [] 0 (mo_events q) = Inr (d, kept)"
      "r = Inr d" "q' = replaceMemoryOutboxEvents kept q"
  using assms by (cases r) (auto simp: outbox_drain_def queue_simps split: prod.splits)

lemma requeue_ok:
  assumes "queue_ok q" and "symbol_free v" and "outbox_requeue v q = (r, q')"
  shows "queue_ok q'"
  using assms(3)
proof (cases rule: requeue_cases)
  case (2 vs es)
  from sanitized_list_valid [OF 2(2) snapshot_symbol_free [OF 2(1) assms(2)]] have "list_all valid_event es" .
  from prepend_ok [OF assms(1) this 2(3)] show ?thesis by (simp add: 2(5))
qed (use assms(1) in simp)

lemma retry_ok:
  assumes "queue_ok q" and "symbol_free v" and "outbox_retry v q = (r, q')"
  shows "queue_ok q'"
  using assms(3)
proof (cases rule: retry_cases)
  case (2 fs es)
  from retry_list_valid [OF 2(2) failure_batch_valid [OF 2(1) assms(2)]] have "list_all valid_event es" .
  from prepend_ok [OF assms(1) this 2(3)] show ?thesis by (simp add: 2(5))
qed (use assms(1) in simp)

lemma dead_letter_ok:
  assumes "queue_ok q" and "symbol_free v" and "outbox_deadLetter v q = (r, q')"
  shows "queue_ok q'"
  using assms(3)
proof (cases rule: dead_letter_cases)
  case (2 fs es)
  from dead_letter_list [OF 2(2) failure_batch_valid [OF 2(1) assms(2)]] assms(1) show ?thesis by (auto simp: 2(4) queue_ok_def)
qed (use assms(1) in simp)

lemma drain_ok:
  assumes "queue_ok q" and "outbox_drain digest v now q = (r, q')"
  shows "queue_ok q'"
  using assms(2)
proof (cases rule: drain_call_cases)
  case (2 limit d kept)
  have v: "list_all valid_event (mo_events q)" using assms(1) by (simp add: queue_ok_def)
  from drain_split [OF v queue_events_distinct [OF assms(1)] 2(2)] have "kept = filter (\<lambda>e. e \<notin> set d) (mo_events q)" by blast
  with assms(1) show ?thesis by (auto simp: 2(4) queue_ok_def replaceMemoryOutboxEvents_def list_all_iff distinct_map_filter)
qed (use assms(1) in simp)

lemma perform_ok: "queue_ok q \<Longrightarrow> symbol_free (call_input c) \<Longrightarrow> queue_ok (snd (perform_outbox digest c q))"
  by (cases c) (auto simp: outcome_def intro: append_ok requeue_ok retry_ok dead_letter_ok drain_ok [OF _ surjective_pairing] prod.collapse [symmetric])

lemma reachable_queue_ok: "outbox_reachable digest q \<Longrightarrow> queue_ok q"
proof (induction rule: outbox_reachable.induct)
  case start
  show ?case by (simp add: queue_ok_def new_outbox_def)
next
  case (call q c)
  then show ?case by (intro perform_ok)
qed

lemma perform_error:
  assumes "\<forall>v. c = AppendCall v \<longrightarrow> symbol_free v" and "perform_outbox digest c q = (Inl e, q')"
  shows "q' = q"
proof (cases c)
  case (AppendCall v)
  with assms obtain r where "outbox_append v q = (Inl r, q')" by (auto simp: outcome_def rbind_Inl_iff prod_eq_iff)
  with append_step [of v q "Inl r" q'] AppendCall assms(1) show ?thesis by auto
next
  case (RequeueCall v)
  with assms(2) show ?thesis by (auto elim: requeue_cases)
next
  case (RetryCall v)
  with assms(2) show ?thesis by (auto elim: retry_cases)
next
  case (DeadLetterCall v)
  with assms(2) show ?thesis by (auto elim: dead_letter_cases)
next
  case (DrainCall v now)
  with assms(2) obtain r where "outbox_drain digest v now q = (Inl r, q')" by (auto simp: outcome_def rbind_Inl_iff prod_eq_iff)
  then show ?thesis by (auto elim: drain_call_cases)
qed

end
