(* ===== verification/OutboxProperties.thy ===== *)
theory OutboxProperties
  imports OutboxQueue
begin

text \<open>What the memory outbox promises: its invariant, the effect of failed calls, and what a drain delivers and in which
  order.\<close>

section \<open>Sample events\<close>

definition sample_event :: "string \<Rightarrow> OutboxEvent" where
  "sample_event name = \<lparr>ev_id = name, ev_model = ''Doc'', ev_operation = UpdateOp, ev_createdAt = ''2024-01-01T00:00:00.000Z'', ev_data = Undef,
     ev_modelDatastoreScope = None, ev_modelId = None, ev_modelIdentity = None, ev_modelDatastoreAncestor = None,
     ev_modelDatastoreProjectId = None, ev_dataEncoding = None, ev_reconcileFromStore = None, ev_sequence = None, ev_version = None,
     ev_leaseToken = None, ev_leaseExpiresAt = None, ev_deliveryAttempts = None, ev_availableAt = None, ev_deadLetteredAt = None,
     ev_lastDeliveryError = None\<rparr>"

definition sample_key :: DatastoreKey where
  "sample_key = \<lparr>key_path = [\<lparr>part_kind = ''P'', part_id = js_int 1\<rparr>], key_namespace = Some ''n''\<rparr>"

lemma short_text: "s \<noteq> [] \<Longrightarrow> utf8_length (units s) \<le> 4096 \<Longrightarrow> nul \<notin> set s \<Longrightarrow> assertSafeCacheKey (Str s) = Inr s"
  by (simp add: MAX_CACHE_KEY_BYTES_def)

lemma sample_stamps:
  "assertCanonicalIsoTimestamp (Str ''2024-01-01T00:00:00.000Z'') = Inr ''2024-01-01T00:00:00.000Z''"
  "assertCanonicalIsoTimestamp (Str ''2030-01-01T00:00:00.000Z'') = Inr ''2030-01-01T00:00:00.000Z''"
  "dateParse ''2030-01-01T00:00:00.000Z'' = Some 1893456000000"
proof -
  have "assertSafeCacheKey (Str ''2024-01-01T00:00:00.000Z'') = Inr ''2024-01-01T00:00:00.000Z''"
    "assertSafeCacheKey (Str ''2030-01-01T00:00:00.000Z'') = Inr ''2030-01-01T00:00:00.000Z''"
    by (rule short_text; simp add: units_def utf8_length_def utf8_size_def nul_def)+
  moreover have d: "dateParse ''2024-01-01T00:00:00.000Z'' = Some 1704067200000 \<and> dateIsoString 1704067200000 = ''2024-01-01T00:00:00.000Z''"
    "dateParse ''2030-01-01T00:00:00.000Z'' = Some 1893456000000 \<and> dateIsoString 1893456000000 = ''2030-01-01T00:00:00.000Z''"
    by code_simp+
  ultimately show "assertCanonicalIsoTimestamp (Str ''2024-01-01T00:00:00.000Z'') = Inr ''2024-01-01T00:00:00.000Z''"
    "assertCanonicalIsoTimestamp (Str ''2030-01-01T00:00:00.000Z'') = Inr ''2030-01-01T00:00:00.000Z''"
    "dateParse ''2030-01-01T00:00:00.000Z'' = Some 1893456000000"
    by (simp_all add: timestamp_iff del: assertSafeCacheKey.simps)
qed

lemma sample_names:
  "assertSafeCacheKey (Str ''a'') = Inr ''a''" "assertSafeCacheKey (Str ''b'') = Inr ''b''" "assertSafeCacheKey (Str ''c'') = Inr ''c''"
  "assertSafeCacheKey (Str ''x'') = Inr ''x''" "assertSafeCacheKey (Str ''d'') = Inr ''d''" "assertSafeSchemaIdentifier (Str ''Doc'') = Inr ''Doc''"
proof -
  show "assertSafeCacheKey (Str ''a'') = Inr ''a''" "assertSafeCacheKey (Str ''b'') = Inr ''b''" "assertSafeCacheKey (Str ''c'') = Inr ''c''"
    "assertSafeCacheKey (Str ''x'') = Inr ''x''" "assertSafeCacheKey (Str ''d'') = Inr ''d''"
    by (rule short_text; simp add: units_def utf8_length_def utf8_size_def nul_def)+
  show "assertSafeSchemaIdentifier (Str ''Doc'') = Inr ''Doc''" by code_simp
qed

lemma sample_kinds: "normalizeDatastoreKind (Str ''Doc'') = Inr ''Doc''" "normalizeDatastoreKind (Str ''P'') = Inr ''P''"
proof -
  have "assertSafeSchemaIdentifier (Str ''P'') = Inr ''P''" by code_simp
  then show "normalizeDatastoreKind (Str ''Doc'') = Inr ''Doc''" "normalizeDatastoreKind (Str ''P'') = Inr ''P''"
    using sample_names(6) by (auto intro!: short_kind simp: units_def utf8_length_def utf8_size_def)
qed

lemma sample_id: "assertSafeEntityId (js_int 1) = Inr ()" "entityIdKey (js_int 1) = Inr ''number:1''"
  by code_simp+

lemma sample_key_valid: "valid_key sample_key"
  using sample_kinds(2) sample_id(1)
  by (simp add: valid_key_def valid_part_def sample_key_def normalizeDatastoreNamespace_def namespace_value_def nul_def)

definition waiting_event :: OutboxEvent where
  "waiting_event = (sample_event ''a'')\<lparr>ev_modelIdentity := Some ''x'', ev_availableAt := Some ''2030-01-01T00:00:00.000Z''\<rparr>"

definition linked_event :: OutboxEvent where
  "linked_event = (sample_event ''b'')\<lparr>ev_modelIdentity := Some ''x'', ev_modelId := Some (js_int 1), ev_modelDatastoreAncestor := Some sample_key\<rparr>"

definition keyed_event :: OutboxEvent where
  "keyed_event = (sample_event ''c'')\<lparr>ev_modelId := Some (js_int 1), ev_modelDatastoreAncestor := Some sample_key\<rparr>"

definition later_event :: OutboxEvent where
  "later_event = (sample_event ''d'')\<lparr>ev_modelId := Some (js_int 1), ev_modelDatastoreAncestor := Some sample_key\<rparr>"

lemma sample_valid: "valid_event waiting_event" "valid_event linked_event" "valid_event keyed_event" "valid_event later_event"
proof -
  have k: "normalizeDatastoreKey (key_value sample_key) = Inr sample_key" "key_value sample_key \<noteq> Undef" "js_int 1 \<noteq> Undef"
    using normalize_key [of sample_key sample_key] sample_key_valid by (simp_all add: key_value_def js_object_def js_int_def)
  show "valid_event waiting_event" "valid_event linked_event" "valid_event keyed_event" "valid_event later_event"
    using sample_stamps sample_names sample_id k
    by (simp_all add: valid_event_def waiting_event_def linked_event_def keyed_event_def later_event_def sample_event_def optional_def opt_value_def
        event_entity_id_def normalizeDatastoreSearchScope_def del: assertSafeCacheKey.simps assertSafeSchemaIdentifier.simps)
qed

lemma sample_append:
  assumes "valid_event e" and "ev_id e \<notin> ev_id ` set (mo_events q)"
  shows "outbox_append (event_value e) q = (Inr e, q\<lparr>mo_events := mo_events q @ [e]\<rparr>)"
proof -
  have "assertAvailableIds q [e] = Inr ()" using assms(2) by (simp add: assert_ids_iff)
  then show ?thesis by (simp add: outbox_append_def step_bind_def query_def change_def sanitize_valid [OF assms(1)])
qed

lemma opt_value_symbol_free: "(\<And>v. x = Some v \<Longrightarrow> symbol_free (g v)) \<Longrightarrow> symbol_free (opt_value g x)"
  by (simp add: opt_value_def split: option.splits)

lemma object_symbol_free: "symbol_free (js_object kvs) \<longleftrightarrow> list_all (\<lambda>kv. symbol_free (snd kv)) kvs"
  by (simp add: js_object_def list_all_iff case_prod_beta)

lemma key_symbol_free: "(\<And>p. p \<in> set (key_path k) \<Longrightarrow> symbol_free (part_id p)) \<Longrightarrow> symbol_free (key_value k)"
  by (auto simp: key_value_def object_symbol_free part_value_def js_array_def list_all_iff namespace_value_def split: option.splits)

lemma event_value_symbol_free:
  assumes "symbol_free (ev_data e)" and "\<And>i. ev_modelId e = Some i \<Longrightarrow> symbol_free i"
    and "\<And>k p. ev_modelDatastoreAncestor e = Some k \<Longrightarrow> p \<in> set (key_path k) \<Longrightarrow> symbol_free (part_id p)"
  shows "symbol_free (event_value e)"
proof -
  have "symbol_free (opt_value id (ev_modelId e))" "symbol_free (opt_value key_value (ev_modelDatastoreAncestor e))"
    by (rule opt_value_symbol_free, use assms(2) in simp) (rule opt_value_symbol_free, rule key_symbol_free, erule (1) assms(3))
  moreover have "symbol_free (opt_value Str s)" "symbol_free (opt_value Num n)" "symbol_free (opt_value Bool b)" for s n b
    by (auto intro: opt_value_symbol_free)
  ultimately have "list_all (\<lambda>kv. symbol_free (snd kv)) (event_fields e)" using assms(1) by (simp add: event_fields_def)
  then show ?thesis by (auto simp: event_value_def object_symbol_free list_all_iff)
qed

definition sample_queue :: memory_outbox where
  "sample_queue = \<lparr>mo_events = [waiting_event, linked_event, keyed_event, later_event], mo_deadLetters = []\<rparr>"

lemma sample_free: "symbol_free (event_value waiting_event)" "symbol_free (event_value linked_event)" "symbol_free (event_value keyed_event)"
  "symbol_free (event_value later_event)"
  by (rule event_value_symbol_free;
      simp add: waiting_event_def linked_event_def keyed_event_def later_event_def sample_event_def sample_key_def js_int_def; fastforce)+

lemma sample_ids: "ev_id waiting_event = ''a''" "ev_id linked_event = ''b''" "ev_id keyed_event = ''c''" "ev_id later_event = ''d''"
  by (simp_all add: waiting_event_def linked_event_def keyed_event_def later_event_def sample_event_def)

lemma sample_reachable: "outbox_reachable digest sample_queue"
proof -
  note step = outbox_reachable.call [where c = "AppendCall v" for v, simplified, unfolded outcome_def snd_conv]
  let ?q1 = "\<lparr>mo_events = [waiting_event], mo_deadLetters = []\<rparr>" and ?q2 = "\<lparr>mo_events = [waiting_event, linked_event], mo_deadLetters = []\<rparr>"
    and ?q3 = "\<lparr>mo_events = [waiting_event, linked_event, keyed_event], mo_deadLetters = []\<rparr>"
  have "snd (outbox_append (event_value waiting_event) new_outbox) = ?q1"
    "snd (outbox_append (event_value linked_event) ?q1) = ?q2" "snd (outbox_append (event_value keyed_event) ?q2) = ?q3"
    "snd (outbox_append (event_value later_event) ?q3) = sample_queue"
    by (simp_all add: sample_append sample_valid new_outbox_def sample_queue_def sample_ids)
  with step [OF outbox_reachable.start sample_free(1)] step [of digest ?q1, OF _ sample_free(2)] step [of digest ?q2, OF _ sample_free(3)]
    step [of digest ?q3, OF _ sample_free(4)]
  show ?thesis by simp
qed


lemma sample_identity: "\<exists>s. datastoreSearchDocumentIdentity digest ''Doc'' None (js_int 1) (Some sample_key) None = Inr (''datastore:'' @ digest s)"
proof -
  let ?k = "\<lparr>key_path = key_path sample_key @ [\<lparr>part_kind = ''Doc'', part_id = js_int 1\<rparr>], key_namespace = Some ''n''\<rparr>"
  have n: "normalizeDatastoreKey (key_value sample_key) = Inr sample_key" using normalize_key [of sample_key sample_key] sample_key_valid by blast
  have nn: "key_namespace sample_key = Some ''n''" by (simp add: sample_key_def)
  have "valid_key ?k" using sample_key_valid sample_kinds(1) sample_id(1) by (simp add: valid_key_def valid_part_def sample_key_def)
  then have v: "normalizeDatastoreKey (key_value ?k) = Inr ?k" using normalize_key [of ?k ?k] by blast
  have "\<exists>ts. rlist part_text (key_path ?k) = Inr ts" by (simp add: sample_key_def part_text_def sample_id)
  then obtain s where "datastoreKeyIdentity ?k = Inr s" by (auto simp: datastoreKeyIdentity_def v)
  then have "datastoreSearchDocumentIdentity digest ''Doc'' None (js_int 1) (Some sample_key) None = Inr (''datastore:'' @ digest s)"
    by (simp add: datastoreSearchDocumentIdentity_def normalizeDatastoreSearchScope_def namespace_value_def datastoreKeyWithNamespace_def n
        normalizeDatastoreNamespace_def nn Let_def)
  then show ?thesis by blast
qed

lemma sample_keys:
  obtains s where "outboxEntityOrderCheckKeys digest waiting_event = Inr [''Doc:x'']" "outboxEntityOrderBlockKeys digest waiting_event = Inr [''Doc:x'']"
    "outboxEntityOrderCheckKeys digest linked_event = Inr [''Doc:x'', ''Doc:datastore:'' @ s]"
    "outboxEntityOrderBlockKeys digest linked_event = Inr [''Doc:x'', ''Doc:datastore:'' @ s]"
    "outboxEntityOrderCheckKeys digest keyed_event = Inr [''Doc:datastore:'' @ s]"
    "outboxEntityOrderBlockKeys digest keyed_event = Inr [''Doc:datastore:'' @ s]"
    "outboxEntityOrderCheckKeys digest later_event = Inr [''Doc:datastore:'' @ s]"
    "outboxEntityOrderBlockKeys digest later_event = Inr [''Doc:datastore:'' @ s]"
proof -
  obtain s where s: "datastoreSearchDocumentIdentity digest ''Doc'' None (js_int 1) (Some sample_key) None = Inr (''datastore:'' @ digest s)"
    using sample_identity by blast
  note defs = outboxEntityOrderCheckKeys_def outboxEntityOrderBlockKeys_def outboxEntityOrderKeys_def alias_key_def
    outboxIdentityOnlyDatastoreCheckAliasKey_def outboxIdentityOnlyDatastoreBlockAliasKey_def outboxIsDatastoreIdentityOnlyEvent_def
    outboxNamespaceLessDatastoreAncestorCheckAliasKey_def outboxNamespaceLessDatastoreAncestorBlockAliasKey_def
    outboxIsNamespaceLessDatastoreAncestorEvent_def appendOutboxEntityOrderKey_def sample_event_def
  have n: "key_namespace sample_key = Some ''n''" by (simp add: sample_key_def)
  show thesis by (rule that [of "digest s"]) (simp_all add: defs waiting_event_def linked_event_def keyed_event_def later_event_def s n)
qed

section \<open>Properties\<close>

text \<open>C35. In every state that the memory outbox reaches by calls whose inputs carry no symbol-keyed property (no event data
  with an entity key under the library's symbol; failed calls included), event ids are unique in the queue and among the
  dead letters, and both lists read back exactly as they are stored: sanitising a stored event again never fails and never
  changes it. The restriction on symbols is needed: \<open>append_fails_after_storing\<close> is a call outside it that stores an
  event which no later sanitising accepts.\<close>

theorem outbox_queue_invariant:
  assumes "outbox_reachable digest q"
  shows "distinct (map ev_id (mo_events q)) \<and> distinct (map ev_id (mo_deadLetters q))
    \<and> outbox_list q = Inr (mo_events q) \<and> outbox_listDeadLetters q = Inr (mo_deadLetters q)"
  using reachable_queue_ok [OF assms] by (simp add: queue_ok_def outbox_list_def outbox_listDeadLetters_def resanitize_valid)

theorem outbox_queue_invariant_witness:
  "outbox_reachable id sample_queue \<and> outbox_list sample_queue = Inr [waiting_event, linked_event, keyed_event, later_event]"
  using outbox_queue_invariant [OF sample_reachable [of id]] sample_reachable [of id] by (simp add: sample_queue_def)

text \<open>C36. A call of the memory outbox that fails leaves the queue and the dead letters as they were: a requeue, retry,
  dead-letter or drain call in whatever state and for whatever input; an append in whatever state for whatever event value without
  symbol-keyed properties. \<open>append_fails_after_storing\<close> shows what an append of event data with an entity key under the
  library's symbol can do.\<close>

theorem failed_outbox_call_changes_nothing:
  assumes "\<forall>v. c = AppendCall v \<longrightarrow> symbol_free v" and "perform_outbox digest c q = (Inl e, q')"
  shows "q' = q"
  using perform_error [OF assms] .

theorem failed_outbox_call_changes_nothing_witness:
  "perform_outbox id (AppendCall (event_value linked_event)) sample_queue = (Inl ActiveTsConflictError, sample_queue) \<and>
   perform_outbox id (DeadLetterCall (js_array [Null])) sample_queue = (Inl ActiveTsConfigurationError, sample_queue)"
proof -
  have "assertAvailableIds sample_queue [linked_event] = Inl ActiveTsConflictError"
    by (simp add: assertAvailableIds_def sample_queue_def sample_ids)
  then have "fst (perform_outbox id (AppendCall (event_value linked_event)) sample_queue) = Inl ActiveTsConflictError"
    by (simp add: outcome_def outbox_append_def step_bind_def query_def sanitize_valid sample_valid)
  then obtain q1 where 1: "perform_outbox id (AppendCall (event_value linked_event)) sample_queue = (Inl ActiveTsConflictError, q1)"
    by (metis prod.collapse)
  have "sanitizeOutboxDeliveryFailureBatch (js_array [Null]) True = Inl ActiveTsConfigurationError" by code_simp
  then have "fst (perform_outbox id (DeadLetterCall (js_array [Null])) sample_queue) = Inl ActiveTsConfigurationError"
    by (simp add: outbox_deadLetter_def step_bind_def query_def)
  then obtain q2 where 2: "perform_outbox id (DeadLetterCall (js_array [Null])) sample_queue = (Inl ActiveTsConfigurationError, q2)"
    by (metis prod.collapse)
  from failed_outbox_call_changes_nothing [OF _ 1] failed_outbox_call_changes_nothing [OF _ 2] 1 2 sample_free(2)
  show ?thesis by simp
qed

text \<open>C37. A drain delivers and keeps: the delivered events and the events left in the queue are together the events of the
  queue, both in queue order; delivered events are neither dead-lettered nor waiting for a later time, and there are at most
  as many as the limit.\<close>

theorem drain_delivers:
  assumes "outbox_reachable digest q" and "outbox_drain digest options now q = (Inr drained, q')"
  shows "drained = filter (\<lambda>e. e \<in> set drained) (mo_events q) \<and> mo_events q' = filter (\<lambda>e. e \<notin> set drained) (mo_events q)
    \<and> set drained \<subseteq> set (mo_events q) \<and> mo_deadLetters q' = mo_deadLetters q
    \<and> list_all (\<lambda>e. ev_deadLetteredAt e = None \<and> isOutboxDeliveryAvailable e now) drained
    \<and> (case normalizeOutboxBatchLimit options of Inr (Some l) \<Rightarrow> of_nat (length drained) \<le> num_value l | _ \<Rightarrow> True)"
proof -
  note ok = reachable_queue_ok [OF assms(1)]
  have v: "list_all valid_event (mo_events q)" using ok by (simp add: queue_ok_def)
  from assms(2) obtain limit r where l: "normalizeOutboxBatchLimit options = Inr limit"
    and r: "drain_loop digest limit now [] 0 (mo_events q) = Inr (drained, r)" "q' = replaceMemoryOutboxEvents r q"
    by (cases rule: drain_call_cases) auto
  note s = drain_split [OF v queue_events_distinct [OF ok] r(1)]
  have "of_nat (length drained) \<le> num_value n" if "limit = Some n" for n
  proof -
    from l that have n: "is_safe_integer n" "0 < num_value n"
      by (auto simp: normalizeOutboxBatchLimit_def rbind_Inr_iff optional_def assertPositiveSafeInteger_def split: if_splits jsval.splits)
    have f: "of_int \<lfloor>num_value n\<rfloor> = num_value n" using n(1) unfolding is_safe_integer_def rat_integral_def by blast
    have pos: "0 \<le> \<lfloor>num_value n\<rfloor>" using n(2) by simp
    from trans [OF of_nat_nat [OF pos] f] have "num_value n = of_nat (nat \<lfloor>num_value n\<rfloor>)" by (rule sym)
    with drain_bound [OF v this, of 0 digest now "[]"] r(1) that show ?thesis by simp
  qed
  with s l r(2) show ?thesis by (auto simp: replaceMemoryOutboxEvents_def list_all_iff split: option.splits)
qed


lemma sample_drain:
  "outbox_drain digest Undef 0 sample_queue = (Inr [keyed_event, later_event], sample_queue\<lparr>mo_events := [waiting_event, linked_event]\<rparr>)"
proof -
  obtain s where k: "outboxEntityOrderCheckKeys digest waiting_event = Inr [''Doc:x'']" "outboxEntityOrderBlockKeys digest waiting_event = Inr [''Doc:x'']"
    "outboxEntityOrderCheckKeys digest linked_event = Inr [''Doc:x'', ''Doc:datastore:'' @ s]"
    "outboxEntityOrderBlockKeys digest linked_event = Inr [''Doc:x'', ''Doc:datastore:'' @ s]"
    "outboxEntityOrderCheckKeys digest keyed_event = Inr [''Doc:datastore:'' @ s]"
    "outboxEntityOrderBlockKeys digest keyed_event = Inr [''Doc:datastore:'' @ s]"
    "outboxEntityOrderCheckKeys digest later_event = Inr [''Doc:datastore:'' @ s]"
    "outboxEntityOrderBlockKeys digest later_event = Inr [''Doc:datastore:'' @ s]" by (rule sample_keys)
  have "\<not> isOutboxDeliveryAvailable waiting_event 0" "isOutboxDeliveryAvailable keyed_event 0" "isOutboxDeliveryAvailable later_event 0"
    by (simp_all add: isOutboxDeliveryAvailable_def waiting_event_def keyed_event_def later_event_def sample_event_def sample_stamps(3))
  moreover have "ev_deadLetteredAt waiting_event = None" "ev_deadLetteredAt linked_event = None" "ev_deadLetteredAt keyed_event = None"
    "ev_deadLetteredAt later_event = None"
    by (simp_all add: waiting_event_def linked_event_def keyed_event_def later_event_def sample_event_def)
  ultimately have "drain_loop digest None 0 [] 0 (mo_events sample_queue) = Inr ([keyed_event, later_event], [waiting_event, linked_event])"
    using k by (simp add: sample_queue_def sanitize_valid sample_valid outboxEntityOrderKeysBlocked_def blockOutboxEntityOrderKeys_def)
  then show ?thesis by (simp add: outbox_drain_def normalizeOutboxBatchLimit_def step_bind_def query_def change_def replaceMemoryOutboxEvents_def)
qed

theorem drain_delivers_witness:
  "outbox_drain id Undef 0 sample_queue = (Inr [keyed_event, later_event], sample_queue\<lparr>mo_events := [waiting_event, linked_event]\<rparr>) \<and>
   isOutboxDeliveryAvailable keyed_event 0"
proof -
  from drain_delivers [OF sample_reachable sample_drain [of id]] have "isOutboxDeliveryAvailable keyed_event 0" by simp
  with sample_drain [of id] show ?thesis by blast
qed

text \<open>C38. A drain never lets an event overtake an earlier event of the same entity: when two events of the queue check the same
  order keys and the earlier one is not a dead letter, the later one is delivered only together with, and after, the earlier.\<close>

theorem drain_keeps_entity_order:
  assumes "outbox_reachable digest q" and "outbox_drain digest options now q = (Inr drained, q')"
    and "mo_events q = xs @ e1 # ys @ e2 # zs" and "ev_deadLetteredAt e1 = None"
    and "outboxEntityOrderCheckKeys digest e1 = outboxEntityOrderCheckKeys digest e2" and "e2 \<in> set drained"
  shows "\<exists>as bs cs. drained = as @ e1 # bs @ e2 # cs"
proof -
  note ok = reachable_queue_ok [OF assms(1)]
  have v: "list_all valid_event (mo_events q)" using ok by (simp add: queue_ok_def)
  from assms(2) obtain limit r where r: "drain_loop digest limit now [] 0 (mo_events q) = Inr (drained, r)"
    by (cases rule: drain_call_cases) auto
  have "e1 \<in> set drained"
    using drain_order [of xs e1 "ys @ e2 # zs" digest limit now "[]" 0 drained r e2] v queue_events_distinct [OF ok] r assms(3-6) by simp
  moreover have "drained = filter (\<lambda>e. e \<in> set drained) (mo_events q)" using drain_split [OF v queue_events_distinct [OF ok] r] by blast
  ultimately have "drained = filter (\<lambda>e. e \<in> set drained) xs @ e1 # filter (\<lambda>e. e \<in> set drained) ys @ e2 # filter (\<lambda>e. e \<in> set drained) zs"
    using assms(3,6) by simp
  then show ?thesis by blast
qed

theorem drain_keeps_entity_order_witness:
  "outboxEntityOrderCheckKeys id keyed_event = outboxEntityOrderCheckKeys id later_event \<and>
   (\<exists>as bs cs. [keyed_event, later_event] = as @ keyed_event # bs @ later_event # cs)"
proof -
  obtain s where k: "outboxEntityOrderCheckKeys id keyed_event = Inr [''Doc:datastore:'' @ s]"
    "outboxEntityOrderCheckKeys id later_event = Inr [''Doc:datastore:'' @ s]" by (rule sample_keys)
  have q: "mo_events sample_queue = [waiting_event, linked_event] @ keyed_event # [] @ later_event # []" by (simp add: sample_queue_def)
  have d: "ev_deadLetteredAt keyed_event = None" by (simp add: keyed_event_def sample_event_def)
  have e: "outboxEntityOrderCheckKeys id keyed_event = outboxEntityOrderCheckKeys id later_event" unfolding k ..
  from drain_keeps_entity_order [OF sample_reachable sample_drain q d e] e show ?thesis by simp
qed



text \<open>What lies outside the restrictions of the invariant and of progress. Event data whose entity key is a class instance that
  holds a bigint is stored by an append that then throws; after that the list cannot be read, and no drain succeeds.\<close>

definition big_key_data :: "jsval \<Rightarrow> jsval" where
  "big_key_data key = Obj CPlain [] [(EntityKeySym, DataP key False True)]"

definition big_key :: "obj_class \<Rightarrow> jsval" where
  "big_key c = Obj c [(''n'', dataP (BigInt 1))] []"

lemma big_key_clones:
  "cloneSafeData (big_key_data (big_key (CInstance ''Key''))) = Inr (big_key_data (big_key CPlain))"
  "cloneSafeData (big_key_data (big_key CPlain)) = Inl ActiveTsValidationError"
  by code_simp+

lemma sample_plain_valid: "valid_event (sample_event ''a'')" "valid_event (sample_event ''b'')"
  using sample_stamps sample_names
  by (simp_all add: valid_event_def sample_event_def optional_def opt_value_def
      normalizeDatastoreSearchScope_def del: assertSafeCacheKey.simps assertSafeSchemaIdentifier.simps)

lemma append_fails_after_storing:
  "\<exists>v x q. outbox_append v new_outbox = (Inl ActiveTsValidationError, q) \<and> mo_events q = [x]
     \<and> outbox_list q = Inl ActiveTsValidationError \<and> outbox_drain digest Undef now q = (Inl ActiveTsValidationError, q)"
proof -
  let ?e = "sample_event ''a''" and ?d = "big_key_data (big_key (CInstance ''Key''))" and ?d' = "big_key_data (big_key CPlain)"
  let ?x = "?e\<lparr>ev_data := ?d'\<rparr>"
  let ?q = "\<lparr>mo_events = [?x], mo_deadLetters = []\<rparr>"
  have n: "?d \<noteq> Undef" "?d' \<noteq> Undef" by (simp_all add: big_key_data_def)
  note s = sanitize_data [OF sample_plain_valid(1) n(1)] sanitize_data [OF sample_plain_valid(1) n(2)]
  have 1: "sanitizeOutboxEvent (event_value (?e\<lparr>ev_data := ?d\<rparr>)) False = Inr ?x" by (simp add: s(1) big_key_clones(1))
  have 2: "sanitizeOutboxEvent (event_value ?x) False = Inl ActiveTsValidationError" by (simp add: s(2) big_key_clones(2))
  have "outbox_append (event_value (?e\<lparr>ev_data := ?d\<rparr>)) new_outbox = (Inl ActiveTsValidationError, ?q)"
    using 1 2 by (simp add: outbox_append_def step_bind_def query_def change_def assertAvailableIds_def new_outbox_def)
  moreover have "outbox_list ?q = Inl ActiveTsValidationError" using 2 by (simp add: outbox_list_def resanitize_def)
  moreover have "outbox_drain digest Undef now ?q = (Inl ActiveTsValidationError, ?q)"
    using 2 by (simp add: outbox_drain_def step_bind_def query_def normalizeOutboxBatchLimit_def)
  moreover have "mo_events ?q = [?x]" by simp
  ultimately show ?thesis by blast
qed

text \<open>A valid event whose search scope names another namespace than its ancestor: appending accepts it, its order keys cannot be
  computed, and every drain that comes to it throws.\<close>

definition torn_event :: OutboxEvent where
  "torn_event = (sample_event ''b'')\<lparr>ev_modelDatastoreScope := Some (json_array [Some ''p'', None, Some ''m'', Some ''native'', None]),
     ev_modelId := Some (js_int 1), ev_modelDatastoreAncestor := Some sample_key\<rparr>"

lemma torn_scope:
  "normalizeDatastoreSearchScope (Str (json_array [Some ''p'', None, Some ''m'', Some ''native'', None]))
     = Inr (Some (json_array [Some ''p'', None, Some ''m'', Some ''native'', None]))"
  "datastoreSearchScopeNamespace (json_array [Some ''p'', None, Some ''m'', Some ''native'', None]) = Inr (Some ''m'')"
  by code_simp+

lemma torn_event_stops_drains:
  "outbox_reachable digest \<lparr>mo_events = [torn_event], mo_deadLetters = []\<rparr>
   \<and> outbox_drain digest Undef now \<lparr>mo_events = [torn_event], mo_deadLetters = []\<rparr>
       = (Inl ActiveTsValidationError, \<lparr>mo_events = [torn_event], mo_deadLetters = []\<rparr>)"
proof -
  have k: "normalizeDatastoreKey (key_value sample_key) = Inr sample_key" "key_value sample_key \<noteq> Undef" "js_int 1 \<noteq> Undef"
    using normalize_key [of sample_key sample_key] sample_key_valid by (simp_all add: key_value_def js_object_def js_int_def)
  have v: "valid_event torn_event"
    using sample_stamps sample_names sample_id k torn_scope(1)
    by (simp add: valid_event_def torn_event_def sample_event_def optional_def opt_value_def event_entity_id_def
        del: assertSafeCacheKey.simps assertSafeSchemaIdentifier.simps)
  have "symbol_free (event_value torn_event)"
    by (rule event_value_symbol_free; simp add: torn_event_def sample_event_def sample_key_def js_int_def; fastforce)
  from outbox_reachable.call [OF outbox_reachable.start, of "AppendCall (event_value torn_event)" digest] this
  have r: "outbox_reachable digest \<lparr>mo_events = [torn_event], mo_deadLetters = []\<rparr>"
    by (simp add: outcome_def sample_append [OF v] new_outbox_def)
  have "normalizeDatastoreNamespace (namespace_value (Some ''m'')) = Inr (Some ''m'')" by code_simp
  then have "datastoreKeyWithNamespace sample_key (namespace_value (Some ''m'')) = Inl ActiveTsValidationError"
    using k(1) by (simp add: datastoreKeyWithNamespace_def) (simp add: sample_key_def)
  then have "outboxEntityOrderCheckKeys digest torn_event = Inl ActiveTsValidationError"
    using torn_scope
    by (simp add: outboxEntityOrderCheckKeys_def outboxEntityOrderKeys_def datastoreSearchDocumentIdentity_def torn_event_def
        namespace_value_def)
  with r v show ?thesis
    by (simp add: outbox_drain_def step_bind_def query_def normalizeOutboxBatchLimit_def sanitize_valid torn_event_def sample_event_def)
qed

text \<open>The queue remembers only the keys of waiting events, not those of the events that a waiting event holds back: the
  third event of the sample queue overtakes the second, with which it shares an order key.\<close>

theorem held_event_is_overtaken:
  "\<exists>q e1 e2 keys1 keys2 drained q'. outbox_reachable digest q \<and> (\<exists>xs ys. mo_events q = xs @ e1 # e2 # ys) \<and> ev_deadLetteredAt e1 = None
     \<and> isOutboxDeliveryAvailable e1 0 \<and> outboxEntityOrderBlockKeys digest e1 = Inr keys1 \<and> outboxEntityOrderCheckKeys digest e2 = Inr keys2
     \<and> set keys1 \<inter> set keys2 \<noteq> {} \<and> outbox_drain digest Undef 0 q = (Inr drained, q') \<and> e2 \<in> set drained \<and> e1 \<notin> set drained"
proof -
  obtain s where k: "outboxEntityOrderBlockKeys digest linked_event = Inr [''Doc:x'', ''Doc:datastore:'' @ s]"
    "outboxEntityOrderCheckKeys digest keyed_event = Inr [''Doc:datastore:'' @ s]" by (rule sample_keys)
  show ?thesis
  proof (intro exI conjI)
    show "outbox_reachable digest sample_queue" by (rule sample_reachable)
    show "mo_events sample_queue = [waiting_event] @ linked_event # keyed_event # [later_event]" by (simp add: sample_queue_def)
    show "ev_deadLetteredAt linked_event = None" "isOutboxDeliveryAvailable linked_event 0"
      by (simp_all add: isOutboxDeliveryAvailable_def linked_event_def sample_event_def)
    show "outboxEntityOrderBlockKeys digest linked_event = Inr [''Doc:x'', ''Doc:datastore:'' @ s]"
      "outboxEntityOrderCheckKeys digest keyed_event = Inr [''Doc:datastore:'' @ s]" by (rule k)+
    show "outbox_drain digest Undef 0 sample_queue = (Inr [keyed_event, later_event], sample_queue\<lparr>mo_events := [waiting_event, linked_event]\<rparr>)"
      by (rule sample_drain)
    show "linked_event \<notin> set [keyed_event, later_event]"
      by (simp add: linked_event_def keyed_event_def later_event_def sample_event_def)
  qed simp_all
qed

end
