(* ===== verification/Spec2Isabelle.thy ===== *)
theory Spec2Isabelle
  imports MemoryProperties BatchLoader AdapterSources CacheVersioning MemoryPaging SoftDelete OutboxProperties
begin

text \<open>
  A model of the core of active-ts (\<open>src/src\<close>), an object-data mapper for TypeScript: applications describe models,
  a context loads and saves their rows through store, cache and search adapters, plugins hook into plans and
  writes, and an outbox hands write events to workers.

  \<^bold>\<open>What is modelled, and how the parts interact.\<close> All data passes the checks and clones of
  \<open>core/safe-keys.ts\<close> before it is stored, cached or queued. The memory store keeps cloned rows under the
  keys of \<open>entityIdKey\<close>, in maps of maps; a query is normalised (\<open>core/store-options.ts\<close>), its operands are
  typed and encoded (\<open>core/field-types.ts\<close>, \<open>core/field-codecs.ts\<close>), its rows are filtered
  (\<open>core/query-utils.ts\<close>), sorted and cut into pages (\<open>core/cursor.ts\<close>) or aggregated
  (\<open>core/aggregate.ts\<close>). Transactions of the memory store work on a private copy and are validated against the
  store when they commit. The batch loader sits before a store and the memory cache; the soft-delete plugin constrains
  the plans the store gets. Outbox events name the rows they are about by Datastore keys and search scopes;
  their order keys decide what a drain may deliver.

  \<^bold>\<open>Where to find it.\<close> Functions keep their names; a record or datatype has the fields or the
  constructors of the type it stands for.

  \<^item> \<open>Prelude\<close>: exceptions as sums (\<open>'a res\<close>), loops that stop at the first error, \<open>Map\<close>s as
    insertion-ordered association lists (locale \<open>js_map\<close>), decimal numerals.
  \<^item> \<open>Unicode\<close>, \<open>JsValue\<close>, \<open>JsFloat\<close>: strings as UTF-16 code units, JavaScript values as trees
    with property descriptors, the arithmetic of doubles on exact rationals with rounding.
  \<^item> \<open>SafeKeys\<close>, \<open>SafeData\<close>, \<open>EntityId\<close>: \<open>core/safe-keys.ts\<close>, \<open>array-input.ts\<close>,
    \<open>datastore-int64-id.ts\<close>, the id keys of \<open>query-utils.ts\<close> (locale \<open>id_codec\<close>).
  \<^item> \<open>IsoDate\<close>, \<open>DateText\<close>: \<open>core/date-intrinsics.ts\<close> and the calendar of ECMAScript.
  \<^item> \<open>QueryFilter\<close>, \<open>RowSort\<close>, \<open>StorePlan\<close>: filter, sort and cursors (locale \<open>row_order\<close>),
    options and plans (\<open>native-payload.ts\<close>, \<open>plan-meta.ts\<close>, \<open>capabilities.ts\<close> included).
  \<^item> \<open>Aggregate\<close>, \<open>FieldCodecs\<close>, \<open>FieldTypes\<close>, \<open>SoftDelete\<close>: the files of these names.
  \<^item> \<open>NestedMap\<close>, \<open>MemoryStore\<close>, \<open>MemoryTransaction\<close>, \<open>MemorySystem\<close>: \<open>adapters/store/memory.ts\<close>.
    \<open>memory_store\<close> is the state of \<open>MemoryStoreAdapter\<close> (collections, row revisions, tombstones, snapshots, counters),
    \<open>transaction\<close> that of a running transaction; \<open>MemorySystem\<close> lets any number of transactions and direct
    calls interleave, each call being one event.
  \<^item> \<open>StoreInvariant\<close>, \<open>StoreOperations\<close>, \<open>TransactionInvariant\<close>: what each operation does to rows
    and that it keeps the invariants. \<open>StoreContract\<close>: the locale \<open>store_adapter\<close>, which the store itself and the
    adapter inside a transaction interpret. \<open>MemoryProperties\<close>: the properties of the store.
  \<^item> \<open>MemoryQuery\<close>, \<open>MemoryPaging\<close>: \<open>query\<close> and \<open>aggregate\<close> of the memory store, and a client that pages.
  \<^item> \<open>BatchLoader\<close>, \<open>AdapterSources\<close>, \<open>MemoryCache\<close>, \<open>CacheVersioning\<close>:
    \<open>core/batch-loader.ts\<close>, \<open>core/cache-utils.ts\<close> and \<open>store-utils.ts\<close>, \<open>adapters/cache/memory.ts\<close> and
    \<open>core/cache-input.ts\<close>, \<open>core/cache-versioning.ts\<close>.
  \<^item> \<open>DatastoreKey\<close>, \<open>SearchScope\<close>: \<open>core/datastore-key.ts\<close>, \<open>core/datastore-search-scope.ts\<close>.
  \<^item> \<open>OutboxEvent\<close>, \<open>OutboxQueue\<close>, \<open>OutboxProperties\<close>: \<open>core/outbox-types.ts\<close>, the event
    checks of \<open>outbox-validation.ts\<close>, \<open>outbox-protocol.ts\<close>, and the queue of \<open>outbox-memory.ts\<close>, whose
    calls are sequences of steps in the order of the statements.

  \<^bold>\<open>What the lemmas show.\<close> Data: accepted data excludes unsafe members at every depth, cloning is
  normalisation, id keys and key identities are injective and decodable, dates and scopes read back. Queries: the
  filter means what the plan says, normalising a plan and the soft-delete hook change its meaning in no other way, the merge
  sort is the stable sort, pages add up to the query, sums of integers are exact. Codecs: what is stored and
  read back, and that nothing is lost where decoding undoes encoding. Store: an invariant of all interleavings,
  validated reads, exact and atomic publication, refused commits and failed savepoints without effect, success in
  isolation, refinement of a plain map. Cache: refinement of a map whose entries expire. Batch loader: every promise
  settled once with the row of its id. Outbox: unique ids, failed calls without effect, drains that keep the order
  of an entity and deliver what is due.

  \<^bold>\<open>Restrictions of the statements.\<close> The invariants of the store and of the outbox speak of states
  reached by inputs without symbol-keyed properties: the only symbol the code accepts is its own, under which it
  attaches the entity key of a Datastore row. The operations are modelled for such inputs too; \<open>OutboxProperties\<close> shows
  an append of one that stores its event and then throws. Progress of a drain supposes that the order keys of
  the live events can be computed; an event for which they cannot is exhibited there as well.

  \<^bold>\<open>Bounds and fuel.\<close> Recursions are structural or have a measure, except \<open>chunk_loop\<close>, a partial
  function whose termination for positive sizes is a property. \<open>well_formed_from\<close> counts down the length of the
  string, an upper bound of its iterations since each consumes a unit. \<open>walk_pages\<close>, a client and not code of the
  repository, may ask for one page more than there are rows, and that is proved to suffice. Row revisions are bounded by
  \<open>MAX_ROW_REVISION\<close> and the operations fail at the bound as in the code. Doubles are exact rationals that
  every operation rounds.

  \<^bold>\<open>Parameters.\<close> Functions of the application (\<open>loadMany\<close>, codecs), the text coding of cursors (base64url of
  JSON), and the digest of identities. The clock is an argument.

  \<^bold>\<open>What is not modelled.\<close> Object identity, cycles, proxies and prototype chains (values are trees), so
  neither are live model instances, the context, the query builder and metadata registries; promises and
  timers beyond the order of calls; message texts of errors; clients of servers (Datastore, Firestore,
  MongoDB, SQL, Redis, search engines), whose behaviour is defined outside the repository; the outbox kept in a store
  and its worker; the command line and the testing kit.
\<close>

end
